(* ===== verification/Prelude.thy ===== *)
theory Prelude
  imports Main "HOL-Library.Sublist" "HOL-Library.List_Lexorder" "HOL-Library.Char_ord"
begin

text \<open>
  Shared vocabulary of the development: JavaScript strings and the string operations the BFF
  uses, with the lemmas every component needs.

  A JavaScript string is represented by the bytes of its generalised UTF-8 encoding, so a
  \<^typ>\<open>string\<close> is a list of bytes.  Every separator, prefix and character class the code tests is
  ASCII, and those tests give the same answer on the bytes as on the UTF-16 code units.  An
  unpaired surrogate is the three-byte form that starts with \<open>0xED\<close> and continues with a byte
  of at least \<open>0xA0\<close>.  Case conversion is modelled on the ASCII letters.
\<close>

named_theorems js_simps \<open>rewriting JavaScript string operations\<close>

subsection \<open>Options\<close>

definition or_empty :: "string option \<Rightarrow> string" where
  "or_empty x = (case x of None \<Rightarrow> [] | Some s \<Rightarrow> s)"

lemma or_empty_simps [simp]: "or_empty None = []" "or_empty (Some s) = s"
  by (simp_all add: or_empty_def)

fun first_some :: "('a \<Rightarrow> 'b option) \<Rightarrow> 'a list \<Rightarrow> 'b option" where
  "first_some f [] = None"
| "first_some f (x # xs) = (case f x of Some y \<Rightarrow> Some y | None \<Rightarrow> first_some f xs)"

lemma first_some_Some_set: "first_some f xs = Some y \<Longrightarrow> \<exists>x \<in> set xs. f x = Some y"
  by (induction xs) (auto split: option.splits)

lemma first_some_None_iff: "first_some f xs = None \<longleftrightarrow> (\<forall>x \<in> set xs. f x = None)"
  by (induction xs) (auto split: option.splits)

subsection \<open>Splitting and joining\<close>

text \<open>\<open>s.split(c)\<close> for a one-character separator; the empty string splits into one empty part.\<close>

fun split_on :: "char \<Rightarrow> string \<Rightarrow> string list" where
  "split_on c [] = [[]]"
| "split_on c (x # xs) =
     (if x = c then [] # split_on c xs
      else (case split_on c xs of [] \<Rightarrow> [[x]] | y # ys \<Rightarrow> (x # y) # ys))"

text \<open>\<open>parts.join(sep)\<close>.\<close>

fun join_with :: "string \<Rightarrow> string list \<Rightarrow> string" where
  "join_with sep [] = []"
| "join_with sep [x] = x"
| "join_with sep (x # y # ys) = x @ sep @ join_with sep (y # ys)"

lemma split_on_not_Nil [simp]: "split_on c s \<noteq> []"
  by (induction s) (auto split: list.splits)

lemma split_on_no_sep: "c \<notin> set s \<Longrightarrow> split_on c s = [s]"
  by (induction s) auto

lemma split_on_append: "c \<notin> set a \<Longrightarrow> split_on c (a @ c # b) = a # split_on c b"
  by (induction a) auto

lemma split_on_parts: "p \<in> set (split_on c s) \<Longrightarrow> c \<notin> set p"
  by (induction s arbitrary: p) (auto split: if_splits list.splits)

lemma join_with_Cons: "ys \<noteq> [] \<Longrightarrow> join_with sep (x # ys) = x @ sep @ join_with sep ys"
  by (cases ys) auto

lemma join_with_Cons_char: "ys \<noteq> [] \<Longrightarrow> join_with sep ((c # x) # ys) = c # join_with sep (x # ys)"
  by (cases ys) auto

lemma join_split_on: "join_with [c] (split_on c s) = s"
proof (induction s)
  case (Cons x xs)
  show ?case
  proof (cases "split_on c xs")
    case (Cons y ys)
    then show ?thesis using Cons.IH by (cases ys) auto
  qed simp
qed simp

lemma split_on_join:
  "xs \<noteq> [] \<Longrightarrow> \<forall>p \<in> set xs. c \<notin> set p \<Longrightarrow> split_on c (join_with [c] xs) = xs"
proof (induction "[c]" xs rule: join_with.induct)
  case (3 x y ys)
  then show ?case by (simp add: split_on_append)
qed (simp_all add: split_on_no_sep)

lemma set_join_with: "set (join_with sep xs) \<subseteq> set sep \<union> (\<Union>x \<in> set xs. set x)"
  by (induction sep xs rule: join_with.induct) auto

subsection \<open>Searching for a character\<close>

text \<open>\<open>s.indexOf(c)\<close>, with the code's \<open>-1\<close> as \<^const>\<open>None\<close>.\<close>

definition index_of :: "char \<Rightarrow> string \<Rightarrow> nat option" where
  "index_of c s = (if c \<in> set s then Some (length (takeWhile (\<lambda>x. x \<noteq> c) s)) else None)"

text \<open>\<open>s.lastIndexOf(c)\<close>.\<close>

definition last_index_of :: "char \<Rightarrow> string \<Rightarrow> nat option" where
  "last_index_of c s =
     (if c \<in> set s then Some (length s - 1 - length (takeWhile (\<lambda>x. x \<noteq> c) (rev s))) else None)"

lemma takeWhile_neq_append: "c \<notin> set a \<Longrightarrow> takeWhile (\<lambda>x. x \<noteq> c) (a @ c # b) = a"
  by (induction a) auto

lemma index_of_append: "c \<notin> set a \<Longrightarrow> index_of c (a @ c # b) = Some (length a)"
  by (simp add: index_of_def takeWhile_neq_append)

lemma index_of_None_iff: "index_of c s = None \<longleftrightarrow> c \<notin> set s"
  by (simp add: index_of_def)

lemma index_of_split:
  assumes "index_of c s = Some i"
  shows "s = take i s @ c # drop (Suc i) s \<and> c \<notin> set (take i s)"
proof -
  from assms have "c \<in> set s" by (auto simp: index_of_def split: if_splits)
  then obtain a b where s: "s = a @ c # b" and a: "c \<notin> set a" by (auto dest: split_list_first)
  with assms have "i = length a" by (simp add: index_of_append)
  with s a show ?thesis by simp
qed

lemma last_index_of_append:
  assumes "c \<notin> set b"
  shows "last_index_of c (a @ c # b) = Some (length a)"
proof -
  have "takeWhile (\<lambda>x. x \<noteq> c) (rev b @ c # rev a) = rev b"
    using assms by (intro takeWhile_neq_append) simp
  then show ?thesis by (simp add: last_index_of_def)
qed

lemma last_index_of_None_iff: "last_index_of c s = None \<longleftrightarrow> c \<notin> set s"
  by (simp add: last_index_of_def)

subsection \<open>Character classes and case\<close>

definition is_upper :: "char \<Rightarrow> bool" where
  "is_upper c \<longleftrightarrow> CHR ''A'' \<le> c \<and> c \<le> CHR ''Z''"

definition is_lower :: "char \<Rightarrow> bool" where
  "is_lower c \<longleftrightarrow> CHR ''a'' \<le> c \<and> c \<le> CHR ''z''"

definition is_digit :: "char \<Rightarrow> bool" where
  "is_digit c \<longleftrightarrow> CHR ''0'' \<le> c \<and> c \<le> CHR ''9''"

definition is_alnum :: "char \<Rightarrow> bool" where
  "is_alnum c \<longleftrightarrow> is_upper c \<or> is_lower c \<or> is_digit c"

text \<open>The regular-expression class \<open>\\w\<close>.\<close>

definition is_word_char :: "char \<Rightarrow> bool" where
  "is_word_char c \<longleftrightarrow> is_alnum c \<or> c = CHR ''_''"

definition upper_char :: "char \<Rightarrow> char" where
  "upper_char c = (if is_lower c then char_of (of_char c - 32 :: nat) else c)"

definition lower_char :: "char \<Rightarrow> char" where
  "lower_char c = (if is_upper c then char_of (of_char c + 32 :: nat) else c)"

text \<open>\<open>s.toUpperCase()\<close> and \<open>s.toLowerCase()\<close>, on the ASCII letters.\<close>

definition to_upper :: "string \<Rightarrow> string" where
  "to_upper s = map upper_char s"

definition to_lower :: "string \<Rightarrow> string" where
  "to_lower s = map lower_char s"

lemma char_le_of_char: "c \<le> d \<longleftrightarrow> (of_char c :: nat) \<le> of_char d"
  by (simp add: less_eq_char_def)

lemma char_of_eq_lit: "n < 256 \<Longrightarrow> (char_of n = c) = (n = (of_char c :: nat))" for n :: nat
  by (auto simp: char_of_eq_iff take_bit_nat_eq_self)

lemma upper_char_not_lower: "\<not> is_lower (upper_char c)"
proof (cases "is_lower c")
  case True
  then have "(of_char c :: nat) \<le> 122" and "97 \<le> (of_char c :: nat)"
    by (simp_all add: is_lower_def char_le_of_char)
  then show ?thesis using True
    by (simp add: upper_char_def is_lower_def char_le_of_char)
qed (simp add: upper_char_def)

lemma upper_word: "is_word_char c \<Longrightarrow> is_word_char (upper_char c)"
proof -
  assume c: "is_word_char c"
  show ?thesis
  proof (cases "is_lower c")
    case True
    then have "(of_char c :: nat) \<le> 122" and "97 \<le> (of_char c :: nat)"
      by (simp_all add: is_lower_def char_le_of_char)
    then have "65 \<le> (of_char c - 32 :: nat)" and "(of_char c - 32 :: nat) \<le> 90" by linarith+
    then show ?thesis using True
      by (simp add: upper_char_def is_word_char_def is_alnum_def is_upper_def char_le_of_char)
  qed (use c in \<open>simp add: upper_char_def\<close>)
qed

lemma to_upper_idem [simp]: "to_upper (to_upper s) = to_upper s"
  by (simp add: to_upper_def upper_char_not_lower upper_char_def [of "upper_char c" for c])

lemma to_upper_simps [simp, js_simps]:
  "to_upper [] = []"
  "to_upper (c # s) = upper_char c # to_upper s"
  "to_upper (s @ t) = to_upper s @ to_upper t"
  by (simp_all add: to_upper_def)

lemma to_lower_simps [simp, js_simps]:
  "to_lower [] = []"
  "to_lower (c # s) = lower_char c # to_lower s"
  by (simp_all add: to_lower_def)

lemma to_upper_eq_Nil_iff [simp]: "to_upper s = [] \<longleftrightarrow> s = []"
  by (simp add: to_upper_def)

text \<open>The length the code sees: UTF-16 code units.  A continuation byte adds none, the lead of a
  four-byte sequence adds two.\<close>

definition utf16_units :: "char \<Rightarrow> nat" where
  "utf16_units c =
     (let n = (of_char c :: nat) in if 128 \<le> n \<and> n < 192 then 0 else if 240 \<le> n then 2 else 1)"

definition js_length :: "string \<Rightarrow> nat" where
  "js_length s = sum_list (map utf16_units s)"

subsection \<open>Trimming\<close>

text \<open>The white space and line terminators \<open>trim()\<close> removes, each as its byte form.\<close>

definition ws_forms :: "string list" where
  "ws_forms =
     [[CHR 0x09], [CHR 0x0A], [CHR 0x0B], [CHR 0x0C], [CHR 0x0D], [CHR 0x20],
      [CHR 0xC2, CHR 0xA0], [CHR 0xE1, CHR 0x9A, CHR 0x80],
      [CHR 0xE2, CHR 0x80, CHR 0x80], [CHR 0xE2, CHR 0x80, CHR 0x81],
      [CHR 0xE2, CHR 0x80, CHR 0x82], [CHR 0xE2, CHR 0x80, CHR 0x83],
      [CHR 0xE2, CHR 0x80, CHR 0x84], [CHR 0xE2, CHR 0x80, CHR 0x85],
      [CHR 0xE2, CHR 0x80, CHR 0x86], [CHR 0xE2, CHR 0x80, CHR 0x87],
      [CHR 0xE2, CHR 0x80, CHR 0x88], [CHR 0xE2, CHR 0x80, CHR 0x89],
      [CHR 0xE2, CHR 0x80, CHR 0x8A], [CHR 0xE2, CHR 0x80, CHR 0xA8],
      [CHR 0xE2, CHR 0x80, CHR 0xA9], [CHR 0xE2, CHR 0x80, CHR 0xAF],
      [CHR 0xE2, CHR 0x81, CHR 0x9F], [CHR 0xE3, CHR 0x80, CHR 0x80],
      [CHR 0xEF, CHR 0xBB, CHR 0xBF]]"

definition strip_one :: "string list \<Rightarrow> string \<Rightarrow> string option" where
  "strip_one forms s = first_some (\<lambda>f. if f \<noteq> [] \<and> prefix f s then Some (drop (length f) s) else None) forms"

lemma strip_one_shorter: "strip_one forms s = Some t \<Longrightarrow> length t < length s"
  unfolding strip_one_def
  by (drule first_some_Some_set) (auto split: if_splits simp: prefix_def)

function strip_forms :: "string list \<Rightarrow> string \<Rightarrow> string" where
  "strip_forms forms s = (case strip_one forms s of None \<Rightarrow> s | Some t \<Rightarrow> strip_forms forms t)"
  by pat_completeness auto
termination
  by (relation "measure (\<lambda>(forms, s). length s)") (auto dest: strip_one_shorter)

declare strip_forms.simps [simp del]

definition trim_start :: "string \<Rightarrow> string" where
  "trim_start s = strip_forms ws_forms s"

definition trim_end :: "string \<Rightarrow> string" where
  "trim_end s = rev (strip_forms (map rev ws_forms) (rev s))"

text \<open>\<open>s.trim()\<close>.\<close>

definition js_trim :: "string \<Rightarrow> string" where
  "js_trim s = trim_end (trim_start s)"

lemma strip_forms_id: "\<forall>f \<in> set forms. f = [] \<or> \<not> prefix f s \<Longrightarrow> strip_forms forms s = s"
proof -
  assume "\<forall>f \<in> set forms. f = [] \<or> \<not> prefix f s"
  then have "strip_one forms s = None" by (auto simp: strip_one_def first_some_None_iff)
  then show ?thesis by (simp add: strip_forms.simps [of forms s])
qed

lemma strip_forms_length: "length (strip_forms forms s) \<le> length s"
proof (induction forms s rule: strip_forms.induct)
  case (1 forms s)
  show ?case
  proof (cases "strip_one forms s")
    case None
    then show ?thesis by (simp add: strip_forms.simps [of forms s])
  next
    case (Some t)
    with 1 have "length (strip_forms forms t) \<le> length t" by blast
    with Some show ?thesis
      using strip_one_shorter [OF Some] by (simp add: strip_forms.simps [of forms s])
  qed
qed

lemma strip_forms_fixed: "strip_one forms (strip_forms forms s) = None"
proof (induction forms s rule: strip_forms.induct)
  case (1 forms s)
  show ?case
    by (cases "strip_one forms s") (simp_all add: strip_forms.simps [of forms s] 1)
qed

text \<open>A character that is no part of any white-space form stops the trimming.\<close>

definition plain_char :: "char \<Rightarrow> bool" where
  "plain_char c \<longleftrightarrow> 32 < (of_char c :: nat) \<and> (of_char c :: nat) < 128"

lemma ws_forms_head: "f \<in> set ws_forms \<Longrightarrow> f \<noteq> [] \<and> \<not> plain_char (hd f) \<and> \<not> plain_char (last f)"
  by (auto simp: ws_forms_def plain_char_def)

lemma js_trim_plain:
  assumes "s = [] \<or> plain_char (hd s) \<and> plain_char (last s)"
  shows "js_trim s = s"
proof (cases "s = []")
  case True
  then show ?thesis
    using ws_forms_head
    by (fastforce simp: js_trim_def trim_start_def trim_end_def strip_forms_id [of _ "[]"])
next
  case False
  with assms have h: "plain_char (hd s)" and l: "plain_char (last s)" by auto
  have "\<not> prefix f s" if "f \<in> set ws_forms" for f
    using ws_forms_head [OF that] h by (cases f; cases s) auto
  then have 1: "trim_start s = s"
    unfolding trim_start_def by (intro strip_forms_id) auto
  have "\<not> prefix (rev f) (rev s)" if "f \<in> set ws_forms" for f
  proof
    assume "prefix (rev f) (rev s)"
    then obtain t where "s = t @ f" by (auto simp: prefix_def rev_eq_append_conv)
    then have "last s = last f" using ws_forms_head [OF that] by simp
    then show False using ws_forms_head [OF that] l by simp
  qed
  then have "trim_end s = s"
    unfolding trim_end_def by (subst strip_forms_id) auto
  with 1 show ?thesis by (simp add: js_trim_def)
qed

text \<open>The empty-string tests of the code: a string that is not empty is truthy.\<close>

definition truthy :: "string option \<Rightarrow> bool" where
  "truthy x \<longleftrightarrow> (case x of None \<Rightarrow> False | Some s \<Rightarrow> s \<noteq> [])"

lemma truthy_simps [simp]: "\<not> truthy None" "truthy (Some s) \<longleftrightarrow> s \<noteq> []"
  by (simp_all add: truthy_def)

subsection \<open>Insertion-ordered sets and maps\<close>

text \<open>A JavaScript \<open>Set\<close> built by adding the elements of a list: the first occurrences, in
  order.\<close>

definition dedup :: "'a list \<Rightarrow> 'a list" where
  "dedup xs = rev (fold (\<lambda>x acc. if x \<in> set acc then acc else x # acc) xs [])"

lemma dedup_fold:
  "set (fold (\<lambda>x acc. if x \<in> set acc then acc else x # acc) xs acc) = set acc \<union> set xs"
  "distinct acc \<Longrightarrow> distinct (fold (\<lambda>x acc. if x \<in> set acc then acc else x # acc) xs acc)"
  by (induction xs arbitrary: acc) auto

lemma set_dedup [simp]: "set (dedup xs) = set xs"
  by (simp add: dedup_def dedup_fold)

lemma distinct_dedup [simp]: "distinct (dedup xs)"
  by (simp add: dedup_def dedup_fold)

text \<open>A JavaScript \<open>Map\<close>: an association list in insertion order, at most one entry a key.\<close>

type_synonym ('k, 'v) jsmap = "('k \<times> 'v) list"

fun map_put :: "'k \<Rightarrow> 'v \<Rightarrow> ('k, 'v) jsmap \<Rightarrow> ('k, 'v) jsmap" where
  "map_put k v [] = [(k, v)]"
| "map_put k v ((k', v') # m) = (if k = k' then (k, v) # m else (k', v') # map_put k v m)"

definition map_del :: "'k \<Rightarrow> ('k, 'v) jsmap \<Rightarrow> ('k, 'v) jsmap" where
  "map_del k m = filter (\<lambda>e. fst e \<noteq> k) m"

lemma map_of_map_put [simp]: "map_of (map_put k v m) = (map_of m)(k \<mapsto> v)"
  by (induction k v m rule: map_put.induct) auto

lemma map_of_map_del [simp]: "map_of (map_del k m) = (map_of m)(k := None)"
  by (induction m) (auto simp: map_del_def)

lemma keys_map_put: "fst ` set (map_put k v m) = insert k (fst ` set m)"
  by (induction k v m rule: map_put.induct) auto

lemma distinct_map_put: "distinct (map fst m) \<Longrightarrow> distinct (map fst (map_put k v m))"
proof (induction k v m rule: map_put.induct)
  case (2 k v k' v' m)
  then show ?case using keys_map_put [of k v m] by (auto simp flip: set_map)
qed simp

lemma distinct_map_del: "distinct (map fst m) \<Longrightarrow> distinct (map fst (map_del k m))"
  by (simp add: map_del_def distinct_map_filter)

lemma map_of_filter_distinct:
  "distinct (map fst m) \<Longrightarrow>
   map_of (filter (\<lambda>e. P (snd e)) m) k = (case map_of m k of None \<Rightarrow> None | Some v \<Rightarrow> if P v then Some v else None)"
  by (induction m) (auto simp: map_of_eq_None_iff image_iff split: option.splits)

subsection \<open>Histories\<close>

text \<open>What the events of a history ask of a part of the state, the latest first; what an event asks may depend
  on the history before it.\<close>

fun calls_along :: "('e \<Rightarrow> 'e list \<Rightarrow> 'c list) \<Rightarrow> 'e list \<Rightarrow> 'c list" where
  "calls_along f [] = []"
| "calls_along f (e # es) = f e es @ calls_along f es"

lemma calls_along_event: "c \<in> set (calls_along f es) \<Longrightarrow> \<exists>later e earlier. es = later @ e # earlier \<and> c \<in> set (f e earlier)"
proof (induction es)
  case (Cons e es)
  show ?case
  proof (cases "c \<in> set (f e es)")
    case True
    then show ?thesis by (intro exI [of _ "[]"]) auto
  next
    case False
    then obtain later e' earlier where "es = later @ e' # earlier" "c \<in> set (f e' earlier)" using Cons by auto
    then show ?thesis by (intro exI [of _ "e # later"]) auto
  qed
qed simp

text \<open>The event a call comes from, and what the events after it asked for.\<close>

lemma calls_along_split:
  assumes short: "\<And>e es. length (f e es) \<le> 1"
  shows "calls_along f es = pre @ c # post \<Longrightarrow>
    \<exists>later e earlier. es = later @ e # earlier \<and> c \<in> set (f e earlier) \<and> post = calls_along f earlier \<and>
      (\<forall>x \<in> set later. \<exists>before. set (f x before) \<subseteq> set pre)"
proof (induction es arbitrary: pre)
  case (Cons e es)
  show ?case
  proof (cases "pre = [] \<and> f e es \<noteq> []")
    case True
    then have "c \<in> set (f e es)" "post = calls_along f es" using Cons.prems short [of e es] by (cases "f e es"; simp)+
    then show ?thesis by (intro exI [of _ "[]"]) auto
  next
    case False
    then obtain pre' where pre': "pre = f e es @ pre'" "calls_along f es = pre' @ c # post"
      using Cons.prems short [of e es] by (cases "f e es"; cases pre) auto
    from Cons.IH [OF pre'(2)] obtain later e' earlier where
      IH: "es = later @ e' # earlier" "c \<in> set (f e' earlier)" "post = calls_along f earlier"
        "\<forall>x \<in> set later. \<exists>before. set (f x before) \<subseteq> set pre'" by blast
    have "\<exists>before. set (f x before) \<subseteq> set pre" if "x \<in> set (e # later)" for x
      using that IH(4) unfolding pre'(1) by fastforce
    then show ?thesis using IH(1-3) by (intro exI [of _ "e # later"]) auto
  qed
qed simp

text \<open>The interface the components use a JavaScript \<open>Map\<close> through.\<close>

locale js_map =
  fixes get_entry :: "'m \<Rightarrow> 'k \<Rightarrow> 'v option"
    and put_entry :: "'k \<Rightarrow> 'v \<Rightarrow> 'm \<Rightarrow> 'm"
    and del_entry :: "'k \<Rightarrow> 'm \<Rightarrow> 'm"
    and ok :: "'m \<Rightarrow> bool"
  assumes get_put: "ok m \<Longrightarrow> get_entry (put_entry k v m) k' = (if k' = k then Some v else get_entry m k')"
    and get_del: "ok m \<Longrightarrow> get_entry (del_entry k m) k' = (if k' = k then None else get_entry m k')"
    and ok_put: "ok m \<Longrightarrow> ok (put_entry k v m)"
    and ok_del: "ok m \<Longrightarrow> ok (del_entry k m)"
begin

lemma put_same: "ok m \<Longrightarrow> get_entry (put_entry k v m) k = Some v"
  by (simp add: get_put)

lemma del_same: "ok m \<Longrightarrow> get_entry (del_entry k m) k = None"
  by (simp add: get_del)

lemma put_frame: "ok m \<Longrightarrow> k' \<noteq> k \<Longrightarrow> get_entry (put_entry k v m) k' = get_entry m k'"
  by (simp add: get_put)

lemma del_frame: "ok m \<Longrightarrow> k' \<noteq> k \<Longrightarrow> get_entry (del_entry k m) k' = get_entry m k'"
  by (simp add: get_del)

lemma put_then_del: "ok m \<Longrightarrow> get_entry m k = None \<Longrightarrow> get_entry (del_entry k (put_entry k v m)) k' = get_entry m k'"
  by (simp add: get_put get_del ok_put)

end

interpretation alist_map: js_map map_of map_put map_del "\<lambda>m. distinct (map fst m)"
  by unfold_locales (simp_all add: distinct_map_put distinct_map_del)

end
