(* ===== verification/ServiceCatalog.thy ===== *)
theory ServiceCatalog
  imports Prelude
begin

text \<open>
  The server-global service-by-layer catalog of
  \<open>apps/bff/src/logic/services/service-layer-catalog.ts\<close>: one read of OAP, the cache in front of it
  and what a failed read does to the rows already held.  OAP's answers are arguments: the layer list
  and the roster of each queried layer, either of which may fail.  An operation runs at one reading
  of the clock, in milliseconds; callers that wait for the same read share it, so a call is one
  step.  The number beside the cached catalog is its identity: it changes whenever the object does.
\<close>

record service_row =
  sv_id :: string
  sv_name :: string
  sv_normal :: "bool option"
  sv_group :: string

record service_catalog =
  sc_layers :: "string list"
  sc_by_layer :: "(string, service_row list) jsmap"
  sc_by_name :: "(string, string) jsmap"
  sc_unreachable :: bool
  sc_stale :: bool
  sc_read_at :: "nat option"

record raw_row =
  raw_id :: string
  raw_name :: string
  raw_normal :: "bool option"
  raw_group :: "string option"

text \<open>OAP's side: a failed call is \<^const>\<open>None\<close>; the roster of a layer is found by its position in the
  query.\<close>

record catalog_answers =
  ca_layers :: "string list option"
  ca_rosters :: "string list \<Rightarrow> (nat \<Rightarrow> raw_row list option) option"

definition row_of :: "raw_row \<Rightarrow> service_row" where
  "row_of r = \<lparr>sv_id = raw_id r, sv_name = raw_name r, sv_normal = raw_normal r, sv_group = or_empty (raw_group r)\<rparr>"

definition empty_catalog :: "string list \<Rightarrow> bool \<Rightarrow> service_catalog" where
  "empty_catalog layers failed =
     \<lparr>sc_layers = layers, sc_by_layer = [], sc_by_name = [], sc_unreachable = failed, sc_stale = False, sc_read_at = None\<rparr>"

definition name_rows :: "string \<Rightarrow> service_row list \<Rightarrow> (string, string) jsmap \<Rightarrow> (string, string) jsmap" where
  "name_rows layer rows m = fold (\<lambda>r m. if sv_name r \<noteq> [] then map_put (to_lower (sv_name r)) layer m else m) rows m"

fun index_layers ::
  "(nat \<Rightarrow> raw_row list option) \<Rightarrow> nat \<Rightarrow> string list \<Rightarrow> service_catalog \<Rightarrow> service_catalog" where
  "index_layers rosters i [] c = c"
| "index_layers rosters i (layer # ls) c =
     (let rows = map row_of (case rosters i of Some rs \<Rightarrow> rs | None \<Rightarrow> []) in
      index_layers rosters (Suc i) ls
        (c\<lparr>sc_by_layer := map_put layer rows (sc_by_layer c), sc_by_name := name_rows layer rows (sc_by_name c)\<rparr>))"

definition refresh_catalog :: "catalog_answers \<Rightarrow> nat \<Rightarrow> service_catalog" where
  "refresh_catalog oap now =
     (case ca_layers oap of
        None \<Rightarrow> empty_catalog [] True
      | Some layers \<Rightarrow>
          if length layers = 0 then empty_catalog layers False
          else (case ca_rosters oap layers of
                  None \<Rightarrow> empty_catalog layers True
                | Some rosters \<Rightarrow> index_layers rosters 0 layers ((empty_catalog layers False)\<lparr>sc_read_at := Some now\<rparr>)))"

subsection \<open>The cache\<close>

record catalog_state =
  cs_cached :: "service_catalog option"
  cs_last_fetch :: nat
  cs_version :: nat

definition catalog_ttl :: nat where "catalog_ttl = 60000"
definition catalog_failure_ttl :: nat where "catalog_failure_ttl = 5000"

definition new_catalog_state :: catalog_state where
  "new_catalog_state = \<lparr>cs_cached = None, cs_last_fetch = 0, cs_version = 0\<rparr>"

definition catalog_fresh :: "catalog_state \<Rightarrow> nat \<Rightarrow> bool" where
  "catalog_fresh st now =
     (case cs_cached st of
        None \<Rightarrow> False
      | Some c \<Rightarrow> now - cs_last_fetch st < (if sc_unreachable c then catalog_failure_ttl else catalog_ttl))"

definition retain_rows :: "service_catalog option \<Rightarrow> service_catalog \<Rightarrow> service_catalog" where
  "retain_rows cached r =
     (case cached of
        Some c \<Rightarrow> if sc_unreachable r \<and> 0 < length (sc_by_name c) then c\<lparr>sc_unreachable := True, sc_stale := True\<rparr> else r
      | None \<Rightarrow> r)"

definition catalog_get :: "catalog_answers \<Rightarrow> nat \<Rightarrow> catalog_state \<Rightarrow> service_catalog \<times> catalog_state" where
  "catalog_get oap now st =
     (case cs_cached st of
        Some c \<Rightarrow> if catalog_fresh st now then (c, st)
                  else (let c' = retain_rows (Some c) (refresh_catalog oap now) in
                        (c', \<lparr>cs_cached = Some c', cs_last_fetch = now, cs_version = Suc (cs_version st)\<rparr>))
      | None \<Rightarrow> (let c' = retain_rows None (refresh_catalog oap now) in
                 (c', \<lparr>cs_cached = Some c', cs_last_fetch = now, cs_version = Suc (cs_version st)\<rparr>)))"

definition catalog_invalidate :: "catalog_state \<Rightarrow> catalog_state" where
  "catalog_invalidate st = st\<lparr>cs_cached := None, cs_last_fetch := 0\<rparr>"

definition all_services :: "catalog_answers \<Rightarrow> nat \<Rightarrow> catalog_state \<Rightarrow> (service_row \<times> string) list \<times> catalog_state" where
  "all_services oap now st =
     (case catalog_get oap now st of
        (snapshot, st') \<Rightarrow>
          (concat (map (\<lambda>(layer, rows). map (\<lambda>r. (r, layer)) rows) (sc_by_layer snapshot)), st'))"

text \<open>How long rows kept through failed refreshes still decide access
  (\<open>apps/bff/src/logic/services/service-identity.ts\<close>).\<close>

definition retained_trust_ms :: nat where "retained_trust_ms = 300000"

definition trusted :: "service_catalog \<Rightarrow> nat \<Rightarrow> bool" where
  "trusted c now =
     (if \<not> sc_stale c \<and> \<not> sc_unreachable c then True
      else (case sc_read_at c of None \<Rightarrow> False | Some t \<Rightarrow> now - t < retained_trust_ms))"

subsection \<open>Lemmas\<close>

lemma index_layers_keeps [simp]:
  "sc_unreachable (index_layers rosters i ls c) = sc_unreachable c"
  "sc_stale (index_layers rosters i ls c) = sc_stale c"
  "sc_read_at (index_layers rosters i ls c) = sc_read_at c"
  "sc_layers (index_layers rosters i ls c) = sc_layers c"
  by (induction rosters i ls c rule: index_layers.induct) (simp_all add: Let_def)

lemma refresh_not_stale: "\<not> sc_stale (refresh_catalog oap now)"
  by (auto simp: refresh_catalog_def empty_catalog_def split: option.split)

text \<open>A read that failed: what OAP answered when neither question got an answer.\<close>

definition read_fails :: "catalog_answers \<Rightarrow> bool" where
  "read_fails oap \<longleftrightarrow>
     (case ca_layers oap of None \<Rightarrow> True | Some ls \<Rightarrow> ls \<noteq> [] \<and> ca_rosters oap ls = None)"

lemma refresh_unreachable_iff: "sc_unreachable (refresh_catalog oap now) \<longleftrightarrow> read_fails oap"
  by (auto simp: refresh_catalog_def read_fails_def empty_catalog_def split: option.split)

text \<open>The rows of a catalog, without the marks about the latest attempt.\<close>

definition rows_of :: "service_catalog \<Rightarrow> (string, service_row list) jsmap \<times> (string, string) jsmap \<times> nat option" where
  "rows_of c = (sc_by_layer c, sc_by_name c, sc_read_at c)"

lemma catalog_get_cached: "catalog_get oap now st = (c, st') \<Longrightarrow> cs_cached st' = Some c"
  by (auto simp: catalog_get_def Let_def split: option.splits if_splits)

lemma catalog_get_failing:
  assumes "cs_cached st = Some c" "sc_by_name c \<noteq> []" "read_fails oap" "catalog_get oap now st = (c', st')"
  shows "rows_of c' = rows_of c \<and> sc_by_name c' \<noteq> [] \<and> (c' = c \<and> st' = st \<or> sc_unreachable c' \<and> sc_stale c')"
  using assms refresh_unreachable_iff [of oap now]
  by (auto simp: catalog_get_def retain_rows_def rows_of_def Let_def split: if_splits)

text \<open>A run of calls, each at its time with its answers.\<close>

fun catalog_run :: "(catalog_answers \<times> nat) list \<Rightarrow> catalog_state \<Rightarrow> catalog_state" where
  "catalog_run [] st = st"
| "catalog_run ((oap, now) # rs) st = catalog_run rs (snd (catalog_get oap now st))"

lemma catalog_run_failing:
  "cs_cached st = Some c \<Longrightarrow> sc_by_name c \<noteq> [] \<Longrightarrow> \<forall>r \<in> set rs. read_fails (fst r) \<Longrightarrow>
   \<exists>c'. cs_cached (catalog_run rs st) = Some c' \<and> rows_of c' = rows_of c \<and>
     (c' = c \<or> sc_unreachable c' \<and> sc_stale c')"
proof (induction rs arbitrary: st c)
  case (Cons r rs)
  obtain oap now where r: "r = (oap, now)" by (cases r)
  obtain c1 st1 where g: "catalog_get oap now st = (c1, st1)" by (cases "catalog_get oap now st")
  have f: "rows_of c1 = rows_of c \<and> sc_by_name c1 \<noteq> [] \<and> (c1 = c \<and> st1 = st \<or> sc_unreachable c1 \<and> sc_stale c1)"
    using catalog_get_failing [OF Cons.prems(1,2) _ g] Cons.prems(3) r by simp
  have "cs_cached st1 = Some c1" using g by (rule catalog_get_cached)
  then obtain c' where "cs_cached (catalog_run rs st1) = Some c'" "rows_of c' = rows_of c1"
    "c' = c1 \<or> sc_unreachable c' \<and> sc_stale c'"
    using Cons.IH [of st1 c1] f Cons.prems(3) by auto
  then show ?case using f g r by auto
qed simp

subsection \<open>Properties\<close>

text \<open>C38: an outage never empties the catalog.  However many reads fail, the services once read stay,
  unchanged and with the time they were read, and any catalog published after the first failed
  refresh says both that OAP is unreachable and that the rows are old.  They decide access only
  while the read is less than five minutes old.\<close>

theorem outage_keeps_rows:
  assumes "cs_cached st = Some c" "sc_by_name c \<noteq> []" "\<forall>r \<in> set rs. read_fails (fst r)"
  shows "\<exists>c'. cs_cached (catalog_run rs st) = Some c' \<and> rows_of c' = rows_of c \<and>
    (c' = c \<or> sc_unreachable c' \<and> sc_stale c' \<and>
       (\<forall>now. trusted c' now \<longleftrightarrow> (\<exists>t. sc_read_at c = Some t \<and> now - t < 300000)))"
proof -
  obtain c' where c': "cs_cached (catalog_run rs st) = Some c'" "rows_of c' = rows_of c"
    "c' = c \<or> sc_unreachable c' \<and> sc_stale c'"
    using catalog_run_failing [OF assms] by blast
  have "sc_read_at c' = sc_read_at c" using c'(2) by (simp add: rows_of_def)
  then have "\<forall>now. trusted c' now \<longleftrightarrow> (\<exists>t. sc_read_at c = Some t \<and> now - t < 300000)"
    if "sc_unreachable c' \<and> sc_stale c'"
    using that by (auto simp: trusted_def retained_trust_ms_def split: option.split)
  with c' show ?thesis by blast
qed

theorem outage_keeps_rows_witness:
  "\<exists>c'. cs_cached (catalog_run [(\<lparr>ca_layers = None, ca_rosters = \<lambda>ls. None\<rparr>, 70000), (\<lparr>ca_layers = None, ca_rosters = \<lambda>ls. None\<rparr>, 80000)]
       \<lparr>cs_cached = Some ((empty_catalog [''GENERAL''] False)\<lparr>sc_by_name := [(''cart'', ''GENERAL'')], sc_read_at := Some 5\<rparr>),
        cs_last_fetch = 5, cs_version = 1\<rparr>) = Some c' \<and> sc_by_name c' = [(''cart'', ''GENERAL'')]"
proof -
  let ?c = "(empty_catalog [''GENERAL''] False)\<lparr>sc_by_name := [(''cart'', ''GENERAL'')], sc_read_at := Some 5\<rparr>"
  let ?st = "\<lparr>cs_cached = Some ?c, cs_last_fetch = 5, cs_version = 1\<rparr>"
  let ?f = "\<lparr>ca_layers = None, ca_rosters = \<lambda>ls. None\<rparr>"
  obtain c' where "cs_cached (catalog_run [(?f, 70000), (?f, 80000)] ?st) = Some c'" "rows_of c' = rows_of ?c"
    using outage_keeps_rows [of ?st ?c "[(?f, 70000), (?f, 80000)]"] by (auto simp: read_fails_def)
  then show ?thesis by (auto simp: rows_of_def)
qed

end
