(* ===== verification/Base64.thy ===== *)
theory Base64
  imports Prelude
begin

text \<open>
  The two conversions the code makes between text and bytes: UTF-8, where text that is not
  well-formed becomes the replacement character, and base64, written with padding and read leniently
  (either alphabet, characters outside both skipped, padding ends the input).
\<close>

subsection \<open>UTF-8\<close>

definition byte_in :: "nat \<Rightarrow> nat \<Rightarrow> char \<Rightarrow> bool" where
  "byte_in lo hi c \<longleftrightarrow> lo \<le> of_char c \<and> of_char c \<le> hi"

definition replacement_char :: string where
  "replacement_char = [CHR 0xEF, CHR 0xBF, CHR 0xBD]"

text \<open>How many bytes follow a lead byte, and where the first of them must lie.\<close>

definition utf8_lead :: "char \<Rightarrow> (nat \<times> nat \<times> nat) option" where
  "utf8_lead b =
     (let n = (of_char b :: nat) in
      if n < 128 then Some (0, 0, 0)
      else if 194 \<le> n \<and> n \<le> 223 then Some (1, 128, 191)
      else if n = 224 then Some (2, 160, 191)
      else if n = 237 then Some (2, 128, 159)
      else if 225 \<le> n \<and> n \<le> 239 then Some (2, 128, 191)
      else if n = 240 then Some (3, 144, 191)
      else if 241 \<le> n \<and> n \<le> 243 then Some (3, 128, 191)
      else if n = 244 then Some (3, 128, 143)
      else None)"

text \<open>The bytes of a sequence: those that continue it, and the rest.\<close>

fun take_continuation :: "nat \<Rightarrow> nat \<Rightarrow> nat \<Rightarrow> string \<Rightarrow> string \<times> string" where
  "take_continuation 0 lo hi s = ([], s)"
| "take_continuation (Suc n) lo hi [] = ([], [])"
| "take_continuation (Suc n) lo hi (c # s) =
     (if byte_in lo hi c then (let (a, r) = take_continuation n 128 191 s in (c # a, r)) else ([], c # s))"

lemma take_continuation_length: "take_continuation n lo hi s = (a, r) \<Longrightarrow> length r \<le> length s"
  by (induction n lo hi s arbitrary: a r rule: take_continuation.induct) (auto split: if_splits prod.splits)

text \<open>\<open>buffer.toString('utf8')\<close>: every maximal ill-formed part becomes one replacement character.\<close>

function utf8_decode :: "string \<Rightarrow> string" where
  "utf8_decode [] = []"
| "utf8_decode (b # s) =
     (case utf8_lead b of
        None \<Rightarrow> replacement_char @ utf8_decode s
      | Some (n, lo, hi) \<Rightarrow>
          (case take_continuation n lo hi s of
             (a, r) \<Rightarrow> (if length a = n then b # a @ utf8_decode r else replacement_char @ utf8_decode r)))"
  by pat_completeness auto
termination
  by (relation "measure length") (auto dest!: take_continuation_length [OF sym])

text \<open>Well-formed text: what decoding leaves alone.  \<open>Buffer.from(s, 'utf8')\<close> writes an unpaired
  surrogate as the replacement character and is the identity on everything else.\<close>

definition well_formed :: "string \<Rightarrow> bool" where
  "well_formed s \<longleftrightarrow> utf8_decode s = s"

fun utf8_encode :: "string \<Rightarrow> string" where
  "utf8_encode [] = []"
| "utf8_encode (a # s) =
     (if a = CHR 0xED \<and> 2 \<le> length s \<and> 160 \<le> (of_char (hd s) :: nat)
      then replacement_char @ utf8_encode (drop 2 s)
      else a # utf8_encode s)"

lemma take_continuation_spec:
  "take_continuation n lo hi s = (a, r) \<Longrightarrow>
   s = a @ r \<and> length a \<le> n \<and> (\<forall>c \<in> set (tl a). byte_in 128 191 c) \<and> (a \<noteq> [] \<longrightarrow> byte_in lo hi (hd a))"
proof (induction n lo hi s arbitrary: a r rule: take_continuation.induct)
  case (3 n lo hi c s)
  show ?case
  proof (cases "byte_in lo hi c")
    case True
    then obtain a' where a': "take_continuation n 128 191 s = (a', r)" "a = c # a'"
      using 3(2) by (auto split: prod.splits)
    from 3(1) [OF True a'(1)] have "s = a' @ r \<and> length a' \<le> n \<and> (\<forall>c \<in> set (tl a'). byte_in 128 191 c) \<and>
        (a' \<noteq> [] \<longrightarrow> byte_in 128 191 (hd a'))" .
    with a' True show ?thesis by (cases a') auto
  qed (use 3(2) in auto)
qed auto

lemma utf8_encode_continuation:
  "\<forall>c \<in> set a. byte_in 128 191 c \<Longrightarrow> utf8_encode (a @ r) = a @ utf8_encode r"
  by (induction a) (auto simp: byte_in_def)

lemma utf8_lead_facts:
  "utf8_lead b = Some (n, lo, hi) \<Longrightarrow> 0 < n \<Longrightarrow> 128 \<le> lo \<and> hi \<le> 191 \<and> (b = CHR 0xED \<longrightarrow> hi = 159 \<and> n = 2)"
  by (auto simp: utf8_lead_def Let_def split: if_splits)

lemma well_formed_Cons:
  assumes "well_formed (b # s)"
  obtains a r n lo hi where "utf8_lead b = Some (n, lo, hi)" "s = a @ r" "length a = n" "well_formed r"
    "\<forall>c \<in> set a. byte_in 128 191 c" "b = CHR 0xED \<longrightarrow> (\<forall>c t. a = c # t \<longrightarrow> \<not> 160 \<le> (of_char c :: nat)) \<and> a \<noteq> []"
proof -
  have repl: "utf8_lead CHR 0xEF = Some (2, 128, 191)" by (simp add: utf8_lead_def)
  obtain n lo hi where lead: "utf8_lead b = Some (n, lo, hi)"
  proof (cases "utf8_lead b")
    case None
    with assms repl show thesis by (auto simp: well_formed_def replacement_char_def)
  qed (use that in auto)
  obtain a r where t: "take_continuation n lo hi s = (a, r)" by (cases "take_continuation n lo hi s")
  note spec = take_continuation_spec [OF t]
  have len: "length a = n"
  proof (rule ccontr)
    assume "length a \<noteq> n"
    with assms lead t have "b = CHR 0xEF" "s = CHR 0xBF # CHR 0xBD # utf8_decode r"
      by (auto simp: well_formed_def replacement_char_def)
    with repl lead t \<open>length a \<noteq> n\<close> show False by (auto simp: byte_in_def numeral_2_eq_2)
  qed
  have wf: "well_formed r" using assms lead t len spec by (auto simp: well_formed_def)
  have bounds: "\<forall>c \<in> set a. byte_in 128 191 c"
  proof (cases a)
    case (Cons c t')
    then show ?thesis using spec utf8_lead_facts [OF lead] len by (auto simp: byte_in_def)
  qed simp
  have ed: "b = CHR 0xED \<longrightarrow> (\<forall>c t. a = c # t \<longrightarrow> \<not> 160 \<le> (of_char c :: nat)) \<and> a \<noteq> []"
    using lead spec len by (auto simp: utf8_lead_def byte_in_def)
  from that [OF lead _ len wf bounds ed] spec show thesis by blast
qed

lemma utf8_encode_id: "well_formed s \<Longrightarrow> utf8_encode s = s"
proof (induction s rule: length_induct)
  case (1 s)
  show ?case
  proof (cases s)
    case (Cons b t)
    with 1(2) obtain a r n lo hi where t: "t = a @ r" and wf: "well_formed r"
      and a: "\<forall>c \<in> set a. byte_in 128 191 c"
      and ed: "b = CHR 0xED \<longrightarrow> (\<forall>c t. a = c # t \<longrightarrow> \<not> 160 \<le> (of_char c :: nat)) \<and> a \<noteq> []"
      by (auto elim: well_formed_Cons)
    have "utf8_encode t = t" using 1(1) wf Cons t by (simp add: utf8_encode_continuation [OF a])
    then show ?thesis using Cons t ed by (cases a) auto
  qed simp
qed

lemma utf8_decode_id: "well_formed s \<Longrightarrow> utf8_decode s = s"
  by (simp add: well_formed_def)

lemma well_formed_ascii: "list_all (\<lambda>c. (of_char c :: nat) < 128) s \<Longrightarrow> well_formed s"
  unfolding well_formed_def by (induction s) (auto simp: utf8_lead_def)

subsection \<open>Base64\<close>

definition b64_char :: "nat \<Rightarrow> char" where
  "b64_char n =
     (if n < 26 then char_of (65 + n) else if n < 52 then char_of (71 + n) else if n < 62 then char_of (n - 4)
      else if n = 62 then CHR ''+'' else CHR ''/'')"

definition b64url_char :: "nat \<Rightarrow> char" where
  "b64url_char n = (if n = 62 then CHR ''-'' else if n = 63 then CHR ''_'' else b64_char n)"

text \<open>The sextets of a byte string, and the padding that completes the last group.\<close>

fun sextets :: "nat list \<Rightarrow> nat list" where
  "sextets [] = []"
| "sextets [a] = [a div 4, a mod 4 * 16]"
| "sextets [a, b] = [a div 4, a mod 4 * 16 + b div 16, b mod 16 * 4]"
| "sextets (a # b # c # s) = [a div 4, a mod 4 * 16 + b div 16, b mod 16 * 4 + c div 64, c mod 64] @ sextets s"

definition padding :: "nat \<Rightarrow> string" where
  "padding n = (if n mod 3 = 1 then ''=='' else if n mod 3 = 2 then ''='' else [])"

definition b64_encode :: "string \<Rightarrow> string" where
  "b64_encode s = map b64_char (sextets (map of_char s)) @ padding (length s)"

definition b64url_encode :: "string \<Rightarrow> string" where
  "b64url_encode s = map b64url_char (sextets (map of_char s))"

definition b64_value :: "char \<Rightarrow> nat option" where
  "b64_value c =
     (let n = (of_char c :: nat) in
      if is_upper c then Some (n - 65)
      else if is_lower c then Some (n - 71)
      else if is_digit c then Some (n + 4)
      else if c = CHR ''+'' \<or> c = CHR ''-'' then Some 62
      else if c = CHR ''/'' \<or> c = CHR ''_'' then Some 63
      else None)"

fun octets :: "nat list \<Rightarrow> nat list" where
  "octets (w # x # y # z # s) = [w * 4 + x div 16, x mod 16 * 16 + y div 4, y mod 4 * 64 + z] @ octets s"
| "octets [w, x, y] = [w * 4 + x div 16, x mod 16 * 16 + y div 4]"
| "octets [w, x] = [w * 4 + x div 16]"
| "octets _ = []"

definition b64_decode :: "string \<Rightarrow> string" where
  "b64_decode s = map char_of (octets (List.map_filter b64_value (takeWhile (\<lambda>c. c \<noteq> CHR ''='') s)))"

subsection \<open>Reading back what was written\<close>

lemma sextets_bound: "\<forall>b \<in> set bs. b < 256 \<Longrightarrow> \<forall>x \<in> set (sextets bs). x < 64"
  by (induction bs rule: sextets.induct) (auto simp: less_mult_imp_div_less)

lemma octets_sextets: "\<forall>b \<in> set bs. b < 256 \<Longrightarrow> octets (sextets bs) = bs"
proof (induction bs rule: sextets.induct)
  case (4 a b c s)
  have "a div 4 * 4 + (a mod 4 * 16 + b div 16) div 16 = a" "(a mod 4 * 16 + b div 16) mod 16 * 16 + (b mod 16 * 4 + c div 64) div 4 = b"
    "(b mod 16 * 4 + c div 64) mod 4 * 64 + c mod 64 = c"
    using 4(2) by (simp_all add: less_mult_imp_div_less)
  with 4 show ?case by simp
next
  case (3 a b)
  have "a div 4 * 4 + (a mod 4 * 16 + b div 16) div 16 = a" "(a mod 4 * 16 + b div 16) mod 16 * 16 + b mod 16 * 4 div 4 = b"
    using 3 by (simp_all add: less_mult_imp_div_less)
  then show ?case by simp
qed simp_all

lemma b64_digits:
  "n < 64 \<Longrightarrow> b64_value (b64_char n) = Some n \<and> b64_value (b64url_char n) = Some n \<and>
    b64_char n \<noteq> CHR ''='' \<and> b64url_char n \<noteq> CHR ''=''"
  by (auto simp: b64_value_def b64_char_def b64url_char_def is_upper_def is_lower_def is_digit_def char_le_of_char
      char_of_eq_lit Let_def)

lemma char_bytes: "\<forall>b \<in> set (map of_char s). b < (256 :: nat)"
  by simp

lemma map_filter_digits:
  assumes "\<forall>x \<in> set xs. v (f x) = Some x"
  shows "List.map_filter v (map f xs) = xs"
  using assms by (induction xs) (simp_all add: map_filter_simps)

lemma takeWhile_padded: "\<forall>x \<in> set xs. f x \<noteq> CHR ''='' \<Longrightarrow> takeWhile (\<lambda>c. c \<noteq> CHR ''='') (map f xs @ padding n) = map f xs"
  by (induction xs) (auto simp: padding_def)

lemma map_char_of_char: "map (char_of :: nat \<Rightarrow> char) (map of_char s) = s"
  by (simp add: comp_def)

lemma b64_decode_encode [simp]: "b64_decode (b64_encode s) = s"
  using sextets_bound [OF char_bytes, of s] b64_digits
  by (simp add: b64_decode_def b64_encode_def takeWhile_padded map_filter_digits octets_sextets comp_def del: map_map)
     (simp add: comp_def)

lemma b64_decode_url_encode [simp]: "b64_decode (b64url_encode s) = s"
proof -
  have "takeWhile (\<lambda>c. c \<noteq> CHR ''='') (map b64url_char (sextets (map of_char s)) @ padding 0) =
      map b64url_char (sextets (map of_char s))"
    using sextets_bound [OF char_bytes, of s] b64_digits by (intro takeWhile_padded) blast
  then have "takeWhile (\<lambda>c. c \<noteq> CHR ''='') (b64url_encode s) = map b64url_char (sextets (map of_char s))"
    by (simp add: b64url_encode_def padding_def)
  then show ?thesis
    using sextets_bound [OF char_bytes, of s] b64_digits
    by (simp add: b64_decode_def map_filter_digits octets_sextets comp_def)
qed

lemma b64_encode_inject: "b64_encode s = b64_encode t \<longleftrightarrow> s = t"
  by (metis b64_decode_encode)

lemma b64url_encode_inject: "b64url_encode s = b64url_encode t \<longleftrightarrow> s = t"
  by (metis b64_decode_url_encode)

text \<open>The characters of an encoding: no separator the ids are built with.\<close>

lemma b64_char_plain: "n < 64 \<Longrightarrow> b64_char n \<notin> {CHR ''_'', CHR ''.'', CHR ''@'', CHR ''-''}"
  by (auto simp: b64_char_def char_of_eq_lit)

lemma b64url_char_plain: "n < 64 \<Longrightarrow> b64url_char n \<noteq> CHR ''.''"
  by (auto simp: b64url_char_def b64_char_def char_of_eq_lit)

lemma b64_encode_plain: "c \<in> {CHR ''_'', CHR ''.'', CHR ''@'', CHR ''-''} \<Longrightarrow> c \<notin> set (b64_encode s)"
proof -
  assume c: "c \<in> {CHR ''_'', CHR ''.'', CHR ''@'', CHR ''-''}"
  have "c \<noteq> b64_char n" if "n < 64" for n using b64_char_plain [OF that] c by auto
  then have "c \<notin> set (map b64_char (sextets (map of_char s)))"
    using sextets_bound [OF char_bytes, of s] by auto
  then show ?thesis using c by (auto simp: b64_encode_def padding_def)
qed

lemma b64url_encode_plain: "CHR ''.'' \<notin> set (b64url_encode s)"
  using sextets_bound [OF char_bytes, of s] b64url_char_plain by (fastforce simp: b64url_encode_def)

lemma sextets_Nil_iff: "sextets bs = [] \<longleftrightarrow> bs = []"
  by (cases bs rule: sextets.cases) simp_all

lemma b64_encode_Nil_iff: "b64_encode s = [] \<longleftrightarrow> s = []"
  by (auto simp: b64_encode_def sextets_Nil_iff padding_def)

end
