(* ===== verification/Verbs.thy ===== *)
theory Verbs
  imports Prelude
begin

text \<open>
  The verb grammar of \<open>apps/bff/src/rbac/verbs.ts\<close>: the verbs, the retired names and what they
  expand to, the parser of layer-qualified grants, the matcher every check goes through, and the
  narrowing of a grant by an OAuth cap.
\<close>

subsection \<open>The verbs and their aliases\<close>

type_synonym verb = string

definition data_verbs :: "verb list" where
  "data_verbs =
     [''metrics:read'', ''alarms:read'', ''traces:read'', ''logs:read'', ''browser-errors:read'',
      ''ai-conversation:read'', ''events:read'', ''topology:read'', ''profile:read'', ''infra-3d:read'']"

definition setup_verbs :: "verb list" where
  "setup_verbs =
     [''rule:read'', ''rule:write'', ''rule:write:structural'', ''rule:delete'', ''overview:read'',
      ''overview-template:read'', ''overview-template:write'',
      ''layer-template:read'', ''layer-template:write'',
      ''translation:read'', ''translation:write'',
      ''alarm-setup:read'', ''alarm-setup:write'',
      ''infra-3d-setup:read'', ''infra-3d-setup:write'',
      ''setup:read'', ''setup:write'', ''alarm-rule:read'', ''alarm-rule:write'',
      ''live-debug:read'', ''live-debug:write'', ''source-map:write'', ''profile:enable'']"

definition platform_verbs :: "verb list" where
  "platform_verbs =
     [''cluster:read'', ''inspect:read'', ''ttl:read'', ''config:read'', ''ai:read'', ''mcp:read'',
      ''audit:read'', ''user:read'', ''user:write'', ''role:read'', ''role:write'', ''auth:read'', ''admin'']"

text \<open>\<open>Object.values(VERBS)\<close>, in declaration order.\<close>

definition known_verbs :: "verb list" where
  "known_verbs = data_verbs @ setup_verbs @ platform_verbs"

definition reserved_verbs :: "verb list" where
  "reserved_verbs = [''alarm-rule:write'', ''role:write'', ''user:write'']"

definition wildcard_exempt_verbs :: "verb list" where
  "wildcard_exempt_verbs = [''audit:read'']"

definition verb_aliases :: "(string \<times> verb list) list" where
  "verb_aliases =
     [(''dashboard:read'', [''layer-template:read'']),
      (''dashboard:write'', [''layer-template:write'']),
      (''overview:write'',
        [''overview-template:read'', ''overview-template:write'',
         ''translation:read'', ''translation:write'',
         ''alarm-setup:read'', ''alarm-setup:write'',
         ''infra-3d-setup:read'', ''infra-3d-setup:write'',
         ''setup:read'', ''setup:write''])]"

definition retired_area_aliases :: "(string \<times> verb list) list" where
  "retired_area_aliases =
     [(''dashboard:*'', [''layer-template:read'', ''layer-template:write'']),
      (''overview:*'', (case map_of verb_aliases ''overview:write'' of None \<Rightarrow> [] | Some vs \<Rightarrow> vs))]"

definition aliases_for :: "string \<Rightarrow> verb list" where
  "aliases_for grant =
     (case map_of verb_aliases grant of
        Some vs \<Rightarrow> vs
      | None \<Rightarrow> (case map_of retired_area_aliases grant of Some vs \<Rightarrow> vs | None \<Rightarrow> []))"

definition layer_scoped_verbs :: "verb list" where
  "layer_scoped_verbs =
     [''metrics:read'', ''traces:read'', ''logs:read'', ''browser-errors:read'',
      ''ai-conversation:read'', ''events:read'', ''alarms:read'', ''topology:read'',
      ''profile:read'', ''profile:enable'']"

definition layer_page_verbs :: "verb list" where
  "layer_page_verbs =
     [''metrics:read'', ''traces:read'', ''logs:read'', ''topology:read'', ''profile:read'',
      ''browser-errors:read'', ''ai-conversation:read'']"

subsection \<open>Layer-qualified grants\<close>

record layer_qualifier =
  lq_layer :: string
  lq_groups :: "string list option"

record parsed_grant =
  pg_verb :: verb
  pg_qualifier :: "layer_qualifier option"

definition ungrouped_grant :: string where
  "ungrouped_grant = ''-''"

text \<open>The expression \<open>QUALIFIER\<close>: word characters, then nothing or one bracketed list with no
  closing bracket inside.\<close>

definition match_qualifier :: "string \<Rightarrow> (string \<times> string option) option" where
  "match_qualifier s =
     (let w = takeWhile is_word_char s; r = dropWhile is_word_char s in
      if w = [] then None
      else if r = [] then Some (w, None)
      else if hd r = CHR ''['' \<and> 2 \<le> length r \<and> last r = CHR '']'' \<and> CHR '']'' \<notin> set (butlast (tl r))
      then Some (w, Some (butlast (tl r)))
      else None)"

definition parse_grant :: "string \<Rightarrow> parsed_grant option" where
  "parse_grant grant =
     (case index_of CHR ''@'' grant of
        None \<Rightarrow> Some \<lparr>pg_verb = grant, pg_qualifier = None\<rparr>
      | Some at \<Rightarrow>
          (let verb = take at grant in
           case match_qualifier (drop (Suc at) grant) of
             None \<Rightarrow> None
           | Some (w, body) \<Rightarrow>
               if verb = [] then None
               else (let layer = to_upper w in
                 case body of
                   None \<Rightarrow> Some \<lparr>pg_verb = verb, pg_qualifier = Some \<lparr>lq_layer = layer, lq_groups = None\<rparr>\<rparr>
                 | Some b \<Rightarrow>
                     (let groups = map js_trim (split_on CHR '','' b) in
                      if [] \<in> set groups then None
                      else Some \<lparr>pg_verb = verb, pg_qualifier = Some
                             \<lparr>lq_layer = layer,
                              lq_groups = Some (map (\<lambda>g. if g = ungrouped_grant then [] else g) groups)\<rparr>\<rparr>))))"

subsection \<open>The matcher\<close>

definition nth_segment :: "nat \<Rightarrow> string list \<Rightarrow> string option" where
  "nth_segment i xs = (if i < length xs then Some (xs ! i) else None)"

text \<open>\<open>v.split(':', 3)\<close>: at most three segments, missing ones undefined.\<close>

definition segments :: "verb \<Rightarrow> string \<times> string option \<times> string option" where
  "segments v = (let s = take 3 (split_on CHR '':'' v) in (hd s, nth_segment 1 s, nth_segment 2 s))"

definition match_one :: "verb \<Rightarrow> verb \<Rightarrow> bool" where
  "match_one grant required =
     (if CHR ''@'' \<in> set grant then False
      else if grant = ''*'' \<or> grant = ''admin'' then True
      else if grant = required then True
      else if required \<in> set wildcard_exempt_verbs then False
      else if 3 < length (split_on CHR '':'' grant) then False
      else
        (let (grant_area, grant_action, grant_sub) = segments grant;
             (req_area, req_action, req_sub) = segments required in
         if grant_area = req_area \<and> grant_action = Some ''*'' \<and> grant_sub = None then True
         else if grant_area = ''*'' \<and> grant_action = req_action \<and> or_empty grant_sub = or_empty req_sub then True
         else if grant_area = req_area \<and> grant_action = req_action \<and> or_empty grant_sub = or_empty req_sub then True
         else False))"

text \<open>Does a layer grant's verb part cover \<open>required\<close>?\<close>

definition qualified_verb_covers :: "parsed_grant \<Rightarrow> verb \<Rightarrow> bool" where
  "qualified_verb_covers grant required =
     (if pg_qualifier grant = None \<or> pg_verb grant = ''admin'' \<or> required \<notin> set layer_scoped_verbs then False
      else pg_verb grant = ''*'' \<or> match_one (pg_verb grant) required)"

definition has_verb :: "verb list \<Rightarrow> verb \<Rightarrow> bool" where
  "has_verb granted required = list_ex (\<lambda>g. match_one g required) granted"

definition is_grant_recognised :: "string \<Rightarrow> bool" where
  "is_grant_recognised grant =
     (if CHR ''@'' \<in> set grant then
        (case parse_grant grant of
           None \<Rightarrow> False
         | Some p \<Rightarrow>
             if pg_qualifier p = None then False
             else list_ex (qualified_verb_covers p) layer_scoped_verbs)
      else if grant = ''*'' \<or> grant = ''admin'' then True
      else if 0 < length (aliases_for grant) then True
      else list_ex (match_one grant) known_verbs)"

subsection \<open>Roles, caps and layer reach\<close>

type_synonym role_policy = "string \<rightharpoonup> verb list"

definition resolve_verbs_for_roles :: "role_policy \<Rightarrow> string list \<Rightarrow> bool \<Rightarrow> verb list" where
  "resolve_verbs_for_roles policy roles rbac_enabled =
     (if \<not> rbac_enabled then [''*'']
      else dedup (concat (map (\<lambda>r. concat (map (\<lambda>v. v # aliases_for v)
             (case policy r of None \<Rightarrow> [] | Some vs \<Rightarrow> vs))) roles)))"

text \<open>What a grant still confers under a cap of plain verbs.\<close>

definition cap_grant :: "verb \<Rightarrow> verb list option \<Rightarrow> verb list" where
  "cap_grant grant cap =
     (case cap of
        None \<Rightarrow> [grant]
      | Some c \<Rightarrow>
          if CHR ''@'' \<notin> set grant then [grant]
          else (case parse_grant grant of
                  None \<Rightarrow> []
                | Some p \<Rightarrow>
                    if pg_qualifier p = None then []
                    else if has_verb c (pg_verb p) then [grant]
                    else (let at_part = dropWhile (\<lambda>x. x \<noteq> CHR ''@'') grant in
                          map (\<lambda>v. v @ at_part)
                            (filter (\<lambda>v. qualified_verb_covers p v \<and> has_verb c v) layer_scoped_verbs))))"

definition has_verb_on_some_layer :: "verb list \<Rightarrow> verb \<Rightarrow> bool" where
  "has_verb_on_some_layer granted required =
     (has_verb granted required \<or>
      list_ex (\<lambda>g. CHR ''@'' \<in> set g \<and>
                 (case parse_grant g of None \<Rightarrow> False | Some p \<Rightarrow> qualified_verb_covers p required)) granted)"

subsection \<open>Lemmas about the matcher\<close>

lemmas verb_table_defs =
  data_verbs_def setup_verbs_def platform_verbs_def known_verbs_def reserved_verbs_def
  wildcard_exempt_verbs_def layer_scoped_verbs_def layer_page_verbs_def

lemma segments_one: "CHR '':'' \<notin> set a \<Longrightarrow> segments a = (a, None, None)"
  by (simp add: segments_def split_on_no_sep nth_segment_def)

lemma segments_two:
  "CHR '':'' \<notin> set a \<Longrightarrow> CHR '':'' \<notin> set b \<Longrightarrow> segments (a @ CHR '':'' # b) = (a, Some b, None)"
  by (simp add: segments_def split_on_append split_on_no_sep nth_segment_def)

lemma segments_three:
  "CHR '':'' \<notin> set a \<Longrightarrow> CHR '':'' \<notin> set b \<Longrightarrow> CHR '':'' \<notin> set c \<Longrightarrow>
   segments (a @ CHR '':'' # b @ CHR '':'' # c) = (a, Some b, Some c)"
  by (simp add: segments_def split_on_append split_on_no_sep nth_segment_def)

text \<open>Any verb of at most three segments is one of three shapes.\<close>

lemma verb_shapes:
  assumes "length (split_on CHR '':'' g) \<le> 3"
  obtains (one) "CHR '':'' \<notin> set g"
    | (two) a b where "g = a @ CHR '':'' # b" "CHR '':'' \<notin> set a" "CHR '':'' \<notin> set b"
    | (three) a b c where "g = a @ CHR '':'' # b @ CHR '':'' # c"
        "CHR '':'' \<notin> set a" "CHR '':'' \<notin> set b" "CHR '':'' \<notin> set c"
proof -
  let ?s = "split_on CHR '':'' g"
  have g: "join_with [CHR '':''] ?s = g" by (rule join_split_on)
  have parts: "p \<in> set ?s \<Longrightarrow> CHR '':'' \<notin> set p" for p by (rule split_on_parts)
  consider x where "?s = [x]" | x y where "?s = [x, y]" | x y z where "?s = [x, y, z]"
    using assms split_on_not_Nil [of "CHR '':''" g]
    by (cases ?s; cases "tl ?s"; cases "tl (tl ?s)") auto
  then show thesis
  proof cases
    case 1 then show thesis using g parts one by auto
  next
    case 2 then show thesis using g parts by (intro two) auto
  next
    case 3 then show thesis using g parts by (intro three) auto
  qed
qed

lemma split_on_long:
  "CHR '':'' \<notin> set a \<Longrightarrow> CHR '':'' \<notin> set b \<Longrightarrow> length (split_on CHR '':'' (a @ CHR '':'' # b)) = 2"
  "CHR '':'' \<notin> set a \<Longrightarrow> CHR '':'' \<notin> set b \<Longrightarrow> CHR '':'' \<notin> set c \<Longrightarrow>
   length (split_on CHR '':'' (a @ CHR '':'' # b @ CHR '':'' # c)) = 3"
  by (simp_all add: split_on_append split_on_no_sep)

lemmas segment_simps = segments_one segments_two segments_three split_on_long split_on_no_sep

lemma match_one_at: "CHR ''@'' \<in> set g \<Longrightarrow> \<not> match_one g r"
  by (simp add: match_one_def)

lemma match_one_same: "CHR ''@'' \<notin> set r \<Longrightarrow> match_one r r"
  by (simp add: match_one_def)

lemma match_one_star [simp]: "match_one ''*'' r" "match_one ''admin'' r"
  by (simp_all add: match_one_def)

lemma match_one_exempt:
  "match_one g ''audit:read'' \<longleftrightarrow> g \<in> {''*'', ''admin'', ''audit:read''}"
  by (auto simp: match_one_def wildcard_exempt_verbs_def)

text \<open>What the matcher accepts for a two-segment verb: exactly seven spellings, the two with a
  trailing colon among them because a missing sub-action and an empty one are read alike.\<close>

lemma match_one_area_action:
  assumes a: "CHR '':'' \<notin> set a" "CHR ''@'' \<notin> set a"
    and b: "CHR '':'' \<notin> set b" "CHR ''@'' \<notin> set b"
    and ne: "a @ CHR '':'' # b \<notin> set wildcard_exempt_verbs"
  shows "match_one g (a @ CHR '':'' # b) \<longleftrightarrow>
    g \<in> {''*'', ''admin'', a @ CHR '':'' # b, a @ CHR '':'' # b @ '':'', a @ '':*'', CHR ''*'' # CHR '':'' # b,
          CHR ''*'' # CHR '':'' # b @ '':''}" (is "?L \<longleftrightarrow> g \<in> ?S")
proof
  assume m: ?L
  then have at: "CHR ''@'' \<notin> set g" by (auto dest: match_one_at)
  show "g \<in> ?S"
  proof (cases "g = ''*'' \<or> g = ''admin'' \<or> g = a @ CHR '':'' # b")
    case False
    with m at ne have len: "length (split_on CHR '':'' g) \<le> 3"
      by (auto simp: match_one_def split: if_splits)
    from len show ?thesis
    proof (cases rule: verb_shapes)
      case one
      with m at ne False show ?thesis by (auto simp: match_one_def segment_simps a b)
    next
      case (two x y)
      with m at ne False show ?thesis by (auto simp: match_one_def segment_simps a b split: if_splits)
    next
      case (three x y z)
      with m at ne False show ?thesis by (auto simp: match_one_def segment_simps a b split: if_splits)
    qed
  qed auto
next
  have star: "CHR '':'' \<notin> set ''*''" by simp
  assume "g \<in> ?S"
  then consider "g = ''*'' \<or> g = ''admin''" | "g = a @ CHR '':'' # b"
    | "g = a @ CHR '':'' # b @ CHR '':'' # []" | "g = a @ CHR '':'' # ''*''"
    | "g = ''*'' @ CHR '':'' # b" | "g = ''*'' @ CHR '':'' # b @ CHR '':'' # []" by auto
  then show ?L
  proof cases
    case 3
    then show ?thesis using segments_three [of a b "[]"] split_on_long(2) [of a b "[]"] a b ne
      by (simp add: match_one_def segments_two)
  next
    case 4
    then show ?thesis using segments_two [of a "''*''"] split_on_long(1) [of a "''*''"] a b ne
      by (simp add: match_one_def segments_two)
  next
    case 5
    then show ?thesis using segments_two [of "''*''" b] split_on_long(1) [of "''*''" b] a b ne
      by (simp add: match_one_def segments_two [of a b])
  next
    case 6
    then show ?thesis using segments_three [of "''*''" b "[]"] split_on_long(2) [of "''*''" b "[]"] a b ne
      by (simp add: match_one_def segments_two [of a b])
  qed (use a b in \<open>auto simp: match_one_def\<close>)
qed

lemma has_verb_iff: "has_verb gs r \<longleftrightarrow> (\<exists>g \<in> set gs. match_one g r)"
  by (simp add: has_verb_def list_ex_iff)

lemma has_verb_append [simp]: "has_verb (xs @ ys) r \<longleftrightarrow> has_verb xs r \<or> has_verb ys r"
  by (auto simp: has_verb_iff)

lemma has_verb_mono: "has_verb xs r \<Longrightarrow> set xs \<subseteq> set ys \<Longrightarrow> has_verb ys r"
  by (auto simp: has_verb_iff)

lemma layer_scoped_no_at: "v \<in> set layer_scoped_verbs \<Longrightarrow> CHR ''@'' \<notin> set v"
  by (auto simp: layer_scoped_verbs_def)

subsection \<open>Lemmas about layer grants\<close>

text \<open>The written form of a layer grant, and which grants have one.\<close>

definition show_group :: "string \<Rightarrow> string" where
  "show_group g = (if g = [] then ungrouped_grant else g)"

definition show_qualifier :: "layer_qualifier \<Rightarrow> string" where
  "show_qualifier q =
     lq_layer q @ (case lq_groups q of None \<Rightarrow> [] | Some gs \<Rightarrow> ''['' @ join_with '','' (map show_group gs) @ '']'')"

definition show_grant :: "parsed_grant \<Rightarrow> string" where
  "show_grant p = pg_verb p @ (case pg_qualifier p of None \<Rightarrow> [] | Some q \<Rightarrow> ''@'' @ show_qualifier q)"

definition group_ok :: "string \<Rightarrow> bool" where
  "group_ok g \<longleftrightarrow> g \<noteq> ungrouped_grant \<and> CHR '','' \<notin> set g \<and> CHR '']'' \<notin> set g \<and>
     (g \<noteq> [] \<longrightarrow> plain_char (hd g) \<and> plain_char (last g))"

definition qualifier_ok :: "layer_qualifier \<Rightarrow> bool" where
  "qualifier_ok q \<longleftrightarrow> lq_layer q \<noteq> [] \<and> list_all is_word_char (lq_layer q) \<and>
     to_upper (lq_layer q) = lq_layer q \<and>
     (case lq_groups q of None \<Rightarrow> True | Some gs \<Rightarrow> gs \<noteq> [] \<and> list_all group_ok gs)"

definition grant_ok :: "parsed_grant \<Rightarrow> bool" where
  "grant_ok p \<longleftrightarrow> CHR ''@'' \<notin> set (pg_verb p) \<and>
     (case pg_qualifier p of None \<Rightarrow> True | Some q \<Rightarrow> pg_verb p \<noteq> [] \<and> qualifier_ok q)"

lemma show_group_facts:
  assumes "group_ok g"
  shows "js_trim (show_group g) = show_group g" "show_group g \<noteq> []"
    "CHR '','' \<notin> set (show_group g)" "CHR '']'' \<notin> set (show_group g)"
    "(if show_group g = ungrouped_grant then [] else show_group g) = g"
proof -
  show "js_trim (show_group g) = show_group g"
    using assms by (intro js_trim_plain) (auto simp: group_ok_def show_group_def ungrouped_grant_def plain_char_def)
qed (use assms in \<open>auto simp: group_ok_def show_group_def ungrouped_grant_def\<close>)

lemma takeWhile_all_append: "list_all P w \<Longrightarrow> \<not> P c \<Longrightarrow> takeWhile P (w @ c # r) = w \<and> dropWhile P (w @ c # r) = c # r"
  by (induction w) auto

lemma list_all_takeWhile: "list_all P w \<Longrightarrow> takeWhile P w = w \<and> dropWhile P w = []"
  by (induction w) auto

lemma match_qualifier_plain: "w \<noteq> [] \<Longrightarrow> list_all is_word_char w \<Longrightarrow> match_qualifier w = Some (w, None)"
  by (simp add: match_qualifier_def list_all_takeWhile)

lemma not_word_bracket: "\<not> is_word_char CHR ''[''"
  by (simp add: is_word_char_def is_alnum_def is_upper_def is_lower_def is_digit_def char_le_of_char)

lemma match_qualifier_groups:
  "w \<noteq> [] \<Longrightarrow> list_all is_word_char w \<Longrightarrow> CHR '']'' \<notin> set b \<Longrightarrow>
   match_qualifier (w @ ''['' @ b @ '']'') = Some (w, Some b)"
  by (simp add: match_qualifier_def takeWhile_all_append not_word_bracket butlast_append)

lemma split_shown_groups:
  assumes "gs \<noteq> []" "list_all group_ok gs"
  shows "split_on CHR '','' (join_with '','' (map show_group gs)) = map show_group gs"
  using assms by (intro split_on_join) (auto simp: list_all_iff show_group_facts)

lemma parse_grant_at:
  assumes "CHR ''@'' \<notin> set v"
  shows "parse_grant (v @ CHR ''@'' # rest) =
    (case match_qualifier rest of
       None \<Rightarrow> None
     | Some (w, body) \<Rightarrow>
         if v = [] then None
         else (case body of
             None \<Rightarrow> Some \<lparr>pg_verb = v, pg_qualifier = Some \<lparr>lq_layer = to_upper w, lq_groups = None\<rparr>\<rparr>
           | Some b \<Rightarrow>
               if [] \<in> set (map js_trim (split_on CHR '','' b)) then None
               else Some \<lparr>pg_verb = v, pg_qualifier = Some
                      \<lparr>lq_layer = to_upper w,
                       lq_groups = Some (map (\<lambda>g. if g = ungrouped_grant then [] else g) (map js_trim (split_on CHR '','' b)))\<rparr>\<rparr>))"
  using assms by (simp add: parse_grant_def index_of_append Let_def split: option.splits prod.splits)

lemma parse_grant_plain: "CHR ''@'' \<notin> set g \<Longrightarrow> parse_grant g = Some \<lparr>pg_verb = g, pg_qualifier = None\<rparr>"
  by (simp add: parse_grant_def index_of_def)

text \<open>The verb part does not decide what the qualifier is.\<close>

lemma parse_grant_other_verb:
  assumes "CHR ''@'' \<notin> set v" "CHR ''@'' \<notin> set v'" "v' \<noteq> []"
    and "parse_grant (v @ CHR ''@'' # rest) = Some p"
  shows "parse_grant (v' @ CHR ''@'' # rest) = Some (p\<lparr>pg_verb := v'\<rparr>)"
  using assms by (auto simp: parse_grant_at split: option.splits prod.splits if_splits)

lemma parse_grant_qualified:
  assumes "parse_grant g = Some p" "CHR ''@'' \<in> set g"
  obtains rest q where "g = pg_verb p @ CHR ''@'' # rest" "CHR ''@'' \<notin> set (pg_verb p)"
    "pg_verb p \<noteq> []" "pg_qualifier p = Some q"
proof -
  from assms(2) obtain v rest where g: "g = v @ CHR ''@'' # rest" and v: "CHR ''@'' \<notin> set v"
    by (auto dest: split_list_first)
  from assms(1) have "pg_verb p = v" "v \<noteq> []" "\<exists>q. pg_qualifier p = Some q"
    unfolding g parse_grant_at [OF v] by (auto split: option.splits prod.splits if_splits)
  with g v that show thesis by auto
qed

lemma parse_grant_qualifier_iff:
  "parse_grant g = Some p \<Longrightarrow> pg_qualifier p \<noteq> None \<longleftrightarrow> CHR ''@'' \<in> set g"
  by (cases "CHR ''@'' \<in> set g") (auto elim: parse_grant_qualified simp: parse_grant_plain)

text \<open>The layer qualifiers a grant gives on a verb.\<close>

definition grants_on :: "string \<Rightarrow> verb \<Rightarrow> layer_qualifier \<Rightarrow> bool" where
  "grants_on g v q \<longleftrightarrow> (\<exists>p. parse_grant g = Some p \<and> pg_qualifier p = Some q \<and> qualified_verb_covers p v)"

lemma grants_on_scoped: "grants_on g v q \<Longrightarrow> v \<in> set layer_scoped_verbs"
  by (auto simp: grants_on_def qualified_verb_covers_def split: if_splits)

lemma grants_on_at: "grants_on g v q \<Longrightarrow> CHR ''@'' \<in> set g"
  by (auto simp: grants_on_def dest: parse_grant_qualifier_iff)

lemma has_verb_on_some_layer_iff:
  "has_verb_on_some_layer gs v \<longleftrightarrow> has_verb gs v \<or> (\<exists>g \<in> set gs. \<exists>q. grants_on g v q)"
proof -
  have "(CHR ''@'' \<in> set g \<and> (case parse_grant g of None \<Rightarrow> False | Some p \<Rightarrow> qualified_verb_covers p v)) \<longleftrightarrow>
        (\<exists>q. grants_on g v q)" for g
    by (auto simp: grants_on_def qualified_verb_covers_def parse_grant_plain
        dest: parse_grant_qualifier_iff split: option.splits)
  then show ?thesis by (auto simp: has_verb_on_some_layer_def list_ex_iff)
qed

lemma set_resolve:
  "set (resolve_verbs_for_roles policy roles True) =
     {v. \<exists>r \<in> set roles. \<exists>vs. policy r = Some vs \<and> (\<exists>g \<in> set vs. v = g \<or> v \<in> set (aliases_for g))}"
proof -
  have "x \<in> set (case policy r of None \<Rightarrow> [] | Some vs \<Rightarrow> vs) \<longleftrightarrow> (\<exists>vs. policy r = Some vs \<and> x \<in> set vs)" for x r
    by (cases "policy r") auto
  then show ?thesis by (auto simp: resolve_verbs_for_roles_def)
qed

lemma match_qualifier_shape:
  assumes "match_qualifier s = Some (w, body)"
  shows "w \<noteq> [] \<and> list_all is_word_char w \<and>
    (case body of None \<Rightarrow> s = w | Some b \<Rightarrow> s = w @ ''['' @ b @ '']'' \<and> CHR '']'' \<notin> set b)"
proof -
  have s: "s = takeWhile is_word_char s @ dropWhile is_word_char s" by simp
  have w: "w = takeWhile is_word_char s" "w \<noteq> []"
    using assms by (auto simp: match_qualifier_def Let_def split: if_splits)
  then have words: "list_all is_word_char w" by (auto simp: list_all_iff dest: set_takeWhileD)
  show ?thesis
  proof (cases body)
    case None
    with assms have "dropWhile is_word_char s = []"
      by (auto simp: match_qualifier_def Let_def split: if_splits)
    with s w None words show ?thesis by simp
  next
    case (Some b)
    let ?r = "dropWhile is_word_char s"
    from assms Some have r: "hd ?r = CHR ''[''" "2 \<le> length ?r" "last ?r = CHR '']''"
      "CHR '']'' \<notin> set b" "b = butlast (tl ?r)"
      by (auto simp: match_qualifier_def Let_def split: if_splits)
    from r(2) have "?r = hd ?r # butlast (tl ?r) @ [last ?r]"
      by (cases ?r; cases "tl ?r") (auto simp flip: append_butlast_last_id)
    then have "?r = ''['' @ b @ '']''" unfolding r(1,3) r(5)[symmetric] by simp
    with s w words r(4) Some show ?thesis by simp
  qed
qed

subsection \<open>Properties\<close>

text \<open>The audit log is out of every wildcard's reach.  Whatever grants a caller holds,
  \<open>audit:read\<close> is granted exactly by a bare \<open>*\<close>, by \<open>admin\<close> or by naming it; no area or action
  wildcard, sub-action or layer grant confers it.\<close>

theorem audit_read_only_by_name:
  "has_verb gs ''audit:read'' \<longleftrightarrow> ''*'' \<in> set gs \<or> ''admin'' \<in> set gs \<or> ''audit:read'' \<in> set gs"
  by (auto simp: has_verb_iff match_one_exempt)

text \<open>The complete grammar of plain grants for a verb \<open>area:action\<close>: a grant list holds it
  exactly when it holds one of seven spellings (everything, the sentinel, the verb, the area or
  action wildcard, and the two spellings with an empty sub-action).\<close>

theorem plain_grant_grammar:
  assumes "CHR '':'' \<notin> set a" "CHR ''@'' \<notin> set a" "CHR '':'' \<notin> set b" "CHR ''@'' \<notin> set b"
    and "a @ CHR '':'' # b \<notin> set wildcard_exempt_verbs"
  shows "has_verb gs (a @ CHR '':'' # b) \<longleftrightarrow>
    set gs \<inter> {''*'', ''admin'', a @ CHR '':'' # b, a @ CHR '':'' # b @ '':'', a @ '':*'',
               CHR ''*'' # CHR '':'' # b, CHR ''*'' # CHR '':'' # b @ '':''} \<noteq> {}"
  unfolding has_verb_iff match_one_area_action [OF assms] by blast

theorem plain_grant_grammar_witness:
  "has_verb [''rule:*'', ''*:read''] ''metrics:read'' \<and> \<not> has_verb [''rule:*'', ''metrics:*:x''] ''metrics:read''"
  using plain_grant_grammar [of "''metrics''" "''read''" "[''rule:*'', ''*:read'']"]
    plain_grant_grammar [of "''metrics''" "''read''" "[''rule:*'', ''metrics:*:x'']"]
  by (simp add: wildcard_exempt_verbs_def)

text \<open>Writing a layer grant and parsing it gives it back: the layer, the groups in their
  order, and the ungrouped services written \<open>-\<close>.\<close>

theorem parse_show_grant:
  assumes "grant_ok p"
  shows "parse_grant (show_grant p) = Some p"
proof (cases "pg_qualifier p")
  case None
  with assms show ?thesis by (simp add: show_grant_def parse_grant_plain grant_ok_def)
next
  case (Some q)
  with assms have v: "CHR ''@'' \<notin> set (pg_verb p)" "pg_verb p \<noteq> []" and q: "qualifier_ok q"
    by (auto simp: grant_ok_def)
  have p: "p = \<lparr>pg_verb = pg_verb p, pg_qualifier = Some q\<rparr>" using Some by (cases p) simp
  show ?thesis
  proof (cases "lq_groups q")
    case None
    then have "match_qualifier (show_qualifier q) = Some (lq_layer q, None)"
      using q by (simp add: show_qualifier_def qualifier_ok_def match_qualifier_plain)
    then show ?thesis using v q Some None p
      by (simp add: show_grant_def parse_grant_at qualifier_ok_def)
  next
    case (Some gs)
    let ?b = "join_with '','' (map show_group gs)"
    have gs: "gs \<noteq> []" "list_all group_ok gs" using q Some by (auto simp: qualifier_ok_def)
    have "CHR '']'' \<notin> set ?b"
      using set_join_with [of "'',''" "map show_group gs"] gs by (auto simp: list_all_iff show_group_facts)
    then have m: "match_qualifier (show_qualifier q) = Some (lq_layer q, Some ?b)"
      using q Some match_qualifier_groups [of "lq_layer q" ?b] by (simp add: show_qualifier_def qualifier_ok_def)
    have t: "map js_trim (split_on CHR '','' ?b) = map show_group gs"
      using split_shown_groups [OF gs] gs by (simp add: list_all_iff show_group_facts)
    have "[] \<notin> set (map show_group gs)" using gs show_group_facts(2) by (fastforce simp: list_all_iff)
    moreover have "map (\<lambda>g. if g = ungrouped_grant then [] else g) (map show_group gs) = gs"
      using gs by (simp add: list_all_iff show_group_facts map_idI)
    moreover have "show_grant p = pg_verb p @ CHR ''@'' # show_qualifier q"
      using \<open>pg_qualifier p = Some q\<close> by (simp add: show_grant_def)
    ultimately have "parse_grant (show_grant p) = Some \<lparr>pg_verb = pg_verb p,
        pg_qualifier = Some \<lparr>lq_layer = to_upper (lq_layer q), lq_groups = Some gs\<rparr>\<rparr>"
      using v(2) by (simp add: parse_grant_at [OF v(1)] m t del: set_map map_map)
    moreover have "q = \<lparr>lq_layer = to_upper (lq_layer q), lq_groups = Some gs\<rparr>"
      using q Some by (cases q) (simp add: qualifier_ok_def)
    ultimately show ?thesis using p by simp
  qed
qed

theorem parse_show_grant_witness:
  "parse_grant ''metrics:read@GENERAL[payments,-]'' =
     Some \<lparr>pg_verb = ''metrics:read'',
           pg_qualifier = Some \<lparr>lq_layer = ''GENERAL'', lq_groups = Some [''payments'', []]\<rparr>\<rparr>"
proof -
  let ?p = "\<lparr>pg_verb = ''metrics:read'',
     pg_qualifier = Some \<lparr>lq_layer = ''GENERAL'', lq_groups = Some [''payments'', []]\<rparr>\<rparr>"
  have ok: "grant_ok ?p"
    by (simp add: grant_ok_def qualifier_ok_def group_ok_def ungrouped_grant_def is_word_char_def is_alnum_def
        is_upper_def is_lower_def char_le_of_char upper_char_def plain_char_def)
  show ?thesis using parse_show_grant [OF ok]
    by (simp add: show_grant_def show_qualifier_def show_group_def ungrouped_grant_def)
qed

text \<open>A grant that parses with a layer qualifier is exactly \<open>verb@LAYER\<close> or
  \<open>verb@LAYER[group,...]\<close>, with nothing after the bracket, a verb and an upper-case layer that are
  not empty, and at least one group.  A malformed qualifier therefore confers nothing.\<close>

theorem qualified_grant_shape:
  assumes "parse_grant g = Some p" and "pg_qualifier p = Some q"
  shows "pg_verb p \<noteq> [] \<and> CHR ''@'' \<notin> set (pg_verb p) \<and> lq_layer q \<noteq> [] \<and>
    list_all is_word_char (lq_layer q) \<and> to_upper (lq_layer q) = lq_layer q \<and>
    (\<exists>w. to_upper w = lq_layer q \<and>
       (case lq_groups q of
          None \<Rightarrow> g = pg_verb p @ ''@'' @ w
        | Some gs \<Rightarrow> gs \<noteq> [] \<and> ungrouped_grant \<notin> set gs \<and>
            (\<exists>b. g = pg_verb p @ ''@'' @ w @ ''['' @ b @ '']'' \<and> CHR '']'' \<notin> set b \<and> length gs = length (split_on CHR '','' b))))"
proof -
  from assms have "CHR ''@'' \<in> set g" by (auto dest: parse_grant_qualifier_iff)
  with assms(1) obtain rest q' where g: "g = pg_verb p @ CHR ''@'' # rest" and at: "CHR ''@'' \<notin> set (pg_verb p)"
    and v: "pg_verb p \<noteq> []" and q': "pg_qualifier p = Some q'"
    by (rule parse_grant_qualified)
  have "parse_grant (pg_verb p @ CHR ''@'' # rest) = Some p" using assms(1) g by simp
  then obtain w body where m: "match_qualifier rest = Some (w, body)"
    by (auto simp: parse_grant_at [OF at] split: option.splits)
  have "p = \<lparr>pg_verb = pg_verb p, pg_qualifier = Some q\<rparr>" using assms(2) by (cases p) simp
  with \<open>parse_grant (pg_verb p @ CHR ''@'' # rest) = Some p\<close>
  have eq: "parse_grant (pg_verb p @ CHR ''@'' # rest) = Some \<lparr>pg_verb = pg_verb p, pg_qualifier = Some q\<rparr>"
    by simp
  have layer: "lq_layer q = to_upper w"
    and none: "body = None \<Longrightarrow> lq_groups q = None"
    and some: "\<And>b. body = Some b \<Longrightarrow> lq_groups q =
       Some (map (\<lambda>g. if g = ungrouped_grant then [] else g) (map js_trim (split_on CHR '','' b)))"
    using eq by (auto simp: parse_grant_at [OF at] m split: option.splits if_splits)
  note shape = match_qualifier_shape [OF m]
  have "lq_layer q \<noteq> [] \<and> list_all is_word_char (lq_layer q) \<and> to_upper (lq_layer q) = lq_layer q"
    using shape layer by (auto simp: list_all_iff to_upper_def intro: upper_word
        simp flip: to_upper_def) (auto simp: to_upper_def upper_word)
  moreover have "case lq_groups q of
          None \<Rightarrow> g = pg_verb p @ ''@'' @ w
        | Some gs \<Rightarrow> gs \<noteq> [] \<and> ungrouped_grant \<notin> set gs \<and>
            (\<exists>b. g = pg_verb p @ ''@'' @ w @ ''['' @ b @ '']'' \<and> CHR '']'' \<notin> set b \<and> length gs = length (split_on CHR '','' b))"
    using shape none some g by (cases body) (auto simp: ungrouped_grant_def)
  ultimately show ?thesis using at v layer by auto
qed

theorem qualified_grant_shape_witness:
  "lq_layer \<lparr>lq_layer = ''K8S'', lq_groups = None\<rparr> \<noteq> [] \<and> parse_grant ''logs:read@k8s'' \<noteq> None"
proof -
  have p: "parse_grant ''logs:read@k8s'' =
     Some \<lparr>pg_verb = ''logs:read'', pg_qualifier = Some \<lparr>lq_layer = ''K8S'', lq_groups = None\<rparr>\<rparr>"
    by code_simp
  show ?thesis using qualified_grant_shape [OF p] p by simp
qed

text \<open>A layer grant answers no question that has no layer in it.  The plain check ignores every
  grant with a layer, and where only layer grants hold a verb, that verb is one whose data belongs
  to a service.\<close>

theorem plain_check_ignores_layer_grants:
  "has_verb gs v = has_verb (filter (\<lambda>g. CHR ''@'' \<notin> set g) gs) v \<and>
   (has_verb_on_some_layer gs v \<longleftrightarrow>
      has_verb gs v \<or> v \<in> set layer_scoped_verbs \<and> (\<exists>g \<in> set gs. \<exists>q. CHR ''@'' \<in> set g \<and> grants_on g v q))"
proof -
  have "has_verb gs v = has_verb (filter (\<lambda>g. CHR ''@'' \<notin> set g) gs) v"
    by (auto simp: has_verb_iff match_one_at dest: match_one_at)
  then show ?thesis
    by (auto simp: has_verb_on_some_layer_iff dest: grants_on_scoped grants_on_at)
qed

end
