(* ===== verification/Config.thy ===== *)
theory Config
  imports Verbs
begin

text \<open>
  The validated configuration the access decisions read (\<open>apps/bff/src/config/schema.ts\<close>), the
  built-in roles (\<open>apps/bff/src/config/builtin-roles.ts\<close>) and the mapping from a signed-in address to
  roles (\<open>apps/bff/src/user/oidc/identity.ts\<close>).  The records hold the fields those decisions use; a
  configuration object keyed by name is an association list in the order of its entries.
\<close>

subsection \<open>The configuration\<close>

record local_user =
  lu_username :: string
  lu_password_hash :: string
  lu_roles :: "string list"

record break_glass_account =
  bg_username :: string
  bg_password_hash :: string
  bg_roles :: "string list"

datatype provider_kind = OpenId | PlainOAuth

record oidc_provider =
  op_id :: string
  op_display_name :: string
  op_icon :: string
  op_kind :: provider_kind
  op_issuer :: string
  op_authorization_endpoint :: string
  op_token_endpoint :: string
  op_userinfo_endpoint :: string
  op_emails_endpoint :: string
  op_email_path :: string
  op_verified_path :: string
  op_verified_value :: string
  op_name_path :: string
  op_client_id :: string
  op_client_secret :: string
  op_scopes :: "string list"
  op_allowed_domains :: "string list"

record sso_roles =
  default_roles :: "string list"
  role_by_email :: "(string \<times> string list) list"
  role_by_domain :: "(string \<times> string list) list"

record sso_config =
  sso_providers :: "oidc_provider list"
  sso_role_table :: sso_roles

datatype auth_backend = LocalBackend | LdapBackend

record group_mapping =
  gm_group :: string
  gm_role :: string

datatype group_strategy = MemberOf | GroupSearch

record ldap_config =
  ld_bind_dn :: string
  ld_bind_password :: string
  ld_user_base :: string
  ld_user_filter :: string
  ld_display_attr :: string
  ld_strategy :: group_strategy
  ld_group_base :: string
  ld_member_attr :: string
  ld_mappings :: "group_mapping list"

record auth_config =
  auth_backend_kind :: auth_backend
  local_users :: "local_user list"
  auth_ldap :: "ldap_config option"
  break_glass :: "break_glass_account option"
  auth_sso :: sso_config
  tokens_file :: string

datatype builtin_mode = Replace | Keep

record rbac_config =
  rbac_enabled :: bool
  rbac_builtin_mode :: builtin_mode
  rbac_roles :: "(string \<times> verb list) list"
  rbac_landing :: "(string \<times> string) list"

record session_config =
  session_ttl_minutes :: nat
  session_cookie_name :: string
  session_cookie_secure :: bool

record oauth_config =
  oauth_enabled :: bool
  oauth_signing_key :: string
  oauth_issuer :: string
  oauth_access_minutes :: nat
  oauth_refresh_days :: nat
  oauth_metadata_hosts :: "string list"

record horizon_config =
  cfg_auth :: auth_config
  cfg_rbac :: rbac_config
  cfg_session :: session_config
  cfg_oauth :: oauth_config

subsection \<open>The built-in roles\<close>

definition viewer_verbs :: "verb list" where
  "viewer_verbs =
     [''metrics:read'', ''alarms:read'', ''events:read'', ''traces:read'', ''logs:read'', ''browser-errors:read'',
      ''ai-conversation:read'', ''inspect:read'', ''topology:read'', ''profile:read'', ''overview:read'',
      ''infra-3d:read'', ''ai:read'', ''mcp:read'']"

definition maintainer_verbs :: "verb list" where
  "maintainer_verbs =
     [''metrics:read'', ''alarms:read'', ''events:read'', ''traces:read'', ''logs:read'', ''browser-errors:read'',
      ''ai-conversation:read'', ''topology:read'', ''profile:read'', ''overview:read'', ''cluster:read'',
      ''inspect:read'', ''ttl:read'', ''config:read'', ''infra-3d:read'', ''ai:read'', ''mcp:read'']"

definition operator_verbs :: "verb list" where
  "operator_verbs =
     [''metrics:read'', ''alarms:read'', ''events:read'', ''traces:read'', ''logs:read'', ''browser-errors:read'',
      ''ai-conversation:read'', ''source-map:write'', ''topology:read'', ''profile:read'', ''cluster:read'',
      ''inspect:read'', ''ttl:read'', ''config:read'', ''overview:read'',
      ''overview-template:read'', ''overview-template:write'', ''layer-template:read'', ''layer-template:write'',
      ''translation:read'', ''translation:write'', ''setup:read'', ''setup:write'',
      ''alarm-setup:read'', ''alarm-setup:write'', ''infra-3d-setup:read'', ''infra-3d-setup:write'',
      ''alarm-rule:read'', ''infra-3d:read'', ''rule:read'', ''rule:write'', ''rule:write:structural'',
      ''rule:delete'', ''live-debug:read'', ''live-debug:write'', ''profile:enable'', ''ai:read'', ''mcp:read'']"

definition builtin_roles :: "(string \<times> verb list) list" where
  "builtin_roles =
     [(''viewer'', viewer_verbs), (''maintainer'', maintainer_verbs), (''operator'', operator_verbs),
      (''admin'', [''*''])]"

definition builtin_landing_by_role :: "(string \<times> string) list" where
  "builtin_landing_by_role =
     [(''viewer'', ''/''), (''maintainer'', ''/operate/cluster''), (''operator'', ''/''),
      (''admin'', ''/operate/cluster'')]"

text \<open>\<open>{...a, ...b}\<close>: the entries of \<open>b\<close> put over those of \<open>a\<close>.\<close>

definition spread :: "(string \<times> 'a) list \<Rightarrow> (string \<times> 'a) list \<Rightarrow> (string \<times> 'a) list" where
  "spread a b = fold (\<lambda>(k, v) m. map_put k v m) b a"

record raw_rbac =
  raw_enabled :: "bool option"
  raw_builtin_mode :: "builtin_mode option"
  raw_roles :: "(string \<times> verb list) list option"
  raw_landing :: "(string \<times> string) list option"

definition with_default :: "'a \<Rightarrow> 'a option \<Rightarrow> 'a" where
  "with_default d x = (case x of None \<Rightarrow> d | Some y \<Rightarrow> y)"

definition rbac_schema :: "raw_rbac \<Rightarrow> rbac_config" where
  "rbac_schema raw =
     (let rbac = \<lparr>rbac_enabled = with_default True (raw_enabled raw),
                  rbac_builtin_mode = with_default Replace (raw_builtin_mode raw),
                  rbac_roles = with_default builtin_roles (raw_roles raw),
                  rbac_landing = with_default builtin_landing_by_role (raw_landing raw)\<rparr> in
      if rbac_builtin_mode rbac = Keep then
        rbac\<lparr>rbac_roles := spread builtin_roles (rbac_roles rbac),
             rbac_landing := spread builtin_landing_by_role (rbac_landing rbac)\<rparr>
      else rbac)"

definition verbs_of :: "horizon_config \<Rightarrow> string list \<Rightarrow> verb list" where
  "verbs_of cfg roles = resolve_verbs_for_roles (map_of (rbac_roles (cfg_rbac cfg))) roles (rbac_enabled (cfg_rbac cfg))"

subsection \<open>Addresses\<close>

definition find_provider :: "horizon_config \<Rightarrow> string \<Rightarrow> oidc_provider option" where
  "find_provider cfg pid = find (\<lambda>p. op_id p = pid) (sso_providers (auth_sso (cfg_auth cfg)))"

definition oidc_enabled :: "horizon_config \<Rightarrow> bool" where
  "oidc_enabled cfg \<longleftrightarrow> 0 < length (sso_providers (auth_sso (cfg_auth cfg)))"

text \<open>What follows the last \<open>@\<close>, all of an address without one.\<close>

definition domain_of :: "string \<Rightarrow> string" where
  "domain_of email =
     to_lower (drop (case last_index_of CHR ''@'' email of None \<Rightarrow> 0 | Some i \<Rightarrow> Suc i) email)"

definition strip_at :: "string \<Rightarrow> string" where
  "strip_at s = (if s \<noteq> [] \<and> hd s = CHR ''@'' then tl s else s)"

definition domain_allowed :: "oidc_provider \<Rightarrow> string \<Rightarrow> bool" where
  "domain_allowed p email =
     (if length (op_allowed_domains p) = 0 then True
      else (let d = domain_of email in list_ex (\<lambda>a. d = strip_at (to_lower a)) (op_allowed_domains p)))"

definition roles_for_email :: "sso_roles \<Rightarrow> string \<Rightarrow> string list" where
  "roles_for_email tab email =
     (let lower = to_lower email in
      case find (\<lambda>e. to_lower (fst e) = lower) (role_by_email tab) of
        Some (_, r) \<Rightarrow> r
      | None \<Rightarrow>
          (let d = domain_of lower in
           case find (\<lambda>e. d = strip_at (to_lower (fst e))) (role_by_domain tab) of
             Some (_, r) \<Rightarrow> r
           | None \<Rightarrow> default_roles tab))"

definition oidc_admits :: "horizon_config \<Rightarrow> string \<Rightarrow> bool" where
  "oidc_admits cfg username =
     (if CHR ''@'' \<notin> set username then False
      else list_ex (\<lambda>p. domain_allowed p username) (sso_providers (auth_sso (cfg_auth cfg))))"

definition oidc_roles_for :: "horizon_config \<Rightarrow> string \<Rightarrow> string list" where
  "oidc_roles_for cfg username =
     (if \<not> oidc_admits cfg username then []
      else roles_for_email (sso_role_table (auth_sso (cfg_auth cfg))) username)"

subsection \<open>Lemmas\<close>

lemma map_of_spread: "distinct (map fst b) \<Longrightarrow> map_of (spread a b) k = (case map_of b k of Some v \<Rightarrow> Some v | None \<Rightarrow> map_of a k)"
proof (induction b arbitrary: a)
  case (Cons e b)
  obtain k' v where "e = (k', v)" by (cases e)
  then have "map_of (spread a (e # b)) k = (case map_of b k of Some v \<Rightarrow> Some v | None \<Rightarrow> ((map_of a)(k' \<mapsto> v)) k)"
    using Cons.prems Cons.IH [of "map_put k' v a"] by (simp add: spread_def split: option.split)
  moreover have "map_of b k' = None" using Cons.prems \<open>e = (k', v)\<close> by (simp add: map_of_eq_None_iff)
  ultimately show ?case using \<open>e = (k', v)\<close> by (auto split: option.split)
qed (simp add: spread_def)

lemma lower_char_not_upper: "\<not> is_upper (lower_char c)"
proof (cases "is_upper c")
  case True
  then have "(of_char c :: nat) \<le> 90" and "65 \<le> (of_char c :: nat)"
    by (simp_all add: is_upper_def char_le_of_char)
  then show ?thesis using True
    by (simp add: lower_char_def is_upper_def char_le_of_char)
qed (simp add: lower_char_def)

lemma to_lower_idem [simp]: "to_lower (to_lower s) = to_lower s"
  by (simp add: to_lower_def lower_char_not_upper lower_char_def [of "lower_char c" for c])

lemma lower_char_at: "lower_char c = CHR ''@'' \<longleftrightarrow> c = CHR ''@''"
proof (cases "is_upper c")
  case True
  then have "(of_char c :: nat) \<le> 90" and "65 \<le> (of_char c :: nat)"
    by (simp_all add: is_upper_def char_le_of_char)
  then show ?thesis using True by (auto simp: lower_char_def char_of_eq_lit)
qed (auto simp: lower_char_def)

lemma to_lower_at: "CHR ''@'' \<in> set (to_lower d) \<longleftrightarrow> CHR ''@'' \<in> set d"
  unfolding to_lower_def set_map image_iff by (metis lower_char_at)

lemma domain_of_append: "CHR ''@'' \<notin> set d \<Longrightarrow> domain_of (l @ CHR ''@'' # d) = to_lower d"
  by (simp add: domain_of_def last_index_of_append)

lemma domain_of_no_at: "CHR ''@'' \<notin> set (domain_of e)"
proof (cases "CHR ''@'' \<in> set e")
  case True
  then obtain l d where "e = l @ CHR ''@'' # d" "CHR ''@'' \<notin> set d" by (auto dest: split_list_last)
  then show ?thesis by (simp add: domain_of_append to_lower_at)
next
  case False
  then show ?thesis by (simp add: domain_of_def last_index_of_def to_lower_at)
qed

lemma domain_of_lower: "domain_of (to_lower e) = domain_of e"
proof (cases "CHR ''@'' \<in> set e")
  case True
  then obtain l d where e: "e = l @ CHR ''@'' # d" "CHR ''@'' \<notin> set d" by (auto dest: split_list_last)
  have "to_lower (l @ CHR ''@'' # d) = to_lower l @ CHR ''@'' # to_lower d"
    by (simp add: to_lower_def lower_char_at)
  moreover have "CHR ''@'' \<notin> set (to_lower d)" using e(2) by (simp add: to_lower_at)
  ultimately show ?thesis using e by (simp add: domain_of_append)
next
  case False
  moreover have "CHR ''@'' \<notin> set (to_lower e)" using False by (simp add: to_lower_at)
  ultimately show ?thesis by (simp add: domain_of_def last_index_of_def)
qed

lemma verbs_of_mono: "set rs \<subseteq> set rs' \<Longrightarrow> set (verbs_of cfg rs) \<subseteq> set (verbs_of cfg rs')"
  by (cases "rbac_enabled (cfg_rbac cfg)") (auto simp: verbs_of_def set_resolve resolve_verbs_for_roles_def)

lemma roles_for_email_cases:
  "case find (\<lambda>e. to_lower (fst e) = to_lower email) (role_by_email tab) of
     Some e \<Rightarrow> roles_for_email tab email = snd e
   | None \<Rightarrow> (case find (\<lambda>e. domain_of email = strip_at (to_lower (fst e))) (role_by_domain tab) of
       Some e \<Rightarrow> roles_for_email tab email = snd e
     | None \<Rightarrow> roles_for_email tab email = default_roles tab)"
  by (simp add: roles_for_email_def Let_def domain_of_lower split: option.split)

subsection \<open>Properties\<close>

text \<open>The built-in roles are nested and complete.  Whatever verb a route asks for, a maintainer
  holds it where a viewer does, an operator where a maintainer does and an admin always; no built-in
  short of admin holds a reserved verb or the audit log, and every verb they name is one the gate
  recognises.\<close>

theorem builtin_roles_nested:
  "(has_verb viewer_verbs v \<longrightarrow> has_verb maintainer_verbs v) \<and>
   (has_verb maintainer_verbs v \<longrightarrow> has_verb operator_verbs v) \<and>
   has_verb [''*''] v \<and>
   (v \<in> set (reserved_verbs @ wildcard_exempt_verbs) \<longrightarrow> \<not> has_verb operator_verbs v) \<and>
   list_all is_grant_recognised operator_verbs"
proof -
  have "set viewer_verbs \<subseteq> set maintainer_verbs" and "set maintainer_verbs \<subseteq> set operator_verbs"
    by (simp_all add: viewer_verbs_def maintainer_verbs_def operator_verbs_def)
  moreover have "list_all (\<lambda>v. \<not> has_verb operator_verbs v) (reserved_verbs @ wildcard_exempt_verbs)"
    and "list_all (\<lambda>v. v \<in> set known_verbs \<and> CHR ''@'' \<notin> set v) operator_verbs" by code_simp+
  moreover have "is_grant_recognised v" if "v \<in> set known_verbs" "CHR ''@'' \<notin> set v" for v
    using that match_one_same by (auto simp: is_grant_recognised_def list_ex_iff)
  ultimately show ?thesis by (auto simp: list_all_iff has_verb_iff)
qed

theorem builtin_roles_nested_witness:
  "has_verb maintainer_verbs ''metrics:read'' \<and> \<not> has_verb operator_verbs ''role:write''"
proof -
  have "has_verb viewer_verbs ''metrics:read''" by code_simp
  then show ?thesis
    using builtin_roles_nested [of "''metrics:read''"] builtin_roles_nested [of "''role:write''"]
    by (simp add: reserved_verbs_def)
qed

text \<open>What a configured role block does to the built-in roles.  Under \<open>keep\<close> a listed role is
  replaced wholesale and an unlisted built-in stays; under \<open>replace\<close>, the default, a role that is not
  listed does not exist and confers nothing.\<close>

theorem configured_roles_lookup:
  assumes "raw_roles raw = Some rs" and "distinct (map fst rs)"
  shows "map_of (rbac_roles (rbac_schema raw)) r =
    (case map_of rs r of
       Some vs \<Rightarrow> Some vs
     | None \<Rightarrow> if raw_builtin_mode raw = Some Keep then map_of builtin_roles r else None)"
  using assms
  by (auto simp: rbac_schema_def Let_def with_default_def map_of_spread split: option.split)

theorem configured_roles_lookup_witness:
  "map_of (rbac_roles (rbac_schema \<lparr>raw_enabled = None, raw_builtin_mode = None,
     raw_roles = Some [(''sre'', [''rule:*''])], raw_landing = None\<rparr>)) ''admin'' = None"
  by (subst configured_roles_lookup [where rs = "[(''sre'', [''rule:*''])]"]) simp_all

text \<open>Who an address makes you.  Sign-in is decided by the exact domain after the last \<open>@\<close>, case
  aside, so a subdomain of an allowed domain is another domain; a person no provider admits has no
  roles; and for one who is admitted the first entry with their exact address wins, then the first
  entry with their exact domain, then the default.\<close>

theorem sso_address_decides:
  assumes "CHR ''@'' \<notin> set d"
  shows "(oidc_admits cfg (l @ ''@'' @ d) \<longleftrightarrow>
      (\<exists>p \<in> set (sso_providers (auth_sso (cfg_auth cfg))).
         op_allowed_domains p = [] \<or> (\<exists>a \<in> set (op_allowed_domains p). strip_at (to_lower a) = to_lower d))) \<and>
    oidc_roles_for cfg (l @ ''@'' @ d) =
      (if \<not> oidc_admits cfg (l @ ''@'' @ d) then []
       else (let tab = sso_role_table (auth_sso (cfg_auth cfg)) in
         case find (\<lambda>e. to_lower (fst e) = to_lower (l @ ''@'' @ d)) (role_by_email tab) of
           Some e \<Rightarrow> snd e
         | None \<Rightarrow> (case find (\<lambda>e. strip_at (to_lower (fst e)) = to_lower d) (role_by_domain tab) of
             Some e \<Rightarrow> snd e
           | None \<Rightarrow> default_roles tab)))"
proof -
  have dom: "domain_of (l @ ''@'' @ d) = to_lower d" using assms by (simp add: domain_of_append)
  have "oidc_admits cfg (l @ ''@'' @ d) \<longleftrightarrow>
      (\<exists>p \<in> set (sso_providers (auth_sso (cfg_auth cfg))).
         op_allowed_domains p = [] \<or> (\<exists>a \<in> set (op_allowed_domains p). strip_at (to_lower a) = to_lower d))"
    using dom by (auto simp: oidc_admits_def domain_allowed_def list_ex_iff eq_commute [of "to_lower d"])
  then show ?thesis
    using roles_for_email_cases [where email = "l @ ''@'' @ d" and tab = "sso_role_table (auth_sso (cfg_auth cfg))"] dom
    by (auto simp: oidc_roles_for_def Let_def eq_commute [of "to_lower d"] split: option.splits)
qed

text \<open>A configuration with the given roles and providers, for the witnesses.\<close>

definition sample_config :: "rbac_config \<Rightarrow> sso_config \<Rightarrow> horizon_config" where
  "sample_config rbac sso =
     \<lparr>cfg_auth = \<lparr>auth_backend_kind = LocalBackend, local_users = [], auth_ldap = None, break_glass = None,
                  auth_sso = sso, tokens_file = []\<rparr>,
      cfg_rbac = rbac,
      cfg_session = \<lparr>session_ttl_minutes = 60, session_cookie_name = ''horizon_sid'', session_cookie_secure = False\<rparr>,
      cfg_oauth = \<lparr>oauth_enabled = False, oauth_signing_key = [], oauth_issuer = [], oauth_access_minutes = 60,
                   oauth_refresh_days = 30, oauth_metadata_hosts = []\<rparr>\<rparr>"

text \<open>A provider with an issuer and the client's name and secret there, the rest left to the defaults.\<close>

definition issuer_provider :: "string \<Rightarrow> string \<Rightarrow> string list \<Rightarrow> oidc_provider" where
  "issuer_provider pid issuer domains =
     \<lparr>op_id = pid, op_display_name = [], op_icon = [], op_kind = OpenId, op_issuer = issuer,
      op_authorization_endpoint = [], op_token_endpoint = [], op_userinfo_endpoint = [], op_emails_endpoint = [],
      op_email_path = ''email'', op_verified_path = [], op_verified_value = [], op_name_path = ''name'',
      op_client_id = ''horizon'', op_client_secret = ''secret'', op_scopes = [], op_allowed_domains = domains\<rparr>"

definition no_sso :: sso_config where
  "no_sso = \<lparr>sso_providers = [], sso_role_table = \<lparr>default_roles = [''viewer''], role_by_email = [], role_by_domain = []\<rparr>\<rparr>"

definition sample_rbac :: "(string \<times> verb list) list \<Rightarrow> rbac_config" where
  "sample_rbac roles = \<lparr>rbac_enabled = True, rbac_builtin_mode = Replace, rbac_roles = roles, rbac_landing = []\<rparr>"

theorem sso_address_decides_witness:
  "\<not> oidc_admits (sample_config (sample_rbac [])
      (no_sso\<lparr>sso_providers := [issuer_provider ''google'' ''https://accounts.google.com'' [''corp.com'']]\<rparr>)) ''eve@lab.corp.com''"
  using sso_address_decides [of "''lab.corp.com''" "sample_config (sample_rbac [])
      (no_sso\<lparr>sso_providers := [issuer_provider ''google'' ''https://accounts.google.com'' [''corp.com'']]\<rparr>)" "''eve''"]
  by (simp add: issuer_provider_def sample_config_def strip_at_def lower_char_def is_upper_def)

end
