(* ===== verification/Json.thy ===== *)
theory Json
  imports Prelude
begin

text \<open>
  JSON values and the two library functions the code moves them through: \<open>JSON.stringify\<close>, which
  writes an object's members in insertion order, and \<open>JSON.parse\<close>.  The properties a request, a
  stored record or a signed envelope carries are values of this type; an absent (\<open>undefined\<close>)
  member is an absent entry.  Numbers are the integers: every number the modelled code reads or
  writes is one, and a text with a fraction or an exponent is outside the model and does not parse.
\<close>

subsection \<open>Values\<close>

datatype json =
    JNull
  | JBool bool
  | JNum int
  | JStr string
  | JArr "json list"
  | JObj "(string \<times> json) list"

definition get_field :: "string \<Rightarrow> json \<Rightarrow> json option" where
  "get_field k v = (case v of JObj ms \<Rightarrow> map_of ms k | _ \<Rightarrow> None)"

definition as_string :: "json option \<Rightarrow> string option" where
  "as_string v = (case v of Some (JStr s) \<Rightarrow> Some s | _ \<Rightarrow> None)"

lemma get_field_simps [simp]:
  "get_field k (JObj ms) = map_of ms k" "get_field k (JArr vs) = None" "get_field k (JStr s) = None"
  "get_field k JNull = None" "get_field k (JBool b) = None" "get_field k (JNum n) = None"
  by (simp_all add: get_field_def)

lemma as_string_simps [simp]:
  "as_string None = None" "as_string (Some (JStr s)) = Some s" "as_string (Some JNull) = None"
  "as_string (Some (JBool b)) = None" "as_string (Some (JNum n)) = None" "as_string (Some (JArr vs)) = None"
  "as_string (Some (JObj ms)) = None"
  by (simp_all add: as_string_def)

lemma as_string_Some_iff: "as_string v = Some s \<longleftrightarrow> v = Some (JStr s)"
  by (auto simp: as_string_def split: option.splits json.splits)

subsection \<open>Writing\<close>

definition hex_digit :: "nat \<Rightarrow> char" where
  "hex_digit n = (if n < 10 then char_of (48 + n) else char_of (87 + n))"

definition hex4 :: "nat \<Rightarrow> string" where
  "hex4 n = map hex_digit [n div 4096 mod 16, n div 256 mod 16, n div 16 mod 16, n mod 16]"

definition short_escape :: "char \<Rightarrow> char option" where
  "short_escape c =
     map_of [(CHR 0x22, CHR 0x22), (CHR 0x5C, CHR 0x5C), (CHR 0x08, CHR ''b''), (CHR 0x0C, CHR ''f''),
             (CHR 0x0A, CHR ''n''), (CHR 0x0D, CHR ''r''), (CHR 0x09, CHR ''t'')] c"

text \<open>The first byte of an unpaired surrogate, told by the byte after it.\<close>

fun at_surrogate :: "string \<Rightarrow> bool" where
  "at_surrogate (a # b # c # s) \<longleftrightarrow> a = CHR 0xED \<and> 160 \<le> (of_char b :: nat)"
| "at_surrogate _ \<longleftrightarrow> False"

fun escape_string :: "string \<Rightarrow> string" where
  "escape_string [] = []"
| "escape_string (a # s) =
     (case short_escape a of
        Some e \<Rightarrow> CHR 0x5C # e # escape_string s
      | None \<Rightarrow>
          if (of_char a :: nat) < 32 then CHR 0x5C # CHR ''u'' # hex4 (of_char a) @ escape_string s
          else if at_surrogate (a # s) then
            CHR 0x5C # CHR ''u'' #
              hex4 (53248 + (of_char (s ! 0) mod 64) * 64 + of_char (s ! 1) mod 64) @ escape_string (drop 2 s)
          else a # escape_string s)"

definition quote_string :: "string \<Rightarrow> string" where
  "quote_string s = CHR 0x22 # escape_string s @ [CHR 0x22]"

function nat_digits :: "nat \<Rightarrow> string" where
  "nat_digits n = (if n < 10 then [char_of (48 + n)] else nat_digits (n div 10) @ [char_of (48 + n mod 10)])"
  by pat_completeness auto
termination
  by (relation "measure id") auto

declare nat_digits.simps [simp del]

definition show_int :: "int \<Rightarrow> string" where
  "show_int i = (if i < 0 then CHR ''-'' # nat_digits (nat (- i)) else nat_digits (nat i))"

fun json_stringify :: "json \<Rightarrow> string" where
  "json_stringify JNull = ''null''"
| "json_stringify (JBool b) = (if b then ''true'' else ''false'')"
| "json_stringify (JNum n) = show_int n"
| "json_stringify (JStr s) = quote_string s"
| "json_stringify (JArr vs) = ''['' @ join_with '','' (map json_stringify vs) @ '']''"
| "json_stringify (JObj ms) =
     ''{'' @ join_with '','' (map (\<lambda>m. quote_string (fst m) @ '':'' @ json_stringify (snd m)) ms) @ ''}''"

subsection \<open>Reading\<close>

definition json_ws :: "char \<Rightarrow> bool" where
  "json_ws c \<longleftrightarrow> c = CHR 0x20 \<or> c = CHR 0x09 \<or> c = CHR 0x0A \<or> c = CHR 0x0D"

definition skip_ws :: "string \<Rightarrow> string" where
  "skip_ws s = dropWhile json_ws s"

definition hex_value :: "char \<Rightarrow> nat option" where
  "hex_value c =
     (let n = (of_char c :: nat) in
      if 48 \<le> n \<and> n \<le> 57 then Some (n - 48)
      else if 97 \<le> n \<and> n \<le> 102 then Some (n - 87)
      else if 65 \<le> n \<and> n \<le> 70 then Some (n - 55)
      else None)"

fun read_hex4 :: "string \<Rightarrow> (nat \<times> string) option" where
  "read_hex4 (a # b # c # d # s) =
     (case (hex_value a, hex_value b, hex_value c, hex_value d) of
        (Some w, Some x, Some y, Some z) \<Rightarrow> Some (((w * 16 + x) * 16 + y) * 16 + z, s)
      | _ \<Rightarrow> None)"
| "read_hex4 _ = None"

text \<open>The bytes of one code point.\<close>

definition utf8_of :: "nat \<Rightarrow> string" where
  "utf8_of n =
     (if n < 128 then [char_of n]
      else if n < 2048 then [char_of (192 + n div 64), char_of (128 + n mod 64)]
      else if n < 65536 then [char_of (224 + n div 4096), char_of (128 + n div 64 mod 64), char_of (128 + n mod 64)]
      else [char_of (240 + n div 262144), char_of (128 + n div 4096 mod 64),
            char_of (128 + n div 64 mod 64), char_of (128 + n mod 64)])"

text \<open>A \<open>\\u\<close> escape, its pair included when it is the first half of one.\<close>

definition read_unicode :: "string \<Rightarrow> (string \<times> string) option" where
  "read_unicode s =
     (case read_hex4 s of
        None \<Rightarrow> None
      | Some (u, t) \<Rightarrow>
          if 55296 \<le> u \<and> u < 56320 \<and> take 2 t = [CHR 0x5C, CHR ''u''] then
            (case read_hex4 (drop 2 t) of
               Some (v, t') \<Rightarrow>
                 if 56320 \<le> v \<and> v < 57344
                 then Some (utf8_of (65536 + (u - 55296) * 1024 + (v - 56320)), t')
                 else Some (utf8_of u, t)
             | None \<Rightarrow> Some (utf8_of u, t))
          else Some (utf8_of u, t))"

lemma read_hex4_length: "read_hex4 s = Some (u, t) \<Longrightarrow> length t < length s"
  by (cases s rule: read_hex4.cases) (auto split: option.splits)

lemma read_unicode_length: "read_unicode s = Some (b, t) \<Longrightarrow> length t < length s"
  by (auto simp: read_unicode_def split: option.splits if_splits dest!: read_hex4_length)

definition short_unescape :: "char \<Rightarrow> char option" where
  "short_unescape e =
     map_of [(CHR 0x22, CHR 0x22), (CHR 0x5C, CHR 0x5C), (CHR 0x2F, CHR 0x2F), (CHR ''b'', CHR 0x08),
             (CHR ''f'', CHR 0x0C), (CHR ''n'', CHR 0x0A), (CHR ''r'', CHR 0x0D), (CHR ''t'', CHR 0x09)] e"

text \<open>The rest of a string literal, up to its closing quote.\<close>

function read_string :: "string \<Rightarrow> (string \<times> string) option" where
  "read_string [] = None"
| "read_string (c # s) =
     (if c = CHR 0x22 then Some ([], s)
      else if c = CHR 0x5C then
        (case s of
           [] \<Rightarrow> None
         | e # t \<Rightarrow>
             (case short_unescape e of
                Some d \<Rightarrow> map_option (\<lambda>(x, r). (d # x, r)) (read_string t)
              | None \<Rightarrow>
                  if e = CHR ''u'' then
                    (case read_unicode t of
                       None \<Rightarrow> None
                     | Some (b, t') \<Rightarrow> map_option (\<lambda>(x, r). (b @ x, r)) (read_string t'))
                  else None))
      else if (of_char c :: nat) < 32 then None
      else map_option (\<lambda>(x, r). (c # x, r)) (read_string s))"
  by pat_completeness auto
termination
  by (relation "measure length") (auto dest: read_unicode_length)

definition digits_value :: "string \<Rightarrow> nat" where
  "digits_value ds = foldl (\<lambda>n d. n * 10 + (of_char d - 48)) 0 ds"

text \<open>An integer literal: no leading zero, and not the start of a fraction or an exponent.\<close>

definition read_number :: "string \<Rightarrow> (int \<times> string) option" where
  "read_number s =
     (let neg = (take 1 s = ''-''); t = (if neg then drop 1 s else s);
          ds = takeWhile is_digit t; r = dropWhile is_digit t in
      if ds = [] \<or> (hd ds = CHR ''0'' \<and> 1 < length ds) \<or> (r \<noteq> [] \<and> hd r \<in> {CHR ''.'', CHR ''e'', CHR ''E''})
      then None
      else Some (if neg then - int (digits_value ds) else int (digits_value ds), r))"

text \<open>The members of an object, a repeated key keeping its last value in its first place, as
  assignment to a property does.\<close>

definition put_members :: "(string \<times> json) list \<Rightarrow> (string \<times> json) list" where
  "put_members ms = fold (\<lambda>(k, v) acc. map_put k v acc) ms []"

text \<open>The next character when it is the expected one.\<close>

definition eat :: "char \<Rightarrow> string \<Rightarrow> string option" where
  "eat c s = (if s \<noteq> [] \<and> hd s = c then Some (tl s) else None)"

fun read_value :: "nat \<Rightarrow> string \<Rightarrow> (json \<times> string) option"
  and read_elements :: "nat \<Rightarrow> string \<Rightarrow> (json list \<times> string) option"
  and read_members :: "nat \<Rightarrow> string \<Rightarrow> ((string \<times> json) list \<times> string) option" where
  "read_value 0 s = None"
| "read_value (Suc n) s =
     (let u = skip_ws s in
      case eat CHR 0x22 u of
        Some t \<Rightarrow> map_option (\<lambda>(x, r). (JStr x, r)) (read_string t)
      | None \<Rightarrow>
      case eat CHR ''['' u of
        Some t \<Rightarrow>
          (case eat CHR '']'' (skip_ws t) of
             Some r \<Rightarrow> Some (JArr [], r)
           | None \<Rightarrow> map_option (\<lambda>(vs, r). (JArr vs, r)) (read_elements n t))
      | None \<Rightarrow>
      case eat CHR ''{'' u of
        Some t \<Rightarrow>
          (case eat CHR ''}'' (skip_ws t) of
             Some r \<Rightarrow> Some (JObj [], r)
           | None \<Rightarrow> map_option (\<lambda>(ms, r). (JObj (put_members ms), r)) (read_members n t))
      | None \<Rightarrow>
          if prefix ''null'' u then Some (JNull, drop 4 u)
          else if prefix ''true'' u then Some (JBool True, drop 4 u)
          else if prefix ''false'' u then Some (JBool False, drop 5 u)
          else map_option (\<lambda>(i, r). (JNum i, r)) (read_number u))"
| "read_elements 0 s = None"
| "read_elements (Suc n) s =
     (case read_value n s of
        None \<Rightarrow> None
      | Some (v, r) \<Rightarrow>
          (case eat CHR '','' (skip_ws r) of
             Some r' \<Rightarrow> map_option (\<lambda>(vs, z). (v # vs, z)) (read_elements n r')
           | None \<Rightarrow> map_option (\<lambda>z. ([v], z)) (eat CHR '']'' (skip_ws r))))"
| "read_members 0 s = None"
| "read_members (Suc n) s =
     (case eat CHR 0x22 (skip_ws s) of
        None \<Rightarrow> None
      | Some t \<Rightarrow>
     (case read_string t of
        None \<Rightarrow> None
      | Some (k, r) \<Rightarrow>
     (case eat CHR '':'' (skip_ws r) of
        None \<Rightarrow> None
      | Some r' \<Rightarrow>
     (case read_value n r' of
        None \<Rightarrow> None
      | Some (v, q) \<Rightarrow>
          (case eat CHR '','' (skip_ws q) of
             Some q' \<Rightarrow> map_option (\<lambda>(ms, z). ((k, v) # ms, z)) (read_members n q')
           | None \<Rightarrow> map_option (\<lambda>z. ([(k, v)], z)) (eat CHR ''}'' (skip_ws q)))))))"

text \<open>\<open>JSON.parse\<close>: one value and nothing but white space after it; a syntax error is \<^const>\<open>None\<close>.
  Every nested reading consumes a character, so twice the length is fuel enough.\<close>

definition json_parse :: "string \<Rightarrow> json option" where
  "json_parse s =
     (case read_value (2 * length s + 2) s of
        Some (v, r) \<Rightarrow> (if skip_ws r = [] then Some v else None)
      | None \<Rightarrow> None)"

subsection \<open>Enough fuel\<close>

lemma skip_ws_length: "length (skip_ws s) \<le> length s"
  by (simp add: skip_ws_def length_dropWhile_le)

lemma eat_length: "eat c s = Some t \<Longrightarrow> length t < length s"
  by (cases s) (auto simp: eat_def split: if_splits)

lemma eat_skip_length: "eat c (skip_ws s) = Some t \<Longrightarrow> length t < length s"
  using skip_ws_length [of s] by (auto dest: eat_length)

lemma read_string_length: "read_string s = Some (x, r) \<Longrightarrow> length r < length s"
  by (induction s arbitrary: x r rule: read_string.induct)
     (fastforce split: if_splits list.splits option.splits dest: read_unicode_length)+

lemma read_number_length: "read_number s = Some (i, r) \<Longrightarrow> length r < length s"
proof -
  assume a: "read_number s = Some (i, r)"
  define t where "t = (if take 1 s = ''-'' then drop 1 s else s)"
  from a have r: "r = dropWhile is_digit t" and ne: "takeWhile is_digit t \<noteq> []"
    by (auto simp: read_number_def t_def Let_def split: if_splits)
  have "length (takeWhile is_digit t) + length r = length t"
    unfolding r by (metis length_append takeWhile_dropWhile_id)
  moreover have "length t \<le> length s" by (simp add: t_def)
  ultimately show ?thesis using ne by (cases "takeWhile is_digit t") auto
qed

lemma prefix_drop_length: "prefix p s \<Longrightarrow> 0 < length p \<Longrightarrow> length (drop (length p) s) < length s"
  by (auto simp: prefix_def)

lemma read_shorter:
  "read_value n s = Some (v, r) \<Longrightarrow> length r < length s"
  "read_elements n s = Some (vs, r) \<Longrightarrow> length r < length s"
  "read_members n s = Some (ms, r) \<Longrightarrow> length r < length s"
proof (induction n s and n s and n s arbitrary: v r and vs r and ms r
    rule: read_value_read_elements_read_members.induct)
  case (2 n s)
  define u where "u = skip_ws s"
  have le: "length u \<le> length s" unfolding u_def by (rule skip_ws_length)
  note IH = 2(1,2) [OF u_def]
  have "length r < length u"
  proof (cases "eat CHR 0x22 u")
    case (Some t)
    with 2(3) show ?thesis by (fastforce simp: u_def [symmetric] dest: read_string_length eat_length)
  next
    case q: None
    show ?thesis
    proof (cases "eat CHR ''['' u")
      case (Some t)
      with 2(3) q IH(2) [OF q Some] show ?thesis
        by (fastforce simp: u_def [symmetric] dest: eat_length eat_skip_length split: option.splits)
    next
      case b: None
      show ?thesis
      proof (cases "eat CHR ''{'' u")
        case (Some t)
        with 2(3) q b IH(1) [OF q b Some] show ?thesis
          by (fastforce simp: u_def [symmetric] dest: eat_length eat_skip_length split: option.splits)
      next
        case None
        with 2(3) q b show ?thesis
          using prefix_drop_length [of "''null''" u] prefix_drop_length [of "''true''" u]
            prefix_drop_length [of "''false''" u]
          by (auto simp: u_def [symmetric] dest: read_number_length split: if_splits)
      qed
    qed
  qed
  with le show ?case by simp
next
  case (4 n s)
  from 4(3) obtain v q where v: "read_value n s = Some (v, q)" by (auto split: option.splits)
  have q: "length q < length s" by (rule 4(1) [OF v])
  show ?case
  proof (cases "eat CHR '','' (skip_ws q)")
    case None
    with 4(3) v q show ?thesis by (auto dest: eat_skip_length)
  next
    case (Some q')
    with 4(3) v obtain us where "read_elements n q' = Some (us, r)" by auto
    from 4(2) [OF v refl Some this] q eat_skip_length [OF Some] show ?thesis by simp
  qed
next
  case (6 n s)
  from 6(3) obtain t k p p' v q where
    t: "eat CHR 0x22 (skip_ws s) = Some t" and k: "read_string t = Some (k, p)"
    and p: "eat CHR '':'' (skip_ws p) = Some p'" and v: "read_value n p' = Some (v, q)"
    by (auto split: option.splits)
  from 6(1) [OF t k refl p v] have q: "length q < length s"
    using eat_skip_length [OF t] read_string_length [OF k] eat_skip_length [OF p] by simp
  show ?case
  proof (cases "eat CHR '','' (skip_ws q)")
    case None
    with 6(3) t k p v q show ?thesis by (auto dest: eat_skip_length)
  next
    case (Some q')
    with 6(3) t k p v obtain us where "read_members n q' = Some (us, r)" by auto
    from 6(2) [OF t k refl p v refl Some this] q eat_skip_length [OF Some] show ?thesis by simp
  qed
qed simp_all

lemma fuel_step:
  "(2 * length s + 2 \<le> n \<longrightarrow> read_value (Suc n) s = read_value n s) \<and>
   (2 * length s + 3 \<le> n \<longrightarrow> read_elements (Suc n) s = read_elements n s) \<and>
   (2 * length s + 3 \<le> n \<longrightarrow> read_members (Suc n) s = read_members n s)"
proof (induction n arbitrary: s)
  case (Suc n)
  have sub: "read_elements (Suc n) t = read_elements n t" "read_members (Suc n) t = read_members n t"
    if "length t < length s" "2 * length s + 2 \<le> Suc n" for t
    using Suc.IH [of t] that by auto
  have val: "read_value (Suc n) t = read_value n t" if "length t \<le> length s" "2 * length s + 3 \<le> Suc n" for t
    using Suc.IH [of t] that by auto
  have short: "length t < length s" if "eat c (skip_ws s) = Some t" for c t
    using that by (rule eat_skip_length)
  have v: "read_value (Suc (Suc n)) s = read_value (Suc n) s" if f: "2 * length s + 2 \<le> Suc n"
    unfolding read_value.simps(2) [of "Suc n"] read_value.simps(2) [of n] Let_def
    using sub [OF short f] by (auto split: option.split)
  have e: "read_elements (Suc (Suc n)) s = read_elements (Suc n) s" if f: "2 * length s + 3 \<le> Suc n"
  proof -
    have "read_elements (Suc n) r' = read_elements n r'"
      if "read_value n s = Some (v, r)" "eat c (skip_ws r) = Some r'" for v r c r'
      using that f read_shorter(1) [of n s v r] eat_skip_length [of c r r'] by (intro sub) auto
    then show ?thesis
      using val [OF order_refl f] read_elements.simps(2) [of "Suc n" s] read_elements.simps(2) [of n s]
      by (auto split: option.split simp del: read_elements.simps)
  qed
  have m: "read_members (Suc (Suc n)) s = read_members (Suc n) s" if f: "2 * length s + 3 \<le> Suc n"
    unfolding read_members.simps(2) [of "Suc n"] read_members.simps(2) [of n]
  proof (rule option.case_cong [OF refl refl], rule option.case_cong [OF refl refl], clarsimp, goal_cases)
    case (1 t k r)
    from 1 have r: "length r < length s" using eat_skip_length [of "CHR 0x22" s t] read_string_length [of t k r] by auto
    show ?case
    proof (cases "eat CHR '':'' (skip_ws r)")
      case (Some r')
      then have r': "length r' < length s" using r eat_skip_length [OF Some] by simp
      then have "read_value (Suc n) r' = read_value n r'" using val [OF _ f] by simp
      moreover have "read_members (Suc n) q' = read_members n q'"
        if "read_value n r' = Some (v, q)" "eat c (skip_ws q) = Some q'" for v q c q'
        using that r' f read_shorter(1) [of n r' v q] eat_skip_length [of c q q'] by (intro sub) auto
      ultimately show ?thesis using Some by (auto split: option.split)
    qed simp
  qed
  from v e m show ?case by blast
qed simp

text \<open>More fuel than \<^const>\<open>json_parse\<close> gives changes nothing.\<close>

lemma read_value_enough: "2 * length s + 2 \<le> n \<Longrightarrow> read_value n s = read_value (2 * length s + 2) s"
proof (induction n rule: dec_induct)
  case (step n)
  then show ?case using fuel_step [of s n] by simp
qed simp

subsection \<open>What is written reads back\<close>

fun no_surrogate :: "string \<Rightarrow> bool" where
  "no_surrogate [] \<longleftrightarrow> True"
| "no_surrogate (a # s) \<longleftrightarrow> \<not> at_surrogate (a # s) \<and> no_surrogate s"

text \<open>Well-formed values: every string is well-formed Unicode and no object repeats a key.\<close>

fun wf_json :: "json \<Rightarrow> bool" where
  "wf_json (JStr s) \<longleftrightarrow> no_surrogate s"
| "wf_json (JArr vs) \<longleftrightarrow> (\<forall>v \<in> set vs. wf_json v)"
| "wf_json (JObj ms) \<longleftrightarrow> distinct (map fst ms) \<and> (\<forall>m \<in> set ms. no_surrogate (fst m) \<and> wf_json (snd m))"
| "wf_json _ \<longleftrightarrow> True"

lemma hex_value_digit: "n < 16 \<Longrightarrow> hex_value (hex_digit n) = Some n"
  by (auto simp: hex_value_def hex_digit_def Let_def)

lemma read_hex4_of: "n < 65536 \<Longrightarrow> read_hex4 (hex4 n @ t) = Some (n, t)"
proof -
  assume "n < 65536"
  then have "n div 4096 mod 16 = n div 4096" by (simp add: less_mult_imp_div_less)
  moreover have "n div 4096 = n div 256 div 16" "n div 256 = n div 16 div 16" by (simp_all add: div_mult2_eq [symmetric])
  ultimately have "((n div 4096 mod 16 * 16 + n div 256 mod 16) * 16 + n div 16 mod 16) * 16 + n mod 16 = n"
    by (simp add: div_mult_mod_eq)
  then show ?thesis by (simp only: hex4_def list.map append.simps read_hex4.simps) (simp only: hex_value_digit mod_less_divisor zero_less_numeral option.case prod.case)
qed

lemma read_string_escape: "no_surrogate s \<Longrightarrow> read_string (escape_string s @ CHR 0x22 # rest) = Some (s, rest)"
proof (induction s)
  case (Cons a s)
  then have IH: "read_string (escape_string s @ CHR 0x22 # rest) = Some (s, rest)"
    and sur: "\<not> at_surrogate (a # s)" by simp_all
  show ?case
  proof (cases "short_escape a")
    case (Some e)
    then have "short_unescape e = Some a"
      by (auto simp: short_escape_def short_unescape_def split: if_splits)
    with Some IH show ?thesis by simp
  next
    case short: None
    then have a: "a \<noteq> CHR 0x22" "a \<noteq> CHR 0x5C" by (auto simp: short_escape_def)
    show ?thesis
    proof (cases "(of_char a :: nat) < 32")
      case True
      then have "utf8_of (of_char a) = [a]" by (simp add: utf8_of_def)
      moreover have "short_unescape CHR ''u'' = None" by (simp add: short_unescape_def)
      ultimately show ?thesis using short True IH
        by (simp add: read_unicode_def read_hex4_of)
    qed (use short sur a IH in simp)
  qed
qed simp

lemma read_quote_string: "no_surrogate s \<Longrightarrow> quote_string s @ rest = CHR 0x22 # escape_string s @ CHR 0x22 # rest"
  by (simp add: quote_string_def)

lemma nat_digits_digits: "\<forall>d \<in> set (nat_digits n). is_digit d"
proof (induction n rule: nat_digits.induct)
  case (1 n)
  have "is_digit (char_of (48 + m))" if "m < 10" for m :: nat
    using that by (simp add: is_digit_def char_le_of_char)
  then show ?case using 1 by (simp add: nat_digits.simps [of n])
qed

lemma nat_digits_ne: "nat_digits n \<noteq> []"
  by (simp add: nat_digits.simps [of n])

lemma digits_value_snoc: "digits_value (ds @ [d]) = digits_value ds * 10 + (of_char d - 48)"
  by (simp add: digits_value_def)

lemma digits_value_digits: "digits_value (nat_digits n) = n"
proof (induction n rule: nat_digits.induct)
  case (1 n)
  show ?case
  proof (cases "n < 10")
    case True
    then show ?thesis by (simp add: nat_digits.simps [of n] digits_value_def)
  next
    case False
    then show ?thesis using 1 by (simp add: nat_digits.simps [of n] digits_value_snoc)
  qed
qed

lemma nat_digits_lead: "hd (nat_digits n) = CHR ''0'' \<longleftrightarrow> n = 0"
proof (induction n rule: nat_digits.induct)
  case (1 n)
  show ?case
  proof (cases "n < 10")
    case True
    then show ?thesis by (simp add: nat_digits.simps [of n] char_of_eq_lit)
  next
    case False
    then show ?thesis using 1 by (simp add: nat_digits.simps [of n] nat_digits_ne)
  qed
qed

definition number_stop :: "string \<Rightarrow> bool" where
  "number_stop rest \<longleftrightarrow> rest = [] \<or> \<not> is_digit (hd rest) \<and> hd rest \<notin> {CHR ''.'', CHR ''e'', CHR ''E''}"

lemma read_number_digits:
  assumes "number_stop rest"
  shows "takeWhile is_digit (nat_digits n @ rest) = nat_digits n"
    and "dropWhile is_digit (nat_digits n @ rest) = rest"
  using assms nat_digits_digits [of n]
  by (auto simp: number_stop_def takeWhile_append dropWhile_append takeWhile_eq_Nil_iff dropWhile_eq_self_iff)

lemma nat_digits_zero: "nat_digits 0 = ''0''"
  by (simp add: nat_digits.simps [of 0] char_of_eq_lit)

lemma read_show_int:
  assumes "number_stop rest"
  shows "read_number (show_int i @ rest) = Some (i, rest)"
proof -
  have lead: "\<not> (hd (nat_digits n) = CHR ''0'' \<and> 1 < length (nat_digits n))" for n
    using nat_digits_lead [of n] by (auto simp: nat_digits_zero)
  have minus: "hd (nat_digits n) \<noteq> CHR ''-''" for n
    using nat_digits_digits [of n] nat_digits_ne [of n] hd_in_set [of "nat_digits n"] by (fastforce simp: is_digit_def)
  have sign: "take 1 (nat_digits n @ rest) \<noteq> ''-''" for n
    using minus [of n] nat_digits_ne [of n] by (cases "nat_digits n") auto
  have rest: "rest = [] \<or> hd rest \<noteq> CHR ''.'' \<and> hd rest \<noteq> CHR ''e'' \<and> hd rest \<noteq> CHR ''E''"
    using assms by (auto simp: number_stop_def)
  show ?thesis
    unfolding read_number_def Let_def
    using lead sign rest
    by (auto simp: show_int_def nat_digits_ne digits_value_digits read_number_digits [OF assms]
        simp del: take_append dropWhile_eq_Nil_conv)
qed

text \<open>What can stand behind a value in a text: the end, or a separator.\<close>

definition value_stop :: "string \<Rightarrow> bool" where
  "value_stop rest \<longleftrightarrow> rest = [] \<or> hd rest \<in> {CHR '','', CHR '']'', CHR ''}''}"

lemma value_stop_number: "value_stop rest \<Longrightarrow> number_stop rest"
  by (auto simp: value_stop_def number_stop_def is_digit_def)

text \<open>The first character of a written value starts no other form and is no white space.\<close>

lemma show_int_head: "\<exists>c s. show_int i = c # s \<and> (c = CHR ''-'' \<or> is_digit c)"
proof (cases "nat_digits (nat i)")
  case (Cons d ds)
  then show ?thesis using nat_digits_digits [of "nat i"] by (auto simp: show_int_def)
qed (simp add: nat_digits_ne)

lemma eat_Cons: "eat c (d # s) = (if d = c then Some s else None)"
  by (simp add: eat_def)

lemma skip_ws_Cons: "\<not> json_ws c \<Longrightarrow> skip_ws (c # s) = c # s"
  by (simp add: skip_ws_def)

lemma stringify_head: "\<exists>c s. json_stringify v = c # s \<and> \<not> json_ws c \<and> c \<notin> {CHR '','', CHR '']'', CHR ''}''}"
proof (cases v)
  case (JNum i)
  then show ?thesis using show_int_head [of i] by (auto simp: is_digit_def json_ws_def)
qed (auto simp: json_ws_def quote_string_def)

lemma read_elements_stringify:
  assumes each: "\<And>v n rest. v \<in> set vs \<Longrightarrow> value_stop rest \<Longrightarrow> 2 * length (json_stringify v) \<le> n \<Longrightarrow>
      read_value n (json_stringify v @ rest) = Some (v, rest)"
    and ne: "vs \<noteq> []" and fuel: "2 * length (join_with '','' (map json_stringify vs)) + 1 \<le> n"
  shows "read_elements n (join_with '','' (map json_stringify vs) @ CHR '']'' # rest) = Some (vs, rest)"
  using assms
proof (induction vs arbitrary: n)
  case (Cons v vs)
  then obtain m where n: "n = Suc m" by (cases n) auto
  show ?case
  proof (cases "vs = []")
    case True
    have "read_value m (json_stringify v @ CHR '']'' # rest) = Some (v, CHR '']'' # rest)"
      using Cons.prems True n by (intro Cons.prems(1)) (auto simp: value_stop_def)
    then show ?thesis using True n by (simp add: eat_Cons skip_ws_Cons json_ws_def)
  next
    case False
    define js where "js = join_with '','' (map json_stringify vs)"
    have len: "2 * length (json_stringify v) + 2 * length js + 3 \<le> n"
      using Cons.prems(3) False by (simp add: join_with_Cons js_def)
    have "read_value m (json_stringify v @ CHR '','' # js @ CHR '']'' # rest) = Some (v, CHR '','' # js @ CHR '']'' # rest)"
      using len n by (intro Cons.prems(1)) (auto simp: value_stop_def)
    moreover have "read_elements m (js @ CHR '']'' # rest) = Some (vs, rest)"
      unfolding js_def using Cons.prems False len n by (intro Cons.IH) (auto simp: js_def)
    ultimately show ?thesis using False n
      by (simp add: join_with_Cons js_def eat_Cons skip_ws_Cons json_ws_def)
  qed
qed simp

lemma read_members_stringify:
  assumes each: "\<And>k v n rest. (k, v) \<in> set ms \<Longrightarrow> value_stop rest \<Longrightarrow> 2 * length (json_stringify v) \<le> n \<Longrightarrow>
      read_value n (json_stringify v @ rest) = Some (v, rest)"
    and keys: "\<And>k v. (k, v) \<in> set ms \<Longrightarrow> no_surrogate k"
    and ne: "ms \<noteq> []"
    and fuel: "2 * length (join_with '','' (map (\<lambda>m. quote_string (fst m) @ '':'' @ json_stringify (snd m)) ms)) + 1 \<le> n"
  shows "read_members n (join_with '','' (map (\<lambda>m. quote_string (fst m) @ '':'' @ json_stringify (snd m)) ms) @ CHR ''}'' # rest)
         = Some (ms, rest)"
  using assms
proof (induction ms arbitrary: n)
  case (Cons m0 ms)
  obtain k v where m0: "m0 = (k, v)" by (cases m0)
  from Cons.prems obtain m where n: "n = Suc m" by (cases n) auto
  have k: "no_surrogate k" using Cons.prems(2) m0 by auto
  show ?case
  proof (cases "ms = []")
    case True
    have "read_value m (json_stringify v @ CHR ''}'' # rest) = Some (v, CHR ''}'' # rest)"
      using Cons.prems(4) True n m0 by (intro Cons.prems(1)) (auto simp: value_stop_def)
    then show ?thesis using True n m0 k
      by (simp add: quote_string_def read_string_escape eat_Cons skip_ws_Cons json_ws_def)
  next
    case False
    define js where "js = join_with '','' (map (\<lambda>m. quote_string (fst m) @ '':'' @ json_stringify (snd m)) ms)"
    have len: "2 * length (json_stringify v) + 2 * length js + 3 \<le> n"
      using Cons.prems(4) False m0 by (simp add: join_with_Cons js_def)
    have "read_value m (json_stringify v @ CHR '','' # js @ CHR ''}'' # rest) = Some (v, CHR '','' # js @ CHR ''}'' # rest)"
      using len n m0 by (intro Cons.prems(1)) (auto simp: value_stop_def)
    moreover have "read_members m (js @ CHR ''}'' # rest) = Some (ms, rest)"
      unfolding js_def
    proof (rule Cons.IH)
      show "no_surrogate k" if "(k, v) \<in> set ms" for k v using that by (intro Cons.prems(2) [of k v]) simp
    qed (use Cons.prems(1) False len n in \<open>auto simp: js_def\<close>)
    ultimately show ?thesis using False n m0 k
      by (simp add: join_with_Cons js_def quote_string_def read_string_escape eat_Cons skip_ws_Cons json_ws_def)
  qed
qed simp

lemma put_members_distinct: "distinct (map fst ms) \<Longrightarrow> put_members ms = ms"
proof -
  have put: "map_put k v acc = acc @ [(k, v)]" if "k \<notin> fst ` set acc" for k :: string and v :: json and acc
    using that by (induction acc) auto
  have "fold (\<lambda>(k, v) acc. map_put k v acc) ms acc = acc @ ms" if "distinct (map fst (acc @ ms))" for acc
    using that
  proof (induction ms arbitrary: acc)
    case (Cons m ms)
    obtain k v where "m = (k, v)" by (cases m)
    then show ?case using Cons.prems Cons.IH [of "acc @ [(k, v)]"] by (auto simp: put)
  qed simp
  from this [of "[]"] show "distinct (map fst ms) \<Longrightarrow> put_members ms = ms" by (simp add: put_members_def)
qed

lemma read_stringify:
  "wf_json v \<Longrightarrow> value_stop rest \<Longrightarrow> 2 * length (json_stringify v) \<le> n \<Longrightarrow>
   read_value n (json_stringify v @ rest) = Some (v, rest)"
proof (induction v arbitrary: n rest)
  case (JStr s)
  then obtain m where "n = Suc m" by (cases n) (auto simp: quote_string_def)
  with JStr show ?case by (simp add: quote_string_def read_string_escape eat_Cons skip_ws_Cons json_ws_def)
next
  case JNull
  then obtain m where "n = Suc m" by (cases n) auto
  then show ?case by (simp add: eat_Cons skip_ws_Cons json_ws_def)
next
  case (JBool b)
  then obtain m where "n = Suc m" by (cases n) (auto split: if_splits)
  then show ?case by (simp add: eat_Cons skip_ws_Cons json_ws_def)
next
  case (JNum i)
  obtain c s where h: "show_int i = c # s" and c: "c = CHR ''-'' \<or> is_digit c" using show_int_head by blast
  from JNum h obtain m where n: "n = Suc m" by (cases n) auto
  have "\<not> json_ws c" "c \<noteq> CHR 0x22" "c \<noteq> CHR ''[''" "c \<noteq> CHR ''{''" "c \<noteq> CHR ''n''" "c \<noteq> CHR ''t''" "c \<noteq> CHR ''f''"
    using c by (auto simp: json_ws_def is_digit_def)
  then show ?case
    using read_show_int [OF value_stop_number [OF JNum(2)], of i] n h
    by (simp add: eat_Cons skip_ws_Cons)
next
  case (JArr vs)
  from JArr.prems obtain m where n: "n = Suc m" by (cases n) auto
  show ?case
  proof (cases "vs = []")
    case True
    with n show ?thesis by (simp add: eat_Cons skip_ws_Cons json_ws_def)
  next
    case False
    define js where "js = join_with '','' (map json_stringify vs)"
    have "read_elements m (js @ CHR '']'' # rest) = Some (vs, rest)"
      unfolding js_def using JArr False n by (intro read_elements_stringify) auto
    moreover obtain c s where "js = c # s" "\<not> json_ws c" "c \<noteq> CHR '']''"
    proof -
      from False obtain v us where "vs = v # us" by (cases vs) auto
      with stringify_head [of v] show thesis by (cases us) (auto simp: js_def intro: that)
    qed
    ultimately show ?thesis using n by (simp add: js_def eat_Cons skip_ws_Cons json_ws_def)
  qed
next
  case (JObj ms)
  from JObj.prems obtain m where n: "n = Suc m" by (cases n) auto
  show ?case
  proof (cases "ms = []")
    case True
    with n show ?thesis by (simp add: eat_Cons skip_ws_Cons json_ws_def)
  next
    case False
    define js where "js = join_with '','' (map (\<lambda>m. quote_string (fst m) @ '':'' @ json_stringify (snd m)) ms)"
    have each: "read_value n (json_stringify v @ rest) = Some (v, rest)"
      if "(k, v) \<in> set ms" "value_stop rest" "2 * length (json_stringify v) \<le> n" for k v n rest
      using that JObj.prems(1) by (intro JObj.IH [of "(k, v)" v]) auto
    have "read_members m (js @ CHR ''}'' # rest) = Some (ms, rest)"
      unfolding js_def using JObj.prems False n each by (intro read_members_stringify) auto
    moreover obtain s where "js = CHR 0x22 # s"
    proof -
      from False obtain u us where "ms = u # us" by (cases ms) auto
      then show thesis by (cases us) (auto simp: js_def quote_string_def intro: that)
    qed
    moreover have "put_members ms = ms" using JObj.prems(1) by (simp add: put_members_distinct)
    ultimately show ?thesis using n by (simp add: js_def eat_Cons skip_ws_Cons json_ws_def)
  qed
qed

lemma json_roundtrip: "wf_json v \<Longrightarrow> json_parse (json_stringify v) = Some v"
  using read_stringify [of v "[]" "2 * length (json_stringify v) + 2"]
  by (simp add: json_parse_def value_stop_def skip_ws_def)

lemma json_stringify_inject: "wf_json v \<Longrightarrow> wf_json w \<Longrightarrow> json_stringify v = json_stringify w \<longleftrightarrow> v = w"
  using json_roundtrip by (metis option.inject)

end
