(* ===== verification/TemplateNames.thy ===== *)
theory TemplateNames
  imports Json "HOL-Library.Multiset"
begin

text \<open>
  Template rows on OAP: \<open>apps/bff/src/logic/templates/names.ts\<close> (the reserved names, the envelope
  each row's configuration string holds and its canonical serializer) and
  \<open>apps/bff/src/logic/templates/identity.ts\<close> (the rule that a template is the thing it is stored as).
  \<open>Array.sort\<close> on keys is the order on the bytes of their encoding.
\<close>

subsection \<open>Kinds and keys\<close>

datatype template_kind = Overview | Layer | Alert | Theme | TimeDefaults | Infra3d

fun kind_name :: "template_kind \<Rightarrow> string" where
  "kind_name Overview = ''overview''"
| "kind_name Layer = ''layer''"
| "kind_name Alert = ''alert''"
| "kind_name Theme = ''theme''"
| "kind_name TimeDefaults = ''time-defaults''"
| "kind_name Infra3d = ''infra-3d''"

definition template_kinds :: "template_kind list" where
  "template_kinds = [Overview, Layer, Alert, Theme, TimeDefaults, Infra3d]"

definition kind_of :: "string \<Rightarrow> template_kind option" where
  "kind_of s = find (\<lambda>k. kind_name k = s) template_kinds"

text \<open>The kinds in the order of \<^const>\<open>template_kinds\<close>.\<close>

fun kind_rank :: "template_kind \<Rightarrow> nat" where
  "kind_rank Overview = 0"
| "kind_rank Layer = 1"
| "kind_rank Alert = 2"
| "kind_rank Theme = 3"
| "kind_rank TimeDefaults = 4"
| "kind_rank Infra3d = 5"

lemma kind_rank_inject: "kind_rank k = kind_rank k' \<longleftrightarrow> k = k'"
  by (cases k; cases k') simp_all

instantiation template_kind :: linorder
begin

definition less_eq_template_kind :: "template_kind \<Rightarrow> template_kind \<Rightarrow> bool" where
  "less_eq_template_kind k k' \<longleftrightarrow> kind_rank k \<le> kind_rank k'"

definition less_template_kind :: "template_kind \<Rightarrow> template_kind \<Rightarrow> bool" where
  "less_template_kind k k' \<longleftrightarrow> kind_rank k < kind_rank k'"

instance
  by standard (auto simp: less_eq_template_kind_def less_template_kind_def kind_rank_inject [symmetric])

end

definition alert_default_key :: string where "alert_default_key = ''default''"
definition alert_retired_key :: string where "alert_retired_key = ''page-setup''"
definition theme_active_key :: string where "theme_active_key = ''active''"
definition time_defaults_key :: string where "time_defaults_key = ''global''"
definition infra3d_config_key :: string where "infra3d_config_key = ''config''"

definition key_char :: "char \<Rightarrow> bool" where
  "key_char c \<longleftrightarrow> is_alnum c \<or> c = CHR ''_'' \<or> c = CHR ''-''"

definition template_key_ok :: "string \<Rightarrow> bool" where
  "template_key_ok k \<longleftrightarrow> k \<noteq> [] \<and> list_all key_char k"

definition locale_tag_ok :: "string \<Rightarrow> bool" where
  "locale_tag_ok l \<longleftrightarrow>
     l \<noteq> [] \<and> (is_upper (hd l) \<or> is_lower (hd l)) \<and> list_all (\<lambda>c. is_alnum c \<or> c = CHR ''-'') (tl l)"

subsection \<open>Row names\<close>

record parsed_name =
  pn_kind :: template_kind
  pn_key :: string
  pn_locale :: "string option"

text \<open>\<open>SOURCE_NAME_RE\<close> and \<open>OVERLAY_NAME_RE\<close>: no segment of either expression holds a dot, so
  matching is matching the dot-separated parts.\<close>

definition match_source_name :: "string \<Rightarrow> (template_kind \<times> string) option" where
  "match_source_name s =
     (case split_on CHR ''.'' s of
        [h, k, key] \<Rightarrow>
          (case kind_of k of
             Some kind \<Rightarrow> (if h = ''horizon'' \<and> template_key_ok key then Some (kind, key) else None)
           | None \<Rightarrow> None)
      | _ \<Rightarrow> None)"

definition match_overlay_name :: "string \<Rightarrow> (template_kind \<times> string \<times> string) option" where
  "match_overlay_name s =
     (case split_on CHR ''.'' s of
        [h, k, key, i, l] \<Rightarrow>
          (case kind_of k of
             Some kind \<Rightarrow>
               (if h = ''horizon'' \<and> template_key_ok key \<and> i = ''i18n'' \<and> locale_tag_ok l
                then Some (kind, key, l) else None)
           | None \<Rightarrow> None)
      | _ \<Rightarrow> None)"

datatype name_error = InvalidKey template_kind string | InvalidLocale string

definition format_name :: "template_kind \<Rightarrow> string \<Rightarrow> name_error + string" where
  "format_name kind key =
     (if \<not> template_key_ok key then Inl (InvalidKey kind key)
      else Inr (''horizon.'' @ kind_name kind @ ''.'' @ key))"

definition format_overlay_name :: "template_kind \<Rightarrow> string \<Rightarrow> string \<Rightarrow> name_error + string" where
  "format_overlay_name kind key loc =
     (if \<not> template_key_ok key then Inl (InvalidKey kind key)
      else if \<not> locale_tag_ok loc then Inl (InvalidLocale loc)
      else Inr (''horizon.'' @ kind_name kind @ ''.'' @ key @ ''.i18n.'' @ loc))"

definition parse_name :: "string \<Rightarrow> parsed_name option" where
  "parse_name name =
     (case match_overlay_name name of
        Some (kind, key, l) \<Rightarrow> Some \<lparr>pn_kind = kind, pn_key = key, pn_locale = Some l\<rparr>
      | None \<Rightarrow>
          (case match_source_name name of
             None \<Rightarrow> None
           | Some (kind, key) \<Rightarrow> Some \<lparr>pn_kind = kind, pn_key = key, pn_locale = None\<rparr>))"

definition is_overlay_name :: "string \<Rightarrow> bool" where
  "is_overlay_name name \<longleftrightarrow> match_overlay_name name \<noteq> None"

subsection \<open>Envelopes\<close>





text \<open>Object keys in sorted order at every depth; arrays keep theirs.\<close>

fun canonical_stringify :: "json \<Rightarrow> string" where
  "canonical_stringify (JArr vs) = ''['' @ join_with '','' (map canonical_stringify vs) @ '']''"
| "canonical_stringify (JObj ms) =
     ''{'' @ join_with '',''
       (map (\<lambda>(k, s). quote_string k @ '':'' @ s)
         (sort_key fst (map (\<lambda>m. (fst m, canonical_stringify (snd m))) ms))) @ ''}''"
| "canonical_stringify v = json_stringify v"





subsection \<open>Identity\<close>

definition layer_alias :: "(string \<times> string) list" where
  "layer_alias =
     [(''CACHE'', ''VIRTUAL_CACHE''), (''DATABASE'', ''VIRTUAL_DATABASE''), (''MQ'', ''VIRTUAL_MQ''),
      (''GENAI'', ''VIRTUAL_GENAI'')]"

definition canonical_layer_key :: "string \<Rightarrow> string" where
  "canonical_layer_key key =
     (let upper = to_upper key in (case map_of layer_alias upper of Some k \<Rightarrow> k | None \<Rightarrow> upper))"

fun singleton_key :: "template_kind \<Rightarrow> string option" where
  "singleton_key Theme = Some theme_active_key"
| "singleton_key TimeDefaults = Some time_defaults_key"
| "singleton_key Infra3d = Some infra3d_config_key"
| "singleton_key _ = None"

definition canonical_template_key :: "template_kind \<Rightarrow> string \<Rightarrow> string" where
  "canonical_template_key kind key =
     (if kind = Layer then canonical_layer_key key
      else if kind = Alert then (if key = alert_retired_key then alert_default_key else key)
      else (case singleton_key kind of Some k \<Rightarrow> k | None \<Rightarrow> key))"

record identity_issue =
  ii_path :: string
  ii_message :: string

definition identity_field :: "template_kind \<Rightarrow> string \<Rightarrow> string option" where
  "identity_field kind key =
     (if kind = Layer then Some ''key''
      else if kind = Overview then Some ''id''
      else if kind = Alert then (if key = alert_default_key then None else Some ''id'')
      else None)"

definition declared_identity :: "string option \<Rightarrow> json \<Rightarrow> string option" where
  "declared_identity field content =
     (case field of
        None \<Rightarrow> None
      | Some f \<Rightarrow> (case get_field f content of Some (JStr s) \<Rightarrow> if s \<noteq> [] then Some s else None | _ \<Rightarrow> None))"

definition template_identity_issue :: "template_kind \<Rightarrow> string \<Rightarrow> json \<Rightarrow> name_error + identity_issue option" where
  "template_identity_issue kind key content =
     (let canonical = canonical_template_key kind key in
      case format_name kind canonical of
        Inl e \<Rightarrow> Inl e
      | Inr canonical_name \<Rightarrow>
          if key \<noteq> canonical then
            (case format_name kind key of
               Inl e \<Rightarrow> Inl e
             | Inr name \<Rightarrow> Inr (Some \<lparr>ii_path = ''name'',
                 ii_message = CHR 0x22 # name @ [CHR 0x22] @ '' is not a name Horizon reads '' @
                   [CHR 0xE2, CHR 0x80, CHR 0x94] @ '' publish it as '' @
                   CHR 0x22 # canonical_name @ [CHR 0x22]\<rparr>))
          else
            (let field = identity_field kind key in
             case declared_identity field content of
               Some declared \<Rightarrow>
                 if declared \<noteq> canonical then
                   Inr (Some \<lparr>ii_path = (case field of Some f \<Rightarrow> f | None \<Rightarrow> ''id''),
                     ii_message = CHR 0x22 # declared @ [CHR 0x22] @ '' is not the '' @
                       (if kind = Alert then ''alarm page'' else kind_name kind) @
                       '' this is published as ('' @ canonical_name @ '')''\<rparr>)
                 else Inr None
             | None \<Rightarrow> Inr None))"

subsection \<open>Lemmas about names\<close>

lemma kind_of_Some_iff: "kind_of s = Some k \<longleftrightarrow> s = kind_name k"
proof
  assume "kind_of s = Some k"
  then show "s = kind_name k" by (auto simp: kind_of_def find_Some_iff)
next
  assume "s = kind_name k"
  then show "kind_of s = Some k" by (cases k) (simp_all add: kind_of_def template_kinds_def)
qed

lemma kind_of_name [simp]: "kind_of (kind_name k) = Some k"
  by (simp add: kind_of_Some_iff)

lemma kind_name_inject: "kind_name k = kind_name k' \<longleftrightarrow> k = k'"
  by (metis kind_of_name option.inject)

lemma kind_name_no_dot: "CHR ''.'' \<notin> set (kind_name k)"
  by (cases k) simp_all

lemma key_no_dot: "template_key_ok k \<Longrightarrow> CHR ''.'' \<notin> set k"
  by (auto simp: template_key_ok_def list_all_iff key_char_def is_alnum_def is_upper_def is_lower_def is_digit_def)

lemma locale_no_dot: "locale_tag_ok l \<Longrightarrow> CHR ''.'' \<notin> set l"
  by (cases l) (auto simp: locale_tag_ok_def list_all_iff is_alnum_def is_upper_def is_lower_def is_digit_def)

lemma match_source_name_iff:
  "match_source_name s = Some (kind, key) \<longleftrightarrow>
   template_key_ok key \<and> s = ''horizon.'' @ kind_name kind @ ''.'' @ key" (is "?L \<longleftrightarrow> ?R")
proof
  assume L: ?L
  then obtain k where parts: "split_on CHR ''.'' s = [''horizon'', k, key]" and k: "kind_of k = Some kind"
    and key: "template_key_ok key"
    by (auto simp: match_source_name_def split: list.splits option.splits if_splits)
  have "s = join_with ''.'' [''horizon'', k, key]" using join_split_on [of "CHR ''.''" s] parts by simp
  with k key show ?R by (simp add: kind_of_Some_iff)
next
  assume R: ?R
  then have "split_on CHR ''.'' s = [''horizon'', kind_name kind, key]"
    using split_on_append [of "CHR ''.''" "kind_name kind" key]
    by (simp add: kind_name_no_dot key_no_dot split_on_no_sep)
  with R show ?L by (simp add: match_source_name_def)
qed

lemma match_overlay_name_iff:
  "match_overlay_name s = Some (kind, key, l) \<longleftrightarrow>
   template_key_ok key \<and> locale_tag_ok l \<and> s = ''horizon.'' @ kind_name kind @ ''.'' @ key @ ''.i18n.'' @ l"
  (is "?L \<longleftrightarrow> ?R")
proof
  assume L: ?L
  then obtain k where parts: "split_on CHR ''.'' s = [''horizon'', k, key, ''i18n'', l]" and k: "kind_of k = Some kind"
    and key: "template_key_ok key" and l: "locale_tag_ok l"
    by (auto simp: match_overlay_name_def split: list.splits option.splits if_splits)
  have "s = join_with ''.'' [''horizon'', k, key, ''i18n'', l]" using join_split_on [of "CHR ''.''" s] parts by simp
  with k key l show ?R by (simp add: kind_of_Some_iff)
next
  assume R: ?R
  then have "split_on CHR ''.'' s = [''horizon'', kind_name kind, key, ''i18n'', l]"
    using split_on_append [of "CHR ''.''" "kind_name kind" "key @ ''.i18n.'' @ l"]
      split_on_append [of "CHR ''.''" key "''i18n.'' @ l"] split_on_append [of "CHR ''.''" "''i18n''" l]
    by (simp add: kind_name_no_dot key_no_dot locale_no_dot split_on_no_sep)
  with R show ?L by (simp add: match_overlay_name_def)
qed

lemma match_names_disjoint: "match_overlay_name s = Some x \<Longrightarrow> match_source_name s = None"
  by (auto simp: match_overlay_name_def match_source_name_def split: list.splits option.splits if_splits)

lemma parse_name_iff:
  "parse_name n = Some p \<longleftrightarrow>
   (case pn_locale p of
      None \<Rightarrow> match_source_name n = Some (pn_kind p, pn_key p)
    | Some l \<Rightarrow> match_overlay_name n = Some (pn_kind p, pn_key p, l))"
  by (cases p) (auto simp: parse_name_def dest: match_names_disjoint split: option.splits prod.splits)

subsection \<open>Lemmas about the canonical text\<close>

text \<open>The value a canonical text stands for: every object's members in key order.\<close>

fun canon :: "json \<Rightarrow> json" where
  "canon (JArr vs) = JArr (map canon vs)"
| "canon (JObj ms) = JObj (sort_key fst (map (\<lambda>m. (fst m, canon (snd m))) ms))"
| "canon v = v"

lemma insort_key_map: "insort_key fst (k, f v) (map (\<lambda>m. (fst m, f (snd m))) ms) =
  map (\<lambda>m. (fst m, f (snd m))) (insort_key fst (k, v) ms)"
  by (induction ms) auto

lemma sort_key_map: "sort_key fst (map (\<lambda>m. (fst m, f (snd m))) ms) = map (\<lambda>m. (fst m, f (snd m))) (sort_key fst ms)"
  by (induction ms) (auto simp: sort_key_def insort_key_map)

lemma canonical_stringify_canon: "canonical_stringify v = json_stringify (canon v)"
proof (induction v)
  case (JArr vs)
  then have "map canonical_stringify vs = map json_stringify (map canon vs)" by simp
  then show ?case by (simp only: canonical_stringify.simps canon.simps json_stringify.simps)
next
  case (JObj ms)
  have "map (\<lambda>m. (fst m, canonical_stringify (snd m))) ms = map (\<lambda>m. (fst m, json_stringify (snd m))) (map (\<lambda>m. (fst m, canon (snd m))) ms)"
    using JObj by (auto simp: snds.simps)
  then show ?case by (simp only: canonical_stringify.simps canon.simps json_stringify.simps sort_key_map)
    (simp add: comp_def case_prod_beta)
qed simp_all

lemma canon_wf: "wf_json v \<Longrightarrow> wf_json (canon v)"
proof (induction v)
  case (JObj ms)
  have "mset (map fst (sort_key fst (map (\<lambda>m. (fst m, canon (snd m))) ms))) = mset (map fst ms)"
    by (simp add: multiset.map_comp comp_def)
  then have "distinct (map fst (sort_key fst (map (\<lambda>m. (fst m, canon (snd m))) ms)))"
    using JObj.prems mset_eq_imp_distinct_iff by fastforce
  then show ?case using JObj by (fastforce simp: snds.simps)
qed auto


lemma map_of_sort_key: "distinct (map fst ms) \<Longrightarrow> map_of (sort_key fst ms) = map_of ms"
proof -
  assume d: "distinct (map fst ms)"
  have "mset (map fst (sort_key fst ms)) = mset (map fst ms)" by simp
  then have "distinct (map fst (sort_key fst ms))" using d mset_eq_imp_distinct_iff by fastforce
  with d show ?thesis by (intro map_of_inject_set [THEN iffD2]) simp_all
qed

lemma sort_key_unique:
  assumes "distinct (map fst ms)" "distinct (map fst ms')" "map_of ms = map_of ms'"
  shows "sort_key fst ms = sort_key fst (ms' :: ('a::linorder \<times> 'b) list)"
proof -
  have s: "set ms = set ms'" using assms by (simp add: map_of_inject_set)
  have "mset ms = mset ms'"
    using assms(1,2) s by (intro set_eq_iff_mset_eq_distinct [THEN iffD1]) (auto simp: distinct_map)
  moreover have "inj_on fst (set ms')" using assms(2) by (simp add: distinct_map)
  moreover have "inj_on fst (set ms)" using assms(1) by (simp add: distinct_map)
  ultimately show ?thesis by (intro sort_key_inj_key_eq) (auto simp: sorted_sort_key)
qed








lemma canonical_layer_key_idem: "canonical_layer_key (canonical_layer_key key) = canonical_layer_key key"
proof (cases "map_of layer_alias (to_upper key)")
  case (Some k)
  then have "k \<in> set (map snd layer_alias)" by (force dest: map_of_SomeD)
  moreover have "list_all (\<lambda>k. to_upper k = k \<and> map_of layer_alias k = None) (map snd layer_alias)" by code_simp
  ultimately have "to_upper k = k \<and> map_of layer_alias k = None" by (auto simp: list_all_iff)
  with Some show ?thesis by (simp add: canonical_layer_key_def)
qed (simp add: canonical_layer_key_def)

lemma key_upper: "key_char c \<Longrightarrow> key_char (upper_char c)"
  using upper_word [of c] by (auto simp: key_char_def is_word_char_def upper_char_def is_lower_def)

lemma canonical_layer_key_ok: "template_key_ok key \<Longrightarrow> template_key_ok (canonical_layer_key key)"
proof (cases "map_of layer_alias (to_upper key)")
  case None
  moreover assume "template_key_ok key"
  ultimately show ?thesis
    by (simp add: canonical_layer_key_def template_key_ok_def to_upper_def list_all_iff key_upper)
next
  case (Some k)
  then show ?thesis
    by (auto simp: canonical_layer_key_def layer_alias_def template_key_ok_def key_char_def is_alnum_def is_upper_def
        split: if_splits)
qed

lemma singleton_key_ok: "singleton_key kind = Some k \<Longrightarrow> template_key_ok k"
  by (cases kind) (auto simp: theme_active_key_def time_defaults_key_def infra3d_config_key_def template_key_ok_def
      key_char_def is_alnum_def is_lower_def)

lemma canonical_template_key_ok: "template_key_ok key \<Longrightarrow> template_key_ok (canonical_template_key kind key)"
  by (auto simp: canonical_template_key_def canonical_layer_key_ok dest: singleton_key_ok split: option.split)
     (simp add: alert_default_key_def template_key_ok_def key_char_def is_alnum_def is_lower_def)

lemma canonical_template_key_idem:
  "canonical_template_key kind (canonical_template_key kind key) = canonical_template_key kind key"
  by (cases kind) (simp_all add: canonical_template_key_def canonical_layer_key_idem alert_default_key_def
      alert_retired_key_def)

subsection \<open>Properties\<close>

text \<open>The row names are a bijection with what they name: a string parses as a source or overlay
  row of a kind, key and locale exactly when it is what the formatter of that row writes.\<close>

theorem template_name_parse_iff:
  "parse_name n = Some p \<longleftrightarrow>
   (case pn_locale p of
      None \<Rightarrow> format_name (pn_kind p) (pn_key p) = Inr n
    | Some l \<Rightarrow> format_overlay_name (pn_kind p) (pn_key p) l = Inr n)"
  by (auto simp: parse_name_iff match_source_name_iff match_overlay_name_iff format_name_def format_overlay_name_def
      split: option.splits)



text \<open>Two objects have the same canonical text exactly when every key holds the same content in
  both: the order members were written in never makes a template diverge, and nothing else is
  ignored.\<close>

theorem canonical_text_iff_content:
  assumes "wf_json (JObj ms)" "wf_json (JObj ms')"
  shows "canonical_stringify (JObj ms) = canonical_stringify (JObj ms') \<longleftrightarrow>
    (\<forall>k. map_option canonical_stringify (map_of ms k) = map_option canonical_stringify (map_of ms' k))"
    (is "?L \<longleftrightarrow> ?R")
proof -
  define cs where "cs = (\<lambda>ms. map (\<lambda>m. (fst m, canon (snd m))) (ms :: (string \<times> json) list))"
  have get: "map_of (cs us) k = map_option canon (map_of us k)" for us k
    by (induction us) (auto simp: cs_def)
  have keys: "map fst (cs us) = map fst us" for us by (simp add: cs_def)
  have d: "distinct (map fst (cs ms))" "distinct (map fst (cs ms'))" using assms by (simp_all add: keys)
  have "?L \<longleftrightarrow> canon (JObj ms) = canon (JObj ms')"
    using assms by (simp only: canonical_stringify_canon json_stringify_inject canon_wf)
  also have "\<dots> \<longleftrightarrow> sort_key fst (cs ms) = sort_key fst (cs ms')" by (simp add: cs_def)
  also have "\<dots> \<longleftrightarrow> map_of (cs ms) = map_of (cs ms')"
    using sort_key_unique [OF d] map_of_sort_key [OF d(1)] map_of_sort_key [OF d(2)] by metis
  also have "\<dots> \<longleftrightarrow> (\<forall>k. map_option canon (map_of ms k) = map_option canon (map_of ms' k))"
    by (auto simp: get fun_eq_iff)
  also have "\<dots> \<longleftrightarrow> ?R"
  proof (intro all_cong1)
    fix k
    have wf: "wf_json v" if "map_of us k = Some v" "wf_json (JObj us)" for us v
      using that by (auto dest!: map_of_SomeD)
    show "(map_option canon (map_of ms k) = map_option canon (map_of ms' k)) =
          (map_option canonical_stringify (map_of ms k) = map_option canonical_stringify (map_of ms' k))"
      using assms wf [of ms] wf [of ms']
      by (cases "map_of ms k"; cases "map_of ms' k")
         (auto simp: canonical_stringify_canon json_stringify_inject canon_wf)
  qed
  finally show ?thesis .
qed

theorem canonical_text_iff_content_witness:
  "canonical_stringify (JObj [(''x'', JNum 1), (''y'', JBool True)]) =
   canonical_stringify (JObj [(''y'', JBool True), (''x'', JNum 1)])"
  by (rule canonical_text_iff_content [THEN iffD2]) simp_all

text \<open>The key a row is read under is a fixed point.  Canonicalising a valid key gives a valid key
  that canonicalises to itself, the identity check on it never raises, and content that declares
  that identity, or none, is readable there; a row under any other spelling is reported.\<close>

theorem canonical_key_is_readable:
  assumes "template_key_ok key"
  shows "canonical_template_key kind (canonical_template_key kind key) = canonical_template_key kind key \<and>
    template_key_ok (canonical_template_key kind key) \<and>
    (\<exists>issue. template_identity_issue kind key content = Inr issue \<and>
       (issue = None \<longleftrightarrow> canonical_template_key kind key = key \<and>
          declared_identity (identity_field kind key) content \<in> {None, Some key}))"
  using assms canonical_template_key_ok [OF assms, of kind] canonical_template_key_idem [of kind key]
  by (auto simp: template_identity_issue_def Let_def format_name_def split: option.splits)

theorem canonical_key_is_readable_witness:
  "\<exists>issue. template_identity_issue Layer ''cache'' (JObj []) = Inr (Some issue)"
proof -
  have "template_key_ok ''cache''" by (simp add: template_key_ok_def key_char_def is_alnum_def is_lower_def)
  moreover have "canonical_template_key Layer ''cache'' \<noteq> ''cache''" by code_simp
  ultimately show ?thesis using canonical_key_is_readable [of "''cache''" Layer "JObj []"] by auto
qed

end
