(* ===== verification/Policy.thy ===== *)
theory Policy
  imports Config TemplateNames
begin

text \<open>
  Whose verbs a check is about and what an OAuth scope leaves of them:
  \<open>apps/bff/src/rbac/policy.ts\<close>, \<open>apps/bff/src/rbac/template-verbs.ts\<close> and
  \<open>apps/bff/src/oauth/scopes.ts\<close>.
\<close>

subsection \<open>Checking a subject\<close>

record verb_subject =
  subject_roles :: "string list"
  subject_cap :: "verb list option"

definition session_has_verb :: "horizon_config \<Rightarrow> verb_subject \<Rightarrow> verb \<Rightarrow> bool" where
  "session_has_verb cfg subject required =
     (if \<not> has_verb (verbs_of cfg (subject_roles subject)) required then False
      else (case subject_cap subject of Some cap \<Rightarrow> has_verb cap required | None \<Rightarrow> True))"

definition session_has_verb_on_some_layer :: "horizon_config \<Rightarrow> verb_subject \<Rightarrow> verb \<Rightarrow> bool" where
  "session_has_verb_on_some_layer cfg subject required =
     (if \<not> has_verb_on_some_layer (verbs_of cfg (subject_roles subject)) required then False
      else (case subject_cap subject of Some cap \<Rightarrow> has_verb cap required | None \<Rightarrow> True))"

subsection \<open>The verbs of a template row\<close>

record verb_pair =
  vp_read :: verb
  vp_write :: verb

fun verbs_by_kind :: "template_kind \<Rightarrow> verb_pair" where
  "verbs_by_kind Overview = \<lparr>vp_read = ''overview-template:read'', vp_write = ''overview-template:write''\<rparr>"
| "verbs_by_kind Layer = \<lparr>vp_read = ''layer-template:read'', vp_write = ''layer-template:write''\<rparr>"
| "verbs_by_kind Alert = \<lparr>vp_read = ''alarm-setup:read'', vp_write = ''alarm-setup:write''\<rparr>"
| "verbs_by_kind Theme = \<lparr>vp_read = ''setup:read'', vp_write = ''setup:write''\<rparr>"
| "verbs_by_kind TimeDefaults = \<lparr>vp_read = ''setup:read'', vp_write = ''setup:write''\<rparr>"
| "verbs_by_kind Infra3d = \<lparr>vp_read = ''infra-3d-setup:read'', vp_write = ''infra-3d-setup:write''\<rparr>"

definition translation_verbs :: verb_pair where
  "translation_verbs = \<lparr>vp_read = ''translation:read'', vp_write = ''translation:write''\<rparr>"

definition template_verbs :: "template_kind \<Rightarrow> string option \<Rightarrow> verb_pair" where
  "template_verbs kind loc = (if loc = None then verbs_by_kind kind else translation_verbs)"

definition template_read_verbs :: "verb list" where
  "template_read_verbs = dedup (map (\<lambda>k. vp_read (verbs_by_kind k)) template_kinds @ [vp_read translation_verbs])"

definition template_write_verbs :: "verb list" where
  "template_write_verbs = dedup (map (\<lambda>k. vp_write (verbs_by_kind k)) template_kinds @ [vp_write translation_verbs])"

definition translatable_kinds :: "template_kind list" where
  "translatable_kinds = [Overview, Layer]"

definition can_read_template_row ::
  "horizon_config \<Rightarrow> verb_subject option \<Rightarrow> template_kind \<Rightarrow> string option \<Rightarrow> bool" where
  "can_read_template_row cfg session kind loc =
     (case session of
        None \<Rightarrow> False
      | Some s \<Rightarrow>
          if session_has_verb cfg s (vp_read (template_verbs kind loc)) then True
          else loc = None \<and> kind \<in> set translatable_kinds \<and>
               session_has_verb cfg s (vp_read (template_verbs kind (Some ''i18n''))))"

subsection \<open>Scopes\<close>

definition default_scope :: string where "default_scope = ''horizon:read''"

definition scope_verbs :: "(string \<times> verb list) list" where
  "scope_verbs = [(''horizon:read'', [''*:read'']), (''horizon:full'', [''*''])]"

definition known_scopes :: "string list" where
  "known_scopes = map fst scope_verbs"

text \<open>The names every object answers to under \<open>in\<close>: those of \<open>Object.prototype\<close>.\<close>

definition object_prototype_names :: "string list" where
  "object_prototype_names =
     [''constructor'', ''__defineGetter__'', ''__defineSetter__'', ''hasOwnProperty'', ''__lookupGetter__'',
      ''__lookupSetter__'', ''isPrototypeOf'', ''propertyIsEnumerable'', ''toString'', ''valueOf'', ''__proto__'',
      ''toLocaleString'']"

text \<open>\<open>s.split(/\s+/).filter(Boolean)\<close>: the maximal runs without white space.\<close>

function words_from :: "string \<Rightarrow> string \<Rightarrow> string list" where
  "words_from acc s =
     (case strip_one ws_forms s of
        Some t \<Rightarrow> rev acc # words_from [] t
      | None \<Rightarrow> (case s of [] \<Rightarrow> [rev acc] | c # t \<Rightarrow> words_from (c # acc) t))"
  by pat_completeness auto
termination
  by (relation "measure (\<lambda>(acc, s). length s)") (auto dest: strip_one_shorter)

declare words_from.simps [simp del]

definition words :: "string \<Rightarrow> string list" where
  "words s = filter (\<lambda>w. w \<noteq> []) (words_from [] s)"

record scope_request =
  sr_scopes :: "string list"
  sr_unknown :: "string option"

definition parse_scope :: "string option \<Rightarrow> scope_request" where
  "parse_scope raw =
     (let asked = words (or_empty raw) in
      if length asked = 0 then \<lparr>sr_scopes = [default_scope], sr_unknown = None\<rparr>
      else (case find (\<lambda>s. s \<notin> set known_scopes \<and> s \<notin> set object_prototype_names) asked of
              Some bad \<Rightarrow> \<lparr>sr_scopes = [], sr_unknown = Some bad\<rparr>
            | None \<Rightarrow> \<lparr>sr_scopes = asked, sr_unknown = None\<rparr>))"

text \<open>A name the object only inherits contributes no verb here; in the code it contributes a value
  that is no string, and the first check that reaches it raises.\<close>

definition verb_cap_for :: "string list \<Rightarrow> verb list option" where
  "verb_cap_for scopes =
     (if ''horizon:full'' \<in> set scopes then None
      else Some (dedup (concat (map (\<lambda>s. case map_of scope_verbs s of Some vs \<Rightarrow> vs | None \<Rightarrow> []) scopes))))"

definition granted_verbs :: "horizon_config \<Rightarrow> string list \<Rightarrow> string list \<Rightarrow> verb list" where
  "granted_verbs cfg roles scopes =
     (let owned = verbs_of cfg roles in
      if \<not> rbac_enabled (cfg_rbac cfg) \<or> ''*'' \<in> set owned \<or> ''admin'' \<in> set owned then
        (if ''horizon:full'' \<in> set scopes then [''*''] else [''*:read''])
      else (case verb_cap_for scopes of
              None \<Rightarrow> sort (dedup owned)
            | Some cap \<Rightarrow>
                sort (dedup (concat (map (\<lambda>v. if CHR ''@'' \<in> set v then cap_grant v (Some cap)
                                              else if has_verb cap v then [v] else []) owned)))))"

subsection \<open>Lemmas\<close>

lemma session_has_verb_iff:
  "session_has_verb cfg s v \<longleftrightarrow>
   has_verb (verbs_of cfg (subject_roles s)) v \<and> (\<forall>cap. subject_cap s = Some cap \<longrightarrow> has_verb cap v)"
  by (auto simp: session_has_verb_def split: option.splits)

lemma session_has_verb_on_some_layer_iff:
  "session_has_verb_on_some_layer cfg s v \<longleftrightarrow>
   has_verb_on_some_layer (verbs_of cfg (subject_roles s)) v \<and> (\<forall>cap. subject_cap s = Some cap \<longrightarrow> has_verb cap v)"
  by (auto simp: session_has_verb_on_some_layer_def split: option.splits)

lemma verb_cap_read:
  "set scopes \<subseteq> set known_scopes \<Longrightarrow> scopes \<noteq> [] \<Longrightarrow> ''horizon:full'' \<notin> set scopes \<Longrightarrow>
   verb_cap_for scopes = Some [''*:read'']"
proof -
  assume a: "set scopes \<subseteq> set known_scopes" "scopes \<noteq> []" "''horizon:full'' \<notin> set scopes"
  then have "\<forall>s \<in> set scopes. s = ''horizon:read''" by (auto simp: known_scopes_def scope_verbs_def)
  then have "scopes = replicate (length scopes) ''horizon:read''" by (simp add: replicate_length_same)
  then obtain n where n: "scopes = replicate (Suc n) ''horizon:read''" using a(2) by (cases scopes) auto
  have "fold (\<lambda>x acc. if x \<in> set acc then acc else x # acc) (replicate m x) [x] = [x]" for m and x :: verb
    by (induction m) simp_all
  then have "dedup (replicate (Suc n) ''*:read'') = [''*:read'']" by (simp add: dedup_def)
  moreover have "concat (map (\<lambda>s. case map_of scope_verbs s of Some vs \<Rightarrow> vs | None \<Rightarrow> []) scopes) = replicate (Suc n) ''*:read''"
    unfolding n by (induction n) (simp_all add: scope_verbs_def)
  ultimately show ?thesis using a(3) by (simp add: verb_cap_for_def)
qed

lemma has_verb_star_read:
  "has_verb [''*:read''] v \<longleftrightarrow>
   v = ''*:read'' \<or> v \<notin> set wildcard_exempt_verbs \<and> fst (snd (segments v)) = Some ''read'' \<and> or_empty (snd (snd (segments v))) = []"
proof -
  have "segments ''*:read'' = (''*'', Some ''read'', None)" "length (split_on CHR '':'' ''*:read'') = 2"
    by (simp_all add: segments_def nth_segment_def)
  then show ?thesis by (auto simp: has_verb_iff match_one_def case_prod_beta)
qed

text \<open>What a verb the read scope covers covers in turn, the read scope covers.\<close>

lemma star_read_trans:
  assumes "has_verb [''*:read''] g" and "match_one g v"
  shows "has_verb [''*:read''] v"
proof -
  have s: "segments ''*:read'' = (''*'', Some ''read'', None)" by (simp add: segments_def nth_segment_def)
  then have seg: "fst (snd (segments g)) = Some ''read''" "or_empty (snd (snd (segments g))) = []"
    using assms(1) by (auto simp: has_verb_star_read)
  have "g \<noteq> ''*''" "g \<noteq> ''admin''" using seg by (auto simp: segments_def nth_segment_def)
  with assms show ?thesis using seg
    by (auto simp: has_verb_star_read match_one_def case_prod_beta split: if_splits)
qed

lemma layer_scoped_apart: "w \<in> set layer_scoped_verbs \<Longrightarrow> v \<in> set layer_scoped_verbs \<Longrightarrow> match_one w v \<longleftrightarrow> w = v"
proof -
  have "list_all (\<lambda>w. list_all (\<lambda>v. match_one w v = (w = v)) layer_scoped_verbs) layer_scoped_verbs" by code_simp
  then show "w \<in> set layer_scoped_verbs \<Longrightarrow> v \<in> set layer_scoped_verbs \<Longrightarrow> match_one w v \<longleftrightarrow> w = v"
    by (auto simp: list_all_iff)
qed

lemma layer_scoped_plain: "w \<in> set layer_scoped_verbs \<Longrightarrow> CHR ''@'' \<notin> set w \<and> w \<noteq> [] \<and> w \<noteq> ''*'' \<and> w \<noteq> ''admin''"
proof -
  have "list_all (\<lambda>w. CHR ''@'' \<notin> set w \<and> w \<noteq> [] \<and> w \<noteq> ''*'' \<and> w \<noteq> ''admin'') layer_scoped_verbs" by code_simp
  then show "w \<in> set layer_scoped_verbs \<Longrightarrow> ?thesis" by (auto simp: list_all_iff)
qed

lemma covers_one_verb:
  "w \<in> set layer_scoped_verbs \<Longrightarrow> qualified_verb_covers (p\<lparr>pg_verb := w\<rparr>) v \<longleftrightarrow>
   pg_qualifier p \<noteq> None \<and> v \<in> set layer_scoped_verbs \<and> w = v"
  by (auto simp: qualified_verb_covers_def layer_scoped_apart dest: layer_scoped_plain)

lemma narrowed_grant_reach:
  assumes p: "parse_grant g = Some p" and at: "CHR ''@'' \<in> set g" and no: "\<not> has_verb c (pg_verb p)"
  shows "(\<exists>g' \<in> set (cap_grant g (Some c)). grants_on g' v q) \<longleftrightarrow> grants_on g v q \<and> has_verb c v"
proof -
  obtain rest q0 where g: "g = pg_verb p @ CHR ''@'' # rest" and v: "CHR ''@'' \<notin> set (pg_verb p)" "pg_verb p \<noteq> []"
    and q0: "pg_qualifier p = Some q0"
    by (rule parse_grant_qualified [OF p at])
  have parse: "parse_grant (pg_verb p @ CHR ''@'' # rest) = Some p" using p g by simp
  have part: "dropWhile (\<lambda>x. x \<noteq> CHR ''@'') g = CHR ''@'' # rest"
    by (subst g) (use v(1) in \<open>auto simp: dropWhile_append\<close>)
  have "grants_on (w @ CHR ''@'' # rest) v q \<longleftrightarrow> q = q0 \<and> w = v" if "w \<in> set layer_scoped_verbs" for w
    using parse_grant_other_verb [OF v(1) _ _ parse, of w] layer_scoped_plain [OF that] q0 that
    by (auto simp: grants_on_def covers_one_verb)
  then have "(\<exists>g' \<in> set (cap_grant g (Some c)). grants_on g' v q) \<longleftrightarrow>
      v \<in> set layer_scoped_verbs \<and> q = q0 \<and> qualified_verb_covers p v \<and> has_verb c v"
    using p at q0 no part by (auto simp: cap_grant_def)
  also have "\<dots> \<longleftrightarrow> grants_on g v q \<and> has_verb c v"
    using p q0 by (auto simp: grants_on_def qualified_verb_covers_def split: if_splits)
  finally show ?thesis .
qed

lemma cap_grant_reach:
  "(\<exists>g' \<in> set (cap_grant g (Some [''*:read''])). grants_on g' v q) \<longleftrightarrow> grants_on g v q \<and> has_verb [''*:read''] v"
proof (cases "CHR ''@'' \<in> set g")
  case False
  then show ?thesis by (auto simp: cap_grant_def dest: grants_on_at)
next
  case at: True
  show ?thesis
  proof (cases "parse_grant g")
    case None
    then show ?thesis using at by (simp add: cap_grant_def grants_on_def)
  next
    case (Some p)
    show ?thesis
    proof (cases "has_verb [''*:read''] (pg_verb p)")
      case True
      have "pg_qualifier p \<noteq> None" using parse_grant_qualifier_iff [OF Some] at by simp
      moreover have "has_verb [''*:read''] v" if "grants_on g v q"
      proof -
        have "\<not> has_verb [''*:read''] ''*''" by code_simp
        with True that Some show ?thesis
          by (auto simp: grants_on_def qualified_verb_covers_def intro: star_read_trans split: if_splits)
      qed
      ultimately show ?thesis using Some at True by (auto simp: cap_grant_def)
    qed (use narrowed_grant_reach [OF Some at] in blast)
  qed
qed

lemma set_granted_verbs:
  "rbac_enabled (cfg_rbac cfg) \<Longrightarrow> ''*'' \<notin> set (verbs_of cfg roles) \<Longrightarrow> ''admin'' \<notin> set (verbs_of cfg roles) \<Longrightarrow>
   set (granted_verbs cfg roles scopes) =
     (case verb_cap_for scopes of
        None \<Rightarrow> set (verbs_of cfg roles)
      | Some cap \<Rightarrow> {v. \<exists>g \<in> set (verbs_of cfg roles).
          if CHR ''@'' \<in> set g then v \<in> set (cap_grant g (Some cap)) else v = g \<and> has_verb cap g})"
  by (auto simp: granted_verbs_def Let_def split: option.splits if_splits)

lemma cap_grant_at: "g' \<in> set (cap_grant g cap) \<Longrightarrow> CHR ''@'' \<in> set g \<Longrightarrow> CHR ''@'' \<in> set g'"
proof -
  assume a: "g' \<in> set (cap_grant g cap)" "CHR ''@'' \<in> set g"
  then obtain w rest where "g = w @ CHR ''@'' # rest" "CHR ''@'' \<notin> set w" by (auto dest: split_list_first)
  then have "dropWhile (\<lambda>x. x \<noteq> CHR ''@'') g = CHR ''@'' # rest" by (auto simp: dropWhile_append)
  with a show ?thesis by (auto simp: cap_grant_def Let_def split: option.splits if_splits)
qed

lemma capped_list_reach:
  assumes shown: "has_verb_on_some_layer gs v"
    and gs: "set gs = {v. \<exists>g \<in> owned.
          if CHR ''@'' \<in> set g then v \<in> set (cap_grant g (Some [''*:read''])) else v = g \<and> has_verb [''*:read''] g}"
    and owned: "owned = set own"
  shows "has_verb_on_some_layer own v \<and> has_verb [''*:read''] v"
proof -
  from shown obtain g' where g': "g' \<in> set gs" "match_one g' v \<or> (\<exists>q. grants_on g' v q)"
    by (auto simp: has_verb_on_some_layer_iff has_verb_iff)
  then obtain g where g: "g \<in> owned"
    "if CHR ''@'' \<in> set g then g' \<in> set (cap_grant g (Some [''*:read''])) else g' = g \<and> has_verb [''*:read''] g"
    unfolding gs by blast
  show ?thesis
  proof (cases "CHR ''@'' \<in> set g")
    case True
    with g have c: "g' \<in> set (cap_grant g (Some [''*:read'']))" by simp
    then obtain q where "grants_on g' v q" using g' True by (auto dest: cap_grant_at match_one_at)
    then have "grants_on g v q \<and> has_verb [''*:read''] v" using c cap_grant_reach by blast
    then show ?thesis using g(1) owned by (auto simp: has_verb_on_some_layer_iff)
  next
    case False
    with g have "g' = g" "has_verb [''*:read''] g" by simp_all
    moreover have "match_one g v" using g'(2) False \<open>g' = g\<close> by (auto dest: grants_on_at)
    ultimately show ?thesis using g(1) owned star_read_trans
      by (auto simp: has_verb_on_some_layer_iff has_verb_iff [of own])
  qed
qed

subsection \<open>Properties\<close>

text \<open>How far a read token reaches.  A token granted known scopes short of \<open>horizon:full\<close> passes
  the check for a known verb exactly when its user's roles pass it and the verb is a read, the audit
  log excepted: whatever the user may write, the token may not.\<close>

theorem read_scope_reach:
  assumes "set scopes \<subseteq> set known_scopes" "scopes \<noteq> []" "''horizon:full'' \<notin> set scopes"
    and "v \<in> set known_verbs"
  shows "session_has_verb cfg \<lparr>subject_roles = roles, subject_cap = verb_cap_for scopes\<rparr> v \<longleftrightarrow>
    session_has_verb cfg \<lparr>subject_roles = roles, subject_cap = None\<rparr> v \<and>
    suffix '':read'' v \<and> v \<noteq> ''audit:read''"
proof -
  have "list_all (\<lambda>v. has_verb [''*:read''] v = (suffix '':read'' v \<and> v \<noteq> ''audit:read'')) known_verbs" by code_simp
  with assms(4) show ?thesis
    by (simp add: list_all_iff session_has_verb_iff verb_cap_read [OF assms(1-3)])
qed

theorem read_scope_reach_witness:
  "\<not> session_has_verb (sample_config (sample_rbac [(''admin'', [''*''])]) no_sso)
      \<lparr>subject_roles = [''admin''], subject_cap = verb_cap_for [''horizon:read'']\<rparr> ''rule:write''"
  by (subst read_scope_reach) (code_simp+)

text \<open>A read scope takes verbs from a layer grant and never a layer.  On every layer and group a
  list of grants reaches for a verb, the capped list reaches it exactly when the verb is one the
  scope covers, and it reaches nothing new.\<close>

theorem cap_keeps_layers:
  "(\<exists>g \<in> set gs. \<exists>g' \<in> set (cap_grant g (Some [''*:read''])). grants_on g' v q) \<longleftrightarrow>
   (\<exists>g \<in> set gs. grants_on g v q) \<and> has_verb [''*:read''] v"
  using cap_grant_reach by blast

text \<open>The consent screen never promises more than the token will carry: a verb the listed verbs
  cover, plainly or on some layer, passes the gate's check for that token.\<close>

theorem consent_promises_no_more:
  assumes scopes: "set scopes \<subseteq> set known_scopes" "scopes \<noteq> []"
    and shown: "has_verb_on_some_layer (granted_verbs cfg roles scopes) v"
  shows "session_has_verb_on_some_layer cfg \<lparr>subject_roles = roles, subject_cap = verb_cap_for scopes\<rparr> v"
proof -
  let ?owned = "verbs_of cfg roles"
  have all: "has_verb_on_some_layer ?owned v" if "\<not> rbac_enabled (cfg_rbac cfg) \<or> ''*'' \<in> set ?owned \<or> ''admin'' \<in> set ?owned"
    using that by (auto simp: verbs_of_def resolve_verbs_for_roles_def has_verb_on_some_layer_iff has_verb_iff
        intro: match_one_star)
  show ?thesis
  proof (cases "''horizon:full'' \<in> set scopes")
    case True
    then have cap: "verb_cap_for scopes = None" by (simp add: verb_cap_for_def)
    show ?thesis
    proof (cases "\<not> rbac_enabled (cfg_rbac cfg) \<or> ''*'' \<in> set ?owned \<or> ''admin'' \<in> set ?owned")
      case False
      then have "set (granted_verbs cfg roles scopes) = set ?owned" by (simp add: set_granted_verbs cap)
      with shown cap show ?thesis
        by (auto simp: session_has_verb_on_some_layer_iff has_verb_on_some_layer_iff has_verb_iff)
    qed (simp add: all cap session_has_verb_on_some_layer_iff)
  next
    case False
    then have cap: "verb_cap_for scopes = Some [''*:read'']" using scopes by (simp add: verb_cap_read)
    show ?thesis
    proof (cases "\<not> rbac_enabled (cfg_rbac cfg) \<or> ''*'' \<in> set ?owned \<or> ''admin'' \<in> set ?owned")
      case True
      then have "granted_verbs cfg roles scopes = [''*:read'']" using False by (auto simp: granted_verbs_def)
      with shown have "has_verb [''*:read''] v" by (auto simp: has_verb_on_some_layer_iff dest: grants_on_at)
      then show ?thesis using all [OF True] by (simp add: cap session_has_verb_on_some_layer_iff)
    next
      case plain: False
      then have set: "set (granted_verbs cfg roles scopes) = {v. \<exists>g \<in> set ?owned.
          if CHR ''@'' \<in> set g then v \<in> set (cap_grant g (Some [''*:read''])) else v = g \<and> has_verb [''*:read''] g}"
        by (simp add: set_granted_verbs cap)
      have "has_verb_on_some_layer ?owned v \<and> has_verb [''*:read''] v"
        by (rule capped_list_reach [OF shown set refl])
      then show ?thesis by (simp add: cap session_has_verb_on_some_layer_iff)
    qed
  qed
qed

theorem consent_promises_no_more_witness:
  "session_has_verb_on_some_layer (sample_config (sample_rbac [(''sre'', [''logs:*@K8S''])]) no_sso)
     \<lparr>subject_roles = [''sre''], subject_cap = verb_cap_for [''horizon:read'']\<rparr> ''logs:read''"
  by (rule consent_promises_no_more) (code_simp+)

text \<open>What a translator sees of the template store: with \<open>translation:read\<close> and no other page's
  read verb, exactly the overlay rows and the source rows of the kinds that are translated.\<close>

theorem translation_reader_rows:
  assumes "\<And>v. v \<in> set template_read_verbs \<Longrightarrow> session_has_verb cfg s v \<longleftrightarrow> v = ''translation:read''"
  shows "can_read_template_row cfg (Some s) kind loc \<longleftrightarrow> loc \<noteq> None \<or> kind \<in> {Overview, Layer}"
proof -
  have mem: "vp_read (verbs_by_kind kind) \<in> set template_read_verbs" "vp_read translation_verbs \<in> set template_read_verbs"
    by (cases kind; simp add: template_read_verbs_def template_kinds_def)+
  have "vp_read (verbs_by_kind kind) \<noteq> ''translation:read''" by (cases kind) simp_all
  then show ?thesis
    using assms [OF mem(1)] assms [OF mem(2)]
    by (auto simp: can_read_template_row_def template_verbs_def translation_verbs_def translatable_kinds_def)
qed

theorem translation_reader_rows_witness:
  "can_read_template_row (sample_config (sample_rbac [(''i18n'', [''translation:read''])]) no_sso)
     (Some \<lparr>subject_roles = [''i18n''], subject_cap = None\<rparr>) Theme (Some ''es'')"
proof (rule translation_reader_rows [THEN iffD2])
  let ?cfg = "sample_config (sample_rbac [(''i18n'', [''translation:read''])]) no_sso"
  let ?s = "\<lparr>subject_roles = [''i18n''], subject_cap = None\<rparr>"
  have "list_all (\<lambda>v. session_has_verb ?cfg ?s v = (v = ''translation:read'')) template_read_verbs" by code_simp
  then show "session_has_verb ?cfg ?s v \<longleftrightarrow> v = ''translation:read''" if "v \<in> set template_read_verbs" for v
    using that by (simp add: list_all_iff)
qed simp

subsection \<open>Where the code and its comments part\<close>

text \<open>A role granted a whole area is shown none of it on the consent screen for \<open>horizon:read\<close>, while
  the token issued there passes the area's read checks: the comment on the filter says the shared
  matcher was chosen so that this could not happen.\<close>

theorem consent_hides_area_grant:
  "granted_verbs (sample_config (sample_rbac [(''sre'', [''metrics:*''])]) no_sso) [''sre''] [''horizon:read''] = [] \<and>
   session_has_verb (sample_config (sample_rbac [(''sre'', [''metrics:*''])]) no_sso)
     \<lparr>subject_roles = [''sre''], subject_cap = verb_cap_for [''horizon:read'']\<rparr> ''metrics:read''"
  by code_simp

text \<open>A scope no one defined is refused as unknown, unless it is the name of something every object
  inherits.\<close>

theorem inherited_scope_accepted:
  "sr_unknown (parse_scope (Some ''horizon:write'')) = Some ''horizon:write'' \<and>
   parse_scope (Some ''toString'') = \<lparr>sr_scopes = [''toString''], sr_unknown = None\<rparr>"
  by code_simp

end
