(* ===== verification/LayerAccess.thy ===== *)
theory LayerAccess
  imports Policy
begin

text \<open>
  Which layers, and which services in them, a session reads with a verb:
  \<open>apps/bff/src/rbac/layer-access.ts\<close>.  Layers arrive in any spelling and are folded by the
  \<open>canonical\<close> function of the access facts; which layers are operate layers is the other fact.
\<close>

subsection \<open>The session's reach\<close>

record layer_reach =
  lr_whole :: bool
  lr_groups :: "string list"

record service_identity =
  si_id :: string
  si_name :: string
  si_normal :: "bool option"
  si_group :: string
  si_layers :: "string list"

record access_facts =
  fact_is_operate :: "string \<Rightarrow> bool"
  fact_canonical :: "string \<Rightarrow> string"

record session_access =
  sa_grants :: "verb list"
  sa_cap :: "verb list option"
  sa_facts :: access_facts
  sa_qualified :: "parsed_grant list"

definition whole_reach :: layer_reach where
  "whole_reach = \<lparr>lr_whole = True, lr_groups = []\<rparr>"

definition qualified_grants :: "verb list \<Rightarrow> parsed_grant list" where
  "qualified_grants grants =
     concat (map (\<lambda>g. if CHR ''@'' \<notin> set g then []
                      else (case parse_grant g of
                              Some p \<Rightarrow> if pg_qualifier p \<noteq> None then [p] else []
                            | None \<Rightarrow> [])) grants)"

definition new_session_access :: "verb list \<Rightarrow> verb list option \<Rightarrow> access_facts \<Rightarrow> session_access" where
  "new_session_access grants cap facts =
     \<lparr>sa_grants = grants, sa_cap = cap, sa_facts = facts, sa_qualified = qualified_grants grants\<rparr>"

definition cap_allows :: "session_access \<Rightarrow> verb \<Rightarrow> bool" where
  "cap_allows sa verb = (case sa_cap sa of Some cap \<Rightarrow> has_verb cap verb | None \<Rightarrow> True)"

definition plain :: "session_access \<Rightarrow> verb \<Rightarrow> bool" where
  "plain sa verb \<longleftrightarrow> cap_allows sa verb \<and> has_verb (sa_grants sa) verb"

definition is_operate :: "session_access \<Rightarrow> string \<Rightarrow> bool" where
  "is_operate sa layer = fact_is_operate (sa_facts sa) (fact_canonical (sa_facts sa) layer)"

definition has_layer_grants :: "session_access \<Rightarrow> bool" where
  "has_layer_grants sa \<longleftrightarrow> 0 < length (sa_qualified sa)"

definition holds_verb :: "session_access \<Rightarrow> verb \<Rightarrow> bool" where
  "holds_verb sa verb =
     (if plain sa verb then True
      else cap_allows sa verb \<and> list_ex (\<lambda>q. qualified_verb_covers q verb) (sa_qualified sa))"

definition layer_limited :: "session_access \<Rightarrow> verb \<Rightarrow> bool" where
  "layer_limited sa verb \<longleftrightarrow> \<not> plain sa verb"

definition add_groups :: "string list option \<Rightarrow> string list \<Rightarrow> string list" where
  "add_groups acc gs = (case acc of None \<Rightarrow> [] | Some a \<Rightarrow> a) @ gs"

text \<open>The loop over the layer grants: the first whole grant ends it, the others add their groups.\<close>

fun scan_grants :: "(parsed_grant \<Rightarrow> bool) \<Rightarrow> parsed_grant list \<Rightarrow> string list option \<Rightarrow> layer_reach option" where
  "scan_grants applies [] groups =
     (case groups of Some gs \<Rightarrow> Some \<lparr>lr_whole = False, lr_groups = gs\<rparr> | None \<Rightarrow> None)"
| "scan_grants applies (q # qs) groups =
     (if \<not> applies q then scan_grants applies qs groups
      else (case pg_qualifier q of
              None \<Rightarrow> scan_grants applies qs groups
            | Some lq \<Rightarrow>
                (case lq_groups lq of
                   None \<Rightarrow> Some whole_reach
                 | Some gs \<Rightarrow> scan_grants applies qs (Some (add_groups groups gs)))))"

definition grant_applies :: "session_access \<Rightarrow> verb \<Rightarrow> string \<Rightarrow> parsed_grant \<Rightarrow> bool" where
  "grant_applies sa verb key q =
     (case pg_qualifier q of
        None \<Rightarrow> False
      | Some lq \<Rightarrow> fact_canonical (sa_facts sa) (lq_layer lq) = key \<and> qualified_verb_covers q verb)"

definition on_layer :: "session_access \<Rightarrow> verb \<Rightarrow> string \<Rightarrow> layer_reach option" where
  "on_layer sa verb layer =
     (if \<not> cap_allows sa verb then None
      else (let key = fact_canonical (sa_facts sa) layer in
        if has_verb (sa_grants sa) verb \<and> (\<not> fact_is_operate (sa_facts sa) key \<or> plain sa ''cluster:read'')
        then Some whole_reach
        else scan_grants (grant_applies sa verb key) (sa_qualified sa) None))"

fun merge_reach :: "layer_reach option list \<Rightarrow> string list option \<Rightarrow> layer_reach option" where
  "merge_reach [] merged =
     (case merged of Some gs \<Rightarrow> Some \<lparr>lr_whole = False, lr_groups = gs\<rparr> | None \<Rightarrow> None)"
| "merge_reach (r # rs) merged =
     (case r of
        None \<Rightarrow> merge_reach rs merged
      | Some x \<Rightarrow>
          if lr_whole x then Some whole_reach
          else merge_reach rs (Some (add_groups merged (lr_groups x))))"

definition on_layer_any :: "session_access \<Rightarrow> verb list \<Rightarrow> string \<Rightarrow> layer_reach option" where
  "on_layer_any sa verbs layer = merge_reach (map (\<lambda>v. on_layer sa v layer) verbs) None"

definition on_service_any :: "session_access \<Rightarrow> verb list \<Rightarrow> service_identity \<Rightarrow> bool" where
  "on_service_any sa verbs service =
     (if length (si_layers service) = 0 then list_ex (plain sa) verbs
      else list_ex (\<lambda>layer.
             (case on_layer_any sa verbs layer of
                None \<Rightarrow> False
              | Some r \<Rightarrow> lr_whole r \<or> si_group service \<in> set (lr_groups r))) (si_layers service))"

definition on_service :: "session_access \<Rightarrow> verb \<Rightarrow> service_identity \<Rightarrow> bool" where
  "on_service sa verb service = on_service_any sa [verb] service"

subsection \<open>What the reach means\<close>

text \<open>Whether a reach takes in a group of the layer.\<close>

definition takes_in :: "layer_reach option \<Rightarrow> string \<Rightarrow> bool" where
  "takes_in r g \<longleftrightarrow> (case r of None \<Rightarrow> False | Some x \<Rightarrow> lr_whole x \<or> g \<in> set (lr_groups x))"

lemma takes_in_simps [simp]:
  "\<not> takes_in None g" "takes_in (Some whole_reach) g"
  "takes_in (Some \<lparr>lr_whole = False, lr_groups = gs\<rparr>) g \<longleftrightarrow> g \<in> set gs"
  by (simp_all add: takes_in_def whole_reach_def)

lemma takes_in_some:
  "lr_whole x \<Longrightarrow> takes_in (Some x) g"
  "\<not> lr_whole x \<Longrightarrow> takes_in (Some x) g \<longleftrightarrow> g \<in> set (lr_groups x)"
  by (simp_all add: takes_in_def)

lemma set_add_groups [simp]: "set (add_groups acc gs) = (case acc of None \<Rightarrow> {} | Some a \<Rightarrow> set a) \<union> set gs"
  by (auto simp: add_groups_def split: option.split)

lemma takes_in_scan:
  "takes_in (scan_grants applies qs acc) g \<longleftrightarrow>
   (\<exists>a. acc = Some a \<and> g \<in> set a) \<or>
   (\<exists>q \<in> set qs. applies q \<and> (\<exists>lq. pg_qualifier q = Some lq \<and> (\<forall>gs. lq_groups lq = Some gs \<longrightarrow> g \<in> set gs)))"
  by (induction applies qs acc rule: scan_grants.induct) (auto split: option.splits)

lemma takes_in_merge:
  "takes_in (merge_reach rs acc) g \<longleftrightarrow> (\<exists>a. acc = Some a \<and> g \<in> set a) \<or> (\<exists>r \<in> set rs. takes_in r g)"
proof (induction rs acc rule: merge_reach.induct)
  case (2 r rs merged)
  show ?case
  proof (cases r)
    case (Some x)
    then show ?thesis using 2 by (cases "lr_whole x"; cases merged) (auto simp: takes_in_some)
  qed (use 2 in simp)
qed (simp split: option.split)

text \<open>The layer a grant list opens for a verb: the layer and, unless all of it, the group.\<close>

definition opens :: "(string \<Rightarrow> string) \<Rightarrow> verb list \<Rightarrow> verb \<Rightarrow> string \<Rightarrow> string \<Rightarrow> bool" where
  "opens canonical grants verb key grp \<longleftrightarrow>
     (\<exists>g \<in> set grants. \<exists>q. grants_on g verb q \<and> canonical (lq_layer q) = key \<and>
        (\<forall>gs. lq_groups q = Some gs \<longrightarrow> grp \<in> set gs))"

lemma set_qualified_grants:
  "q \<in> set (qualified_grants grants) \<longleftrightarrow> (\<exists>g \<in> set grants. parse_grant g = Some q \<and> pg_qualifier q \<noteq> None)"
proof -
  have "q \<in> set (if CHR ''@'' \<notin> set g then []
          else (case parse_grant g of Some p \<Rightarrow> if pg_qualifier p \<noteq> None then [p] else [] | None \<Rightarrow> [])) \<longleftrightarrow>
        parse_grant g = Some q \<and> pg_qualifier q \<noteq> None" for g
    by (cases "CHR ''@'' \<in> set g"; cases "parse_grant g") (auto simp: parse_grant_plain)
  then show ?thesis by (simp only: qualified_grants_def set_concat set_map UN_iff image_iff) blast
qed

lemma opens_iff:
  "opens (fact_canonical facts) grants verb key grp \<longleftrightarrow>
   (\<exists>q \<in> set (qualified_grants grants). grant_applies (new_session_access grants cap facts) verb key q \<and>
      (\<exists>lq. pg_qualifier q = Some lq \<and> (\<forall>gs. lq_groups lq = Some gs \<longrightarrow> grp \<in> set gs)))"
proof
  assume "opens (fact_canonical facts) grants verb key grp"
  then obtain g q p where "g \<in> set grants" "parse_grant g = Some p" "pg_qualifier p = Some q"
    "qualified_verb_covers p verb" "fact_canonical facts (lq_layer q) = key"
    "\<forall>gs. lq_groups q = Some gs \<longrightarrow> grp \<in> set gs"
    by (auto simp: opens_def grants_on_def)
  then show "\<exists>q \<in> set (qualified_grants grants). grant_applies (new_session_access grants cap facts) verb key q \<and>
      (\<exists>lq. pg_qualifier q = Some lq \<and> (\<forall>gs. lq_groups lq = Some gs \<longrightarrow> grp \<in> set gs))"
    by (intro bexI [of _ p]) (auto simp: set_qualified_grants grant_applies_def new_session_access_def)
next
  assume "\<exists>q \<in> set (qualified_grants grants). grant_applies (new_session_access grants cap facts) verb key q \<and>
      (\<exists>lq. pg_qualifier q = Some lq \<and> (\<forall>gs. lq_groups lq = Some gs \<longrightarrow> grp \<in> set gs))"
  then obtain g p q where "g \<in> set grants" "parse_grant g = Some p" "pg_qualifier p = Some q"
    "qualified_verb_covers p verb" "fact_canonical facts (lq_layer q) = key"
    "\<forall>gs. lq_groups q = Some gs \<longrightarrow> grp \<in> set gs"
    by (auto simp: set_qualified_grants grant_applies_def new_session_access_def)
  then show "opens (fact_canonical facts) grants verb key grp"
    unfolding opens_def grants_on_def by blast
qed

lemma takes_in_on_layer:
  "takes_in (on_layer (new_session_access grants cap facts) verb layer) grp \<longleftrightarrow>
   (let sa = new_session_access grants cap facts; key = fact_canonical facts layer in
    cap_allows sa verb \<and>
    (has_verb grants verb \<and> (fact_is_operate facts key \<longrightarrow> plain sa ''cluster:read'') \<or>
     opens (fact_canonical facts) grants verb key grp))"
  unfolding on_layer_def Let_def
  by (auto simp: takes_in_scan opens_iff [where cap = cap] new_session_access_def)

lemma takes_in_on_layer_any:
  "takes_in (on_layer_any sa verbs layer) grp \<longleftrightarrow> (\<exists>v \<in> set verbs. takes_in (on_layer sa v layer) grp)"
  by (simp add: on_layer_any_def takes_in_merge)

lemma on_service_any_takes_in:
  "on_service_any sa verbs s \<longleftrightarrow>
   (if si_layers s = [] then \<exists>v \<in> set verbs. plain sa v
    else \<exists>layer \<in> set (si_layers s). takes_in (on_layer_any sa verbs layer) (si_group s))"
  by (auto simp: on_service_any_def list_ex_iff takes_in_def)

lemma access_fields [simp]:
  "sa_grants (new_session_access grants cap facts) = grants"
  "sa_cap (new_session_access grants cap facts) = cap"
  "sa_facts (new_session_access grants cap facts) = facts"
  "sa_qualified (new_session_access grants cap facts) = qualified_grants grants"
  by (simp_all add: new_session_access_def)

lemma cap_allows_iff: "cap_allows sa v \<longleftrightarrow> (\<forall>c. sa_cap sa = Some c \<longrightarrow> has_verb c v)"
  by (auto simp: cap_allows_def split: option.split)

lemma plain_iff: "plain sa v \<longleftrightarrow> cap_allows sa v \<and> has_verb (sa_grants sa) v"
  by (simp add: plain_def)

lemma service_access_cases:
  "on_service_any (new_session_access grants cap facts) verbs s \<longleftrightarrow>
   (\<exists>v \<in> set verbs. cap_allows (new_session_access grants cap facts) v \<and>
     (if si_layers s = [] then has_verb grants v
      else \<exists>layer \<in> set (si_layers s).
        has_verb grants v \<and> (fact_is_operate facts (fact_canonical facts layer) \<longrightarrow> plain (new_session_access grants cap facts) ''cluster:read'') \<or>
        opens (fact_canonical facts) grants v (fact_canonical facts layer) (si_group s)))"
  by (auto simp: on_service_any_takes_in takes_in_on_layer_any takes_in_on_layer Let_def plain_iff)

lemma opens_mono: "set grants \<subseteq> set grants' \<Longrightarrow> opens c grants v key grp \<Longrightarrow> opens c grants' v key grp"
  unfolding opens_def by blast

lemma opens_scoped: "opens c grants v key grp \<Longrightarrow> v \<in> set layer_scoped_verbs"
  by (auto simp: opens_def dest: grants_on_scoped)

subsection \<open>The facts a session is built on\<close>

locale layer_facts =
  fixes facts :: access_facts
  assumes canonical_idem: "fact_canonical facts (fact_canonical facts l) = fact_canonical facts l"
begin

lemma on_layer_canonical:
  "on_layer (new_session_access grants cap facts) v (fact_canonical facts l) = on_layer (new_session_access grants cap facts) v l"
  by (simp add: on_layer_def canonical_idem)

lemma on_layer_any_canonical:
  "on_layer_any (new_session_access grants cap facts) vs (fact_canonical facts l) = on_layer_any (new_session_access grants cap facts) vs l"
  by (simp add: on_layer_any_def on_layer_canonical)

lemma is_operate_canonical:
  "is_operate (new_session_access grants cap facts) (fact_canonical facts l) = is_operate (new_session_access grants cap facts) l"
  by (simp add: is_operate_def canonical_idem)

lemma on_service_canonical:
  "on_service_any (new_session_access grants cap facts) vs (s\<lparr>si_layers := map (fact_canonical facts) (si_layers s)\<rparr>) =
   on_service_any (new_session_access grants cap facts) vs s"
  by (simp add: service_access_cases canonical_idem)

end

definition code_facts :: "(string \<Rightarrow> bool) \<Rightarrow> access_facts" where
  "code_facts operate = \<lparr>fact_is_operate = operate, fact_canonical = canonical_layer_key\<rparr>"

interpretation cf: layer_facts "code_facts operate" for operate
  by unfold_locales (simp add: code_facts_def canonical_layer_key_idem)

subsection \<open>Properties\<close>

text \<open>C26: who reads a service.  Some verb asked for is inside the cap and either held plainly, with
  \<open>cluster:read\<close> too where the layer is an operate layer, or opened by a grant on one of the
  service's layers that is for the whole layer or names the service's group; a service without a
  layer is reached by a plain verb only.\<close>

theorem service_access_spec:
  "on_service_any (new_session_access grants cap facts) verbs s \<longleftrightarrow>
   (\<exists>v \<in> set verbs. (\<forall>c. cap = Some c \<longrightarrow> has_verb c v) \<and>
     (if si_layers s = [] then has_verb grants v
      else \<exists>layer \<in> set (si_layers s). let key = fact_canonical facts layer in
        has_verb grants v \<and>
          (fact_is_operate facts key \<longrightarrow>
             has_verb grants ''cluster:read'' \<and> (\<forall>c. cap = Some c \<longrightarrow> has_verb c ''cluster:read'')) \<or>
        (\<exists>g \<in> set grants. \<exists>q. grants_on g v q \<and> fact_canonical facts (lq_layer q) = key \<and>
           (\<forall>gs. lq_groups q = Some gs \<longrightarrow> si_group s \<in> set gs))))"
  unfolding service_access_cases Let_def plain_iff cap_allows_iff access_fields opens_def
  by (simp add: conj_commute)

theorem service_access_spec_witness:
  "on_service_any (new_session_access [''traces:read@general[payments]''] None (code_facts (\<lambda>l. False))) [''traces:read'']
     \<lparr>si_id = ''x.1'', si_name = ''x'', si_normal = Some True, si_group = ''payments'', si_layers = [''GENERAL'']\<rparr>"
proof -
  have "grants_on ''traces:read@general[payments]'' ''traces:read'' \<lparr>lq_layer = ''GENERAL'', lq_groups = Some [''payments'']\<rparr>"
  proof -
    have "parse_grant ''traces:read@general[payments]'' = Some \<lparr>pg_verb = ''traces:read'',
        pg_qualifier = Some \<lparr>lq_layer = ''GENERAL'', lq_groups = Some [''payments'']\<rparr>\<rparr>" by code_simp
    moreover have "qualified_verb_covers \<lparr>pg_verb = ''traces:read'',
        pg_qualifier = Some \<lparr>lq_layer = ''GENERAL'', lq_groups = Some [''payments'']\<rparr>\<rparr> ''traces:read''" by code_simp
    ultimately show ?thesis by (simp add: grants_on_def)
  qed
  then have "\<exists>q. grants_on ''traces:read@general[payments]'' ''traces:read'' q \<and>
      canonical_layer_key (lq_layer q) = canonical_layer_key ''GENERAL'' \<and>
      (\<forall>gs. lq_groups q = Some gs \<longrightarrow> ''payments'' \<in> set gs)"
    by (intro exI [of _ "\<lparr>lq_layer = ''GENERAL'', lq_groups = Some [''payments'']\<rparr>"]) simp
  then show ?thesis by (subst service_access_spec) (simp add: Let_def code_facts_def)
qed

text \<open>Access is monotone.  A session with more grants, and with a cap that allows at least as
  much, reads every service it read before.\<close>

theorem service_access_monotone:
  assumes "set grants \<subseteq> set grants'"
    and "\<And>v. cap_allows (new_session_access grants cap facts) v \<Longrightarrow> cap_allows (new_session_access grants' cap' facts) v"
    and "on_service_any (new_session_access grants cap facts) verbs s"
  shows "on_service_any (new_session_access grants' cap' facts) verbs s"
proof -
  have "has_verb grants' v" if "has_verb grants v" for v
    using that assms(1) by (auto simp: has_verb_iff)
  then show ?thesis
    using assms opens_mono [OF assms(1)] unfolding service_access_cases plain_iff access_fields
    by (cases "si_layers s = []") (simp_all, blast+)
qed

theorem service_access_monotone_witness:
  "on_service_any (new_session_access [''logs:read'', ''rule:read''] None (code_facts (\<lambda>l. False))) [''logs:read'']
     \<lparr>si_id = ''x.1'', si_name = ''x'', si_normal = None, si_group = [], si_layers = [''MESH'']\<rparr>"
proof (rule service_access_monotone)
  show "on_service_any (new_session_access [''logs:read''] None (code_facts (\<lambda>l. False))) [''logs:read'']
     \<lparr>si_id = ''x.1'', si_name = ''x'', si_normal = None, si_group = [], si_layers = [''MESH'']\<rparr>" by code_simp
qed (simp_all add: cap_allows_def)

text \<open>The operate layers are closed.  A session without \<open>cluster:read\<close> reads a service that
  lives only in operate layers exactly when a layer grant of the session, inside its cap, names one
  of those layers and, where it lists groups, the service's group.\<close>

theorem operate_layer_needs_grant:
  assumes "\<not> plain (new_session_access grants cap facts) ''cluster:read''"
    and "si_layers s \<noteq> []" "\<And>l. l \<in> set (si_layers s) \<Longrightarrow> fact_is_operate facts (fact_canonical facts l)"
  shows "on_service_any (new_session_access grants cap facts) verbs s \<longleftrightarrow>
    (\<exists>v \<in> set verbs. cap_allows (new_session_access grants cap facts) v \<and>
      (\<exists>l \<in> set (si_layers s). opens (fact_canonical facts) grants v (fact_canonical facts l) (si_group s)))"
  using assms by (auto simp: service_access_cases)

theorem operate_layer_needs_grant_witness:
  "\<not> on_service_any (new_session_access [''*:read''] (Some [''metrics:read'']) (code_facts (\<lambda>l. l = ''SO11Y_OAP'')))
      [''metrics:read''] \<lparr>si_id = ''x.1'', si_name = ''x'', si_normal = None, si_group = [], si_layers = [''SO11Y_OAP'']\<rparr>"
proof -
  let ?s = "\<lparr>si_id = ''x.1'', si_name = ''x'', si_normal = None, si_group = [], si_layers = [''SO11Y_OAP'']\<rparr>"
  let ?f = "code_facts (\<lambda>l. l = ''SO11Y_OAP'')"
  have "\<not> plain (new_session_access [''*:read''] (Some [''metrics:read'']) ?f) ''cluster:read''" by code_simp
  moreover have "canonical_layer_key ''SO11Y_OAP'' = ''SO11Y_OAP''" by code_simp
  moreover have "\<not> opens c [''*:read''] v k g" for c v k g
    by (auto simp: opens_def dest: grants_on_at)
  ultimately show ?thesis
    using operate_layer_needs_grant [of "[''*:read'']" "Some [''metrics:read'']" ?f ?s "[''metrics:read'']"]
    by (simp add: code_facts_def)
qed

end
