(* ===== verification/ServiceIdentity.thy ===== *)
theory ServiceIdentity
  imports ServiceCatalog Base64 LayerAccess
begin

text \<open>
  Who a service is, for an access decision: \<open>apps/bff/src/logic/services/service-identity.ts\<close>, with the
  entity ids of \<open>apps/bff/src/util/entityId.ts\<close>.  What OAP answers for one service id, or for a batch of
  them, is a function of the number of the call; a call that fails is \<open>None\<close>.
\<close>

subsection \<open>Ids\<close>

definition is_blank_to_oap :: "string \<Rightarrow> bool" where
  "is_blank_to_oap name = list_all (\<lambda>c. (of_char c :: nat) \<le> 32) name"

definition entity_service_name :: "string \<Rightarrow> string" where
  "entity_service_name name = (if is_blank_to_oap name then ''_blank'' else name)"

definition service_id_of :: "string \<Rightarrow> bool \<Rightarrow> string" where
  "service_id_of name normal =
     b64_encode (utf8_encode (entity_service_name name)) @ ''.'' @ (if normal then ''1'' else ''0'')"

definition service_id_of_child :: "string \<Rightarrow> string option" where
  "service_id_of_child child =
     (case index_of CHR ''_'' child of
        None \<Rightarrow> None
      | Some i \<Rightarrow> if 0 < i then Some (take i child) else None)"

definition service_name_of_id :: "string \<Rightarrow> string option" where
  "service_name_of_id sid =
     (case last_index_of CHR ''.'' sid of
        None \<Rightarrow> None
      | Some dot \<Rightarrow> if 0 < dot then Some (utf8_decode (b64_decode (take dot sid))) else None)"

record child_entity =
  ce_service_id :: string
  ce_service_name :: string
  ce_name :: string

definition child_of :: "string \<Rightarrow> child_entity option" where
  "child_of child =
     (case service_id_of_child child of
        None \<Rightarrow> None
      | Some sid \<Rightarrow>
          (case service_name_of_id sid of
             None \<Rightarrow> None
           | Some sname \<Rightarrow>
               Some \<lparr>ce_service_id = sid, ce_service_name = sname,
                     ce_name = utf8_decode (b64_decode (drop (length sid + 1) child))\<rparr>))"

text \<open>The ids built from typed names; blankness here is \<open>trim()\<close>'s.\<close>

definition encode_entity :: "string \<Rightarrow> string" where
  "encode_entity name =
     (let n = (if length (js_trim name) = 0 then ''_blank'' else name) in b64_encode (utf8_encode n))"

definition build_service_id :: "string \<Rightarrow> bool \<Rightarrow> string" where
  "build_service_id name real = encode_entity name @ ''.'' @ (if real then ''1'' else ''0'')"

definition build_instance_id :: "string \<Rightarrow> string \<Rightarrow> string" where
  "build_instance_id sid inst = sid @ ''_'' @ encode_entity inst"

definition build_endpoint_id :: "string \<Rightarrow> string \<Rightarrow> string" where
  "build_endpoint_id sid endpoint = sid @ ''_'' @ encode_entity endpoint"

subsection \<open>The catalog, indexed\<close>

record service_index =
  ix_by_id :: "(string, service_identity) jsmap"
  ix_by_name :: "(string, service_identity list) jsmap"

definition add_row :: "string \<Rightarrow> service_row \<Rightarrow> (string, service_identity) jsmap \<Rightarrow> (string, service_identity) jsmap" where
  "add_row key r m =
     (case map_of m (sv_id r) of
        Some s \<Rightarrow> if key \<notin> set (si_layers s) then map_put (sv_id r) (s\<lparr>si_layers := si_layers s @ [key]\<rparr>) m else m
      | None \<Rightarrow>
          map_put (sv_id r)
            \<lparr>si_id = sv_id r, si_name = sv_name r, si_normal = sv_normal r, si_group = sv_group r, si_layers = [key]\<rparr> m)"

definition index_by_id :: "(string, service_row list) jsmap \<Rightarrow> (string, service_identity) jsmap" where
  "index_by_id by_layer =
     fold (\<lambda>(layer, rows) m. fold (add_row (canonical_layer_key layer)) rows m) by_layer []"

definition add_name :: "service_identity \<Rightarrow> (string, service_identity list) jsmap \<Rightarrow> (string, service_identity list) jsmap" where
  "add_name s m =
     (case map_of m (si_name s) of
        Some l \<Rightarrow> map_put (si_name s) (l @ [s]) m
      | None \<Rightarrow> map_put (si_name s) [s] m)"

definition index_of_catalog :: "service_catalog \<Rightarrow> service_index" where
  "index_of_catalog c =
     (let by_id = index_by_id (sc_by_layer c) in
      \<lparr>ix_by_id = by_id, ix_by_name = fold (\<lambda>(_, s) m. add_name s m) by_id []\<rparr>)"

subsection \<open>The resolver\<close>

record raw_service =
  rs_id :: string
  rs_name :: string
  rs_normal :: "bool option"
  rs_group :: "string option"
  rs_layers :: "string list option"

definition resolved_of :: "raw_service option \<Rightarrow> string \<Rightarrow> service_identity option" where
  "resolved_of s sid =
     (case s of
        None \<Rightarrow> None
      | Some r \<Rightarrow>
          if rs_id r \<noteq> sid then None
          else Some \<lparr>si_id = rs_id r, si_name = rs_name r, si_normal = rs_normal r, si_group = or_empty (rs_group r),
                     si_layers = dedup (map canonical_layer_key (case rs_layers r of Some ls \<Rightarrow> ls | None \<Rightarrow> []))\<rparr>)"

text \<open>OAP: the catalog's two reads, one service, and a batch, whose answer may lack a field.\<close>

record oap_world =
  ow_catalog :: "nat \<Rightarrow> catalog_answers"
  ow_service :: "nat \<Rightarrow> string \<Rightarrow> raw_service option option"
  ow_services :: "nat \<Rightarrow> string list \<Rightarrow> (nat \<Rightarrow> raw_service option option) option"

text \<open>The state behind the resolver: the catalog cache, the answers held for each catalog object,
  and the number of calls made to OAP.\<close>

record resolver =
  rv_catalog :: catalog_state
  rv_held :: "(nat \<times> string, service_identity option) jsmap"
  rv_calls :: nat

datatype 'a lookup = Unavailable | Settled 'a

definition read_catalog :: "oap_world \<Rightarrow> nat \<Rightarrow> resolver \<Rightarrow> service_catalog \<times> resolver" where
  "read_catalog oap now st =
     (case catalog_get (ow_catalog oap (rv_calls st)) now (rv_catalog st) of
        (c, cat) \<Rightarrow> (c, st\<lparr>rv_catalog := cat, rv_calls := Suc (rv_calls st)\<rparr>))"

definition hold :: "nat \<Rightarrow> string \<Rightarrow> service_identity option \<Rightarrow> resolver \<Rightarrow> resolver" where
  "hold version sid s st = st\<lparr>rv_held := map_put (version, sid) s (rv_held st)\<rparr>"

definition ask_service ::
  "oap_world \<Rightarrow> nat option \<Rightarrow> string \<Rightarrow> resolver \<Rightarrow> service_identity option lookup \<times> resolver" where
  "ask_service oap held sid st =
     (let st' = st\<lparr>rv_calls := Suc (rv_calls st)\<rparr> in
      case ow_service oap (rv_calls st) sid of
        None \<Rightarrow> (Unavailable, st')
      | Some got \<Rightarrow>
          (let s = resolved_of got sid in
           (Settled s, case held of Some version \<Rightarrow> hold version sid s st' | None \<Rightarrow> st')))"

definition by_id :: "oap_world \<Rightarrow> nat \<Rightarrow> string \<Rightarrow> resolver \<Rightarrow> service_identity option lookup \<times> resolver" where
  "by_id oap now sid st =
     (case read_catalog oap now st of
        (snapshot, st') \<Rightarrow>
          if trusted snapshot now then
            (let version = cs_version (rv_catalog st') in
             case map_of (ix_by_id (index_of_catalog snapshot)) sid of
               Some hit \<Rightarrow> (Settled (Some hit), st')
             | None \<Rightarrow>
                 (case map_of (rv_held st') (version, sid) of
                    Some s \<Rightarrow> (Settled s, st')
                  | None \<Rightarrow> ask_service oap (Some version) sid st'))
          else ask_service oap None sid st')"

definition prefetch_chunk :: nat where "prefetch_chunk = 50"
definition prefetch_parallel :: nat where "prefetch_parallel = 4"

function chunks_of :: "nat \<Rightarrow> 'a list \<Rightarrow> 'a list list" where
  "chunks_of n xs = (if xs = [] \<or> n = 0 then [] else take n xs # chunks_of n (drop n xs))"
  by pat_completeness auto
termination
  by (relation "measure (\<lambda>(n, xs). length xs)") auto

declare chunks_of.simps [simp del]

text \<open>One batch: the answers that came are held, a failed batch holds nothing.\<close>

fun hold_answers ::
  "nat \<Rightarrow> (nat \<Rightarrow> raw_service option option) \<Rightarrow> nat \<Rightarrow> string list \<Rightarrow> resolver \<Rightarrow> resolver" where
  "hold_answers version got j [] st = st"
| "hold_answers version got j (sid # ids) st =
     hold_answers version got (Suc j) ids
       (case got j of Some a \<Rightarrow> hold version sid (resolved_of a sid) st | None \<Rightarrow> st)"

definition ask_chunk :: "oap_world \<Rightarrow> nat \<Rightarrow> string list \<Rightarrow> resolver \<Rightarrow> resolver" where
  "ask_chunk oap version chunk st =
     (let st' = st\<lparr>rv_calls := Suc (rv_calls st)\<rparr> in
      case ow_services oap (rv_calls st) chunk of
        None \<Rightarrow> st'
      | Some got \<Rightarrow> hold_answers version got 0 chunk st')"

definition prefetch_ids :: "oap_world \<Rightarrow> nat \<Rightarrow> string list \<Rightarrow> resolver \<Rightarrow> resolver" where
  "prefetch_ids oap now ids st =
     (case read_catalog oap now st of
        (snapshot, st') \<Rightarrow>
          if \<not> trusted snapshot now then st'
          else (let version = cs_version (rv_catalog st');
                    missing = filter (\<lambda>sid. map_of (ix_by_id (index_of_catalog snapshot)) sid = None \<and>
                                            map_of (rv_held st') (version, sid) = None) (dedup ids) in
                fold (\<lambda>group st. fold (ask_chunk oap version) group st)
                  (chunks_of prefetch_parallel (chunks_of prefetch_chunk missing)) st'))"

text \<open>Both ids are asked about even when the first lookup fails, and then the whole is unavailable.\<close>

fun all_by_id ::
  "oap_world \<Rightarrow> nat \<Rightarrow> string list \<Rightarrow> resolver \<Rightarrow> service_identity option list lookup \<times> resolver" where
  "all_by_id oap now [] st = (Settled [], st)"
| "all_by_id oap now (sid # ids) st =
     (case by_id oap now sid st of
        (r, st') \<Rightarrow>
          (case all_by_id oap now ids st' of
             (rs, st'') \<Rightarrow>
               (case (r, rs) of (Settled s, Settled ss) \<Rightarrow> Settled (s # ss) | _ \<Rightarrow> Unavailable, st'')))"

definition by_name ::
  "oap_world \<Rightarrow> nat \<Rightarrow> string \<Rightarrow> bool option \<Rightarrow> resolver \<Rightarrow> service_identity list option lookup \<times> resolver" where
  "by_name oap now name normal st =
     (case normal of
        Some n \<Rightarrow>
          (case by_id oap now (service_id_of name n) st of
             (Unavailable, st') \<Rightarrow> (Unavailable, st')
           | (Settled one, st') \<Rightarrow> (Settled (map_option (\<lambda>s. [s]) one), st'))
      | None \<Rightarrow>
          (case read_catalog oap now st of
             (snapshot, st') \<Rightarrow>
               (let known =
                      (if trusted snapshot now then
                         fold (\<lambda>s m. map_put (si_id s) s m)
                           (case map_of (ix_by_name (index_of_catalog snapshot)) name of Some ss \<Rightarrow> ss | None \<Rightarrow> []) []
                       else []);
                    ids = filter (\<lambda>sid. map_of known sid = None) [service_id_of name True, service_id_of name False] in
                case all_by_id oap now ids st' of
                  (Unavailable, st'') \<Rightarrow> (Unavailable, st'')
                | (Settled ss, st'') \<Rightarrow>
                    (let known' = fold (\<lambda>s m. case s of Some x \<Rightarrow> map_put (si_id x) x m | None \<Rightarrow> m) ss known in
                     (Settled (if 0 < length known' then Some (map snd known') else None), st'')))))"

subsection \<open>Lemmas about ids\<close>

lemma entity_service_name_idem [simp]: "entity_service_name (entity_service_name n) = entity_service_name n"
  by (simp add: entity_service_name_def is_blank_to_oap_def)

lemma entity_well_formed: "well_formed n \<Longrightarrow> well_formed (entity_service_name n)"
proof -
  have "well_formed ''_blank''" by code_simp
  then show "well_formed n \<Longrightarrow> ?thesis" by (simp add: entity_service_name_def)
qed

lemma service_id_parts:
  "service_id_of n b = e @ ''.'' @ f \<Longrightarrow> CHR ''.'' \<notin> set e \<Longrightarrow>
   e = b64_encode (utf8_encode (entity_service_name n)) \<and> f = (if b then ''1'' else ''0'')"
proof -
  assume a: "service_id_of n b = e @ ''.'' @ f" "CHR ''.'' \<notin> set e"
  let ?e = "b64_encode (utf8_encode (entity_service_name n))" and ?f = "if b then ''1'' else ''0''"
  have "split_on CHR ''.'' (?e @ CHR ''.'' # ?f) = [?e, ?f]"
    by (simp add: split_on_append b64_encode_plain)
  moreover have "split_on CHR ''.'' (e @ CHR ''.'' # f) = e # split_on CHR ''.'' f"
    by (rule split_on_append [OF a(2)])
  ultimately have e: "e = ?e" using a(1) by (simp add: service_id_of_def)
  with a(1) show ?thesis by (simp add: service_id_of_def)
qed

lemma service_id_inject:
  assumes "well_formed n" "well_formed n'"
  shows "service_id_of n b = service_id_of n' b' \<longleftrightarrow> entity_service_name n = entity_service_name n' \<and> b = b'"
proof
  let ?e' = "b64_encode (utf8_encode (entity_service_name n'))" and ?f' = "if b' then ''1'' else ''0''"
  assume "service_id_of n b = service_id_of n' b'"
  then have "service_id_of n b = ?e' @ ''.'' @ ?f'" by (simp only: service_id_of_def)
  moreover have "CHR ''.'' \<notin> set ?e'" by (simp add: b64_encode_plain)
  ultimately have e: "?e' = b64_encode (utf8_encode (entity_service_name n))" and f: "?f' = (if b then ''1'' else ''0'')"
    using service_id_parts by blast+
  from e have "entity_service_name n = entity_service_name n'"
    using assms by (simp add: b64_encode_inject utf8_encode_id entity_well_formed)
  moreover from f have "b = b'" by (cases b; cases b') simp_all
  ultimately show "entity_service_name n = entity_service_name n' \<and> b = b'" by simp
qed (auto simp: service_id_of_def)

lemma service_id_facts:
  assumes "well_formed n"
  shows "service_name_of_id (service_id_of n b) = Some (entity_service_name n)"
    and "CHR ''_'' \<notin> set (service_id_of n b)" and "service_id_of n b \<noteq> []"
proof -
  let ?e = "b64_encode (utf8_encode (entity_service_name n))"
  have d: "last_index_of CHR ''.'' (service_id_of n b) = Some (length ?e)"
    unfolding service_id_of_def append.simps by (rule last_index_of_append) simp
  have "utf8_encode (entity_service_name n) = entity_service_name n"
    using assms by (simp add: utf8_encode_id entity_well_formed)
  moreover have "entity_service_name n \<noteq> []" by (auto simp: entity_service_name_def is_blank_to_oap_def)
  ultimately show "service_name_of_id (service_id_of n b) = Some (entity_service_name n)"
    using d assms entity_well_formed [OF assms]
    by (auto simp: service_name_of_id_def b64_encode_Nil_iff) (simp add: service_id_of_def well_formed_def)
  show "CHR ''_'' \<notin> set (service_id_of n b)"
    by (simp add: service_id_of_def b64_encode_plain)
  show "service_id_of n b \<noteq> []" by (simp add: service_id_of_def)
qed

lemma child_owner: "CHR ''_'' \<notin> set sid \<Longrightarrow> sid \<noteq> [] \<Longrightarrow> service_id_of_child (sid @ ''_'' @ rest) = Some sid"
  by (simp add: service_id_of_child_def index_of_append)

subsection \<open>Lemmas about the index\<close>

definition listed :: "(string, service_row list) jsmap \<Rightarrow> string \<Rightarrow> string set" where
  "listed by_layer sid = {canonical_layer_key l |l rows r. (l, rows) \<in> set by_layer \<and> r \<in> set rows \<and> sv_id r = sid}"

definition layers_at :: "(string, service_identity) jsmap \<Rightarrow> string \<Rightarrow> string set" where
  "layers_at m sid = (case map_of m sid of None \<Rightarrow> {} | Some s \<Rightarrow> set (si_layers s))"

definition ids_ok :: "(string, service_identity) jsmap \<Rightarrow> bool" where
  "ids_ok m \<longleftrightarrow> (\<forall>sid s. map_of m sid = Some s \<longrightarrow> si_id s = sid)"

lemma map_of_add_row:
  "map_of (add_row key r m) sid =
   (if sid \<noteq> sv_id r then map_of m sid
    else (case map_of m sid of
       None \<Rightarrow> Some \<lparr>si_id = sv_id r, si_name = sv_name r, si_normal = sv_normal r, si_group = sv_group r, si_layers = [key]\<rparr>
     | Some s \<Rightarrow> if key \<in> set (si_layers s) then Some s else Some (s\<lparr>si_layers := si_layers s @ [key]\<rparr>)))"
  by (simp add: add_row_def split: option.split)

lemma add_row_step:
  "layers_at (add_row key r m) sid = layers_at m sid \<union> (if sv_id r = sid then {key} else {})"
  "map_of (add_row key r m) sid = None \<longleftrightarrow> map_of m sid = None \<and> sv_id r \<noteq> sid"
  "ids_ok m \<Longrightarrow> ids_ok (add_row key r m)"
  by (auto simp: layers_at_def ids_ok_def map_of_add_row split: option.splits if_splits)

lemma add_rows_step:
  "layers_at (fold (add_row key) rows m) sid = layers_at m sid \<union> (if \<exists>r \<in> set rows. sv_id r = sid then {key} else {})"
  "map_of (fold (add_row key) rows m) sid = None \<longleftrightarrow> map_of m sid = None \<and> (\<forall>r \<in> set rows. sv_id r \<noteq> sid)"
  "ids_ok m \<Longrightarrow> ids_ok (fold (add_row key) rows m)"
  by (induction rows arbitrary: m) (auto simp: add_row_step)

lemma listed_Cons:
  "listed ((l, rows) # bl) sid = (if \<exists>r \<in> set rows. sv_id r = sid then {canonical_layer_key l} else {}) \<union> listed bl sid"
  by (auto simp: listed_def)

lemma index_layers_step:
  fixes bl m
  defines "res \<equiv> fold (\<lambda>(layer, rows) m. fold (add_row (canonical_layer_key layer)) rows m) bl m"
  shows "layers_at res sid = layers_at m sid \<union> listed bl sid"
    and "map_of res sid = None \<longleftrightarrow> map_of m sid = None \<and> (\<forall>(l, rows) \<in> set bl. \<forall>r \<in> set rows. sv_id r \<noteq> sid)"
    and "ids_ok m \<Longrightarrow> ids_ok res"
  unfolding res_def
  by (induction bl arbitrary: m) (auto simp: listed_Cons listed_def add_rows_step split: prod.splits)

lemma index_by_id_facts:
  "layers_at (index_by_id bl) sid = listed bl sid"
  "map_of (index_by_id bl) sid = None \<longleftrightarrow> (\<forall>(l, rows) \<in> set bl. \<forall>r \<in> set rows. sv_id r \<noteq> sid)"
  "ids_ok (index_by_id bl)"
  using index_layers_step [where bl = bl and m = "[]"] by (simp_all add: index_by_id_def layers_at_def ids_ok_def)

lemma resolved_of_id: "resolved_of s sid = Some x \<Longrightarrow> si_id x = sid"
  by (auto simp: resolved_of_def split: option.splits if_splits)

subsection \<open>Lemmas about the resolver\<close>

text \<open>Every answer held is about the id it is held for.\<close>

definition held_ok :: "resolver \<Rightarrow> bool" where
  "held_ok st \<longleftrightarrow> (\<forall>v sid s. map_of (rv_held st) (v, sid) = Some (Some s) \<longrightarrow> si_id s = sid)"

lemma held_ok_hold: "held_ok st \<Longrightarrow> (\<And>x. s = Some x \<Longrightarrow> si_id x = sid) \<Longrightarrow> held_ok (hold v sid s st)"
  by (auto simp: held_ok_def hold_def split: if_splits)

lemma held_ok_read: "held_ok st \<Longrightarrow> read_catalog oap now st = (c, st') \<Longrightarrow> held_ok st'"
  by (auto simp: held_ok_def read_catalog_def split: prod.splits)

lemma ask_service_facts:
  assumes "ask_service oap held sid st = (r, st')" "held_ok st"
  shows "held_ok st' \<and> (\<forall>s. r = Settled (Some s) \<longrightarrow> si_id s = sid)"
  using assms
  by (auto simp: ask_service_def Let_def dest: resolved_of_id split: option.splits
      intro!: held_ok_hold) (auto simp: held_ok_def)

lemma by_id_facts:
  assumes "by_id oap now sid st = (r, st')" "held_ok st"
  shows "held_ok st' \<and> (\<forall>s. r = Settled (Some s) \<longrightarrow> si_id s = sid)"
proof -
  obtain c st1 where c: "read_catalog oap now st = (c, st1)" by (cases "read_catalog oap now st")
  have h: "held_ok st1" using assms(2) c by (rule held_ok_read)
  have ix: "si_id s = sid" if "map_of (ix_by_id (index_of_catalog c)) sid = Some s" for s
    using that index_by_id_facts(3) by (auto simp: index_of_catalog_def Let_def ids_ok_def)
  show ?thesis
    using assms(1) c h ix ask_service_facts [OF _ h]
    by (auto simp: by_id_def Let_def held_ok_def split: if_splits option.splits)
qed

lemma held_ok_answers: "held_ok st \<Longrightarrow> held_ok (hold_answers v got j ids st)"
proof (induction v got j ids st rule: hold_answers.induct)
  case (2 v got j sid ids st)
  have "held_ok (hold v sid (resolved_of a sid) st)" for a
    using 2(2) by (intro held_ok_hold) (auto dest: resolved_of_id)
  with 2 show ?case by (simp split: option.split)
qed simp

lemma held_ok_chunk: "held_ok st \<Longrightarrow> held_ok (ask_chunk oap v chunk st)"
  by (auto simp: ask_chunk_def Let_def held_ok_def [of "st\<lparr>rv_calls := _\<rparr>"] intro!: held_ok_answers split: option.split)
     (auto simp: held_ok_def)

lemma held_ok_fold: "(\<And>x st. held_ok st \<Longrightarrow> held_ok (f x st)) \<Longrightarrow> held_ok st \<Longrightarrow> held_ok (fold f xs st)"
  by (induction xs arbitrary: st) auto

lemma held_ok_prefetch: "held_ok st \<Longrightarrow> held_ok (prefetch_ids oap now ids st)"
  by (auto simp: prefetch_ids_def Let_def intro!: held_ok_fold held_ok_chunk dest: held_ok_read split: prod.split)

text \<open>A second read of the catalog while the first is fresh changes only the count of calls.\<close>

lemma read_catalog_fresh:
  assumes "cs_cached (rv_catalog st) = Some c" "catalog_fresh (rv_catalog st) now"
  shows "read_catalog oap now st = (c, st\<lparr>rv_calls := Suc (rv_calls st)\<rparr>)"
  using assms by (simp add: read_catalog_def catalog_get_def)

lemma read_catalog_cached: "read_catalog oap now st = (c, st') \<Longrightarrow> cs_cached (rv_catalog st') = Some c"
  by (auto simp: read_catalog_def split: prod.splits dest: catalog_get_cached)

lemma catalog_get_fresh: "catalog_get oap now cat = (c, cat') \<Longrightarrow> catalog_fresh cat' now"
  by (auto simp: catalog_get_def catalog_fresh_def catalog_ttl_def catalog_failure_ttl_def Let_def split: option.splits if_splits)

lemma read_catalog_again:
  assumes "read_catalog oap now st = (c, st1)" and "rv_catalog st2 = rv_catalog st1"
  shows "read_catalog oap now st2 = (c, st2\<lparr>rv_calls := Suc (rv_calls st2)\<rparr>)"
proof (rule read_catalog_fresh)
  show "cs_cached (rv_catalog st2) = Some c" using read_catalog_cached [OF assms(1)] assms(2) by simp
  show "catalog_fresh (rv_catalog st2) now"
    using assms by (auto simp: read_catalog_def split: prod.splits dest: catalog_get_fresh)
qed

lemma ask_service_catalog: "ask_service oap held sid st = (r, st') \<Longrightarrow> rv_catalog st' = rv_catalog st"
  by (auto simp: ask_service_def hold_def Let_def split: option.splits)

lemma by_id_catalog:
  assumes "by_id oap now sid st = (r, st')" "read_catalog oap now st = (c, st1)"
  shows "rv_catalog st' = rv_catalog st1"
  using assms by (auto simp: by_id_def Let_def split: if_splits option.splits dest: ask_service_catalog)

text \<open>A service the trusted catalog lists is the answer for its id.\<close>

lemma by_id_listed:
  assumes "read_catalog oap now st = (c, st1)" "trusted c now" "map_of (ix_by_id (index_of_catalog c)) sid = Some s"
  shows "by_id oap now sid st = (Settled (Some s), st1)"
  using assms by (simp add: by_id_def Let_def)

lemma all_by_id_listed:
  assumes "read_catalog oap now st0 = (c, st1)" "trusted c now" "all_by_id oap now ids st = (Settled ss, st')"
    and "rv_catalog st = rv_catalog st1" "sid \<in> set ids" "map_of (ix_by_id (index_of_catalog c)) sid = Some s"
  shows "Some s \<in> set ss"
  using assms(3-5)
proof (induction ids arbitrary: st ss)
  case (Cons i ids)
  obtain r st2 where r: "by_id oap now i st = (r, st2)" by (cases "by_id oap now i st")
  obtain rs st3 where rs: "all_by_id oap now ids st2 = (rs, st3)" by (cases "all_by_id oap now ids st2")
  from Cons.prems(1) r rs obtain a as where a: "r = Settled a" "rs = Settled as" "ss = a # as" "st' = st3"
    by (auto split: lookup.splits)
  have again: "read_catalog oap now st = (c, st\<lparr>rv_calls := Suc (rv_calls st)\<rparr>)"
    using assms(1) Cons.prems(2) by (rule read_catalog_again)
  show ?case
  proof (cases "i = sid")
    case True
    with by_id_listed [OF again assms(2,6)] r a show ?thesis by simp
  next
    case False
    have "rv_catalog st2 = rv_catalog st1" using by_id_catalog [OF r again] Cons.prems(2) by simp
    then have "Some s \<in> set as" using Cons.IH [of st2 as] rs a Cons.prems(3) False by simp
    with a show ?thesis by simp
  qed
qed simp

lemma names_index:
  "map_of (fold (\<lambda>(_, s) m. add_name s m) xs m) name =
   (case (map_of m name, filter (\<lambda>s. si_name s = name) (map snd xs)) of
      (None, []) \<Rightarrow> None | (None, l) \<Rightarrow> Some l | (Some l0, l) \<Rightarrow> Some (l0 @ l))"
proof (induction xs arbitrary: m)
  case (Cons x xs)
  obtain k s where x: "x = (k, s)" by (cases x)
  show ?case
    using Cons.IH [of "add_name s m"] x
    by (cases "map_of m (si_name s)"; cases "si_name s = name"; cases "map_of m name")
       (auto simp: add_name_def split: list.splits)
qed (simp split: option.split)

lemma fold_put_services:
  "map_of (fold (\<lambda>s m. map_put (si_id s) s m) ss m) k =
   (case map_of (rev (map (\<lambda>s. (si_id s, s)) ss)) k of Some s \<Rightarrow> Some s | None \<Rightarrow> map_of m k)"
  by (induction ss arbitrary: m) (auto simp: map_add_def split: option.splits)

lemma all_by_id_answers:
  assumes "read_catalog oap now st0 = (c, st1)" "trusted c now" "all_by_id oap now ids st = (Settled ss, st')"
    and "rv_catalog st = rv_catalog st1" "held_ok st" "Some x \<in> set ss"
  shows "si_id x \<in> set ids \<and> (\<forall>s. map_of (ix_by_id (index_of_catalog c)) (si_id x) = Some s \<longrightarrow> x = s)"
  using assms(3-6)
proof (induction ids arbitrary: st ss)
  case (Cons i ids)
  obtain r st2 where r: "by_id oap now i st = (r, st2)" by (cases "by_id oap now i st")
  obtain rs st3 where rs: "all_by_id oap now ids st2 = (rs, st3)" by (cases "all_by_id oap now ids st2")
  from Cons.prems(1) r rs obtain a as where a: "r = Settled a" "rs = Settled as" "ss = a # as" "st' = st3"
    by (auto split: lookup.splits)
  have again: "read_catalog oap now st = (c, st\<lparr>rv_calls := Suc (rv_calls st)\<rparr>)"
    using assms(1) Cons.prems(2) by (rule read_catalog_again)
  note ok = by_id_facts [OF r Cons.prems(3)]
  have cat: "rv_catalog st2 = rv_catalog st1" using by_id_catalog [OF r again] Cons.prems(2) by simp
  show ?case
  proof (cases "a = Some x")
    case True
    then have id: "si_id x = i" using ok a by simp
    then show ?thesis using by_id_listed [OF again assms(2)] r a True by auto
  next
    case False
    then show ?thesis using Cons.IH [of st2 as] rs a cat ok Cons.prems(4) by auto
  qed
qed simp

lemma fold_put_answers:
  assumes "\<forall>x. Some x \<in> set ss \<and> si_id x = k \<longrightarrow> x = s"
    and "map_of m k = Some s \<or> (Some s \<in> set ss \<and> si_id s = k)"
  shows "map_of (fold (\<lambda>s m. case s of Some x \<Rightarrow> map_put (si_id x) x m | None \<Rightarrow> m) ss m) k = Some s"
  using assms
proof (induction ss arbitrary: m)
  case (Cons a ss)
  show ?case
  proof (cases a)
    case None
    then show ?thesis using Cons.IH [of m] Cons.prems by auto
  next
    case (Some x)
    have "map_of (map_put (si_id x) x m) k = Some s \<or> (Some s \<in> set ss \<and> si_id s = k)"
      using Cons.prems Some by (cases "si_id x = k") (simp, auto)
    moreover have "\<forall>x. Some x \<in> set ss \<and> si_id x = k \<longrightarrow> x = s" using Cons.prems(1) by simp
    ultimately show ?thesis using Cons.IH [of "map_put (si_id x) x m"] Some by simp
  qed
qed simp

lemma distinct_add_row: "distinct (map fst m) \<Longrightarrow> distinct (map fst (add_row key r m))"
  by (auto simp: add_row_def intro: distinct_map_put split: option.split)

lemma distinct_index: "distinct (map fst (index_by_id bl))"
proof -
  have rows: "distinct (map fst (fold (add_row key) rows m))" if "distinct (map fst m)" for key rows and m
    using that by (induction rows arbitrary: m) (auto intro: distinct_add_row)
  have "distinct (map fst (fold (\<lambda>(layer, rows) m. fold (add_row (canonical_layer_key layer)) rows m) bl m))"
    if "distinct (map fst m)" for m
    using that by (induction bl arbitrary: m) (auto intro: rows)
  then show ?thesis by (simp add: index_by_id_def)
qed

lemma named_services:
  fixes c name
  defines "known \<equiv> fold (\<lambda>s m. map_put (si_id s) s m)
      (case map_of (ix_by_name (index_of_catalog c)) name of Some ss \<Rightarrow> ss | None \<Rightarrow> []) []"
  assumes "map_of (ix_by_id (index_of_catalog c)) (si_id s) = Some s"
  shows "si_name s = name \<Longrightarrow> map_of known (si_id s) = Some s"
    and "map_of known (si_id s) = Some x \<Longrightarrow> x = s"
proof -
  let ?bi = "index_by_id (sc_by_layer c)"
  let ?named = "filter (\<lambda>s. si_name s = name) (map snd ?bi)"
  have "known = fold (\<lambda>s m. map_put (si_id s) s m) ?named []"
    by (cases ?named) (simp_all add: known_def index_of_catalog_def Let_def names_index)
  then have known: "map_of known k = map_of (rev (map (\<lambda>s. (si_id s, s)) ?named)) k" for k
    by (simp add: fold_put_services split: option.split)
  have id: "si_id t = k" "map_of ?bi k = Some t" if "(k, t) \<in> set ?bi" for k t
    using that index_by_id_facts(3) distinct_index by (auto simp: ids_ok_def)
  have same: "t = s" if "t \<in> set ?named" "si_id t = si_id s" for t
  proof -
    from that(1) obtain k where k: "(k, t) \<in> set ?bi" by auto
    have "map_of ?bi (si_id s) = Some s" using assms(2) by (simp add: index_of_catalog_def Let_def)
    then show ?thesis using id [OF k] that(2) by simp
  qed
  show "x = s" if "map_of known (si_id s) = Some x"
    using that map_of_SomeD [of "rev (map (\<lambda>s. (si_id s, s)) ?named)"] same unfolding known by fastforce
  show "map_of known (si_id s) = Some s" if "si_name s = name"
  proof -
    have "(si_id s, s) \<in> set ?bi" using assms(2) by (auto simp: index_of_catalog_def Let_def dest: map_of_SomeD)
    then have "s \<in> set ?named" using that by force
    then obtain y where "map_of known (si_id s) = Some y"
      unfolding known by (metis (no_types, lifting) imageI list.set_map map_of_eq_None_iff not_None_eq set_rev fst_conv)
    moreover have "y = s"
      using calculation map_of_SomeD [of "rev (map (\<lambda>s. (si_id s, s)) ?named)"] same unfolding known by fastforce
    ultimately show ?thesis by simp
  qed
qed

text \<open>An OAP that answers every question settles every lookup.\<close>

lemma by_id_settles:
  assumes "\<And>n i. ow_service oap n i \<noteq> None"
  shows "\<exists>s st'. by_id oap now sid st = (Settled s, st')"
proof -
  have ask: "\<exists>s st'. ask_service oap held sid st = (Settled s, st')" for held st
    using assms [of "rv_calls st" sid] by (auto simp: ask_service_def Let_def)
  obtain c st1 where "read_catalog oap now st = (c, st1)" by (cases "read_catalog oap now st")
  then show ?thesis using ask by (auto simp: by_id_def Let_def split: option.split)
qed

lemma all_by_id_settles:
  assumes "\<And>n i. ow_service oap n i \<noteq> None"
  shows "\<exists>ss st'. all_by_id oap now ids st = (Settled ss, st')"
proof (induction ids arbitrary: st)
  case (Cons i ids)
  obtain s st1 where "by_id oap now i st = (Settled s, st1)" using by_id_settles [OF assms] by blast
  moreover obtain ss st2 where "all_by_id oap now ids st1 = (Settled ss, st2)" using Cons.IH by blast
  ultimately show ?case by simp
qed simp

lemma settled_case:
  "\<exists>ss st'. x = (Settled ss, st') \<Longrightarrow>
   \<exists>r st'. (case x of (Unavailable, st'') \<Rightarrow> (Unavailable, st'') | (Settled ss, st'') \<Rightarrow> (Settled (g ss), st'')) = (Settled r, st')"
  by auto

lemma by_name_settles:
  assumes "\<And>n i. ow_service oap n i \<noteq> None"
  shows "\<exists>r st'. by_name oap now name normal st = (Settled r, st')"
proof (cases normal)
  case (Some b)
  obtain s st1 where "by_id oap now (service_id_of name b) st = (Settled s, st1)" using by_id_settles [OF assms] by blast
  with Some show ?thesis by (simp add: by_name_def)
next
  case None
  obtain c st1 where c: "read_catalog oap now st = (c, st1)" by (cases "read_catalog oap now st")
  have "\<exists>ss st'. all_by_id oap now ids st1 = (Settled ss, st')" for ids by (rule all_by_id_settles [OF assms])
  note settled = settled_case [OF this]
  show ?thesis unfolding None by_name_def option.case c prod.case Let_def by (rule settled)
qed

subsection \<open>Properties\<close>

text \<open>Ids identify.  For well-formed text, the id of a service determines its name (a blank one
  being \<open>_blank\<close>) and whether it is real, and an instance or endpoint id built on it gives back that
  service's id, its name and the child's own name.\<close>

theorem entity_ids_roundtrip:
  assumes "well_formed n" "well_formed child" "js_trim child \<noteq> []"
  shows "child_of (build_instance_id (service_id_of n b) child) =
      Some \<lparr>ce_service_id = service_id_of n b, ce_service_name = entity_service_name n, ce_name = child\<rparr> \<and>
    build_endpoint_id (service_id_of n b) child = build_instance_id (service_id_of n b) child \<and>
    (\<forall>m b'. well_formed m \<longrightarrow>
       (service_id_of n b = service_id_of m b' \<longleftrightarrow> entity_service_name n = entity_service_name m \<and> b = b'))"
proof -
  have enc: "encode_entity child = b64_encode child"
    using assms(2,3) by (simp add: encode_entity_def utf8_encode_id)
  have "service_id_of_child (build_instance_id (service_id_of n b) child) = Some (service_id_of n b)"
    using service_id_facts(2,3) [OF assms(1)] by (simp add: build_instance_id_def child_owner [simplified])
  then have "child_of (build_instance_id (service_id_of n b) child) =
      Some \<lparr>ce_service_id = service_id_of n b, ce_service_name = entity_service_name n, ce_name = child\<rparr>"
    using service_id_facts(1) [OF assms(1)] assms(2)
    by (simp add: child_of_def build_instance_id_def enc utf8_decode_id)
  then show ?thesis using assms(1) service_id_inject by (auto simp: build_instance_id_def build_endpoint_id_def)
qed

theorem entity_ids_roundtrip_witness:
  "map_option ce_name (child_of (build_instance_id (service_id_of ''cart'' True) ''pod-1'')) = Some ''pod-1''"
proof -
  have "well_formed ''cart''" "well_formed ''pod-1''" "js_trim ''pod-1'' \<noteq> []" by code_simp+
  from entity_ids_roundtrip [OF this, of True] show ?thesis by simp
qed

text \<open>The index of a catalog holds exactly the services its rows list, each under its own id and
  with exactly the canonical keys of the layers that list it.\<close>

theorem index_holds_rows:
  "case map_of (ix_by_id (index_of_catalog c)) sid of
     None \<Rightarrow> listed (sc_by_layer c) sid = {}
   | Some s \<Rightarrow> si_id s = sid \<and> set (si_layers s) = listed (sc_by_layer c) sid \<and> si_layers s \<noteq> []"
proof -
  note facts = index_by_id_facts [of "sc_by_layer c"]
  show ?thesis
  proof (cases "map_of (ix_by_id (index_of_catalog c)) sid")
    case None
    then show ?thesis using facts(1) [of sid] by (simp add: index_of_catalog_def Let_def layers_at_def)
  next
    case (Some s)
    then have "listed (sc_by_layer c) sid \<noteq> {}"
      using facts(2) [of sid] by (fastforce simp: index_of_catalog_def Let_def listed_def)
    then show ?thesis using Some facts(1) [of sid] facts(3)
      by (auto simp: index_of_catalog_def Let_def layers_at_def ids_ok_def)
  qed
qed

text \<open>An answer is asked for once.  Once a lookup under a trusted catalog has been answered, the
  same lookup, at any later time the catalog is still fresh and trusted and whatever OAP would now
  say, gives the same answer without asking about the service again.\<close>

theorem answer_asked_once:
  assumes "by_id oap now sid st = (Settled s, st1)" "read_catalog oap now st = (c, st0)" "trusted c now"
    and "catalog_fresh (rv_catalog st1) later" "trusted c later"
  shows "by_id oap' later sid st1 = (Settled s, st1\<lparr>rv_calls := Suc (rv_calls st1)\<rparr>)"
proof -
  have "cs_cached (rv_catalog st1) = Some c"
    using by_id_catalog [OF assms(1,2)] read_catalog_cached [OF assms(2)] by simp
  then have again: "read_catalog oap' later st1 = (c, st1\<lparr>rv_calls := Suc (rv_calls st1)\<rparr>)"
    using assms(4) by (rule read_catalog_fresh)
  have ver: "cs_version (rv_catalog st1) = cs_version (rv_catalog st0)" using by_id_catalog [OF assms(1,2)] by simp
  show ?thesis
  proof (cases "map_of (ix_by_id (index_of_catalog c)) sid")
    case (Some x)
    then have "s = Some x" using assms(1-3) by (simp add: by_id_def Let_def)
    with Some show ?thesis using assms(5) again by (simp add: by_id_def Let_def)
  next
    case None
    then have "map_of (rv_held st1) (cs_version (rv_catalog st1), sid) = Some s"
      using assms(1-3) ver by (auto simp: by_id_def ask_service_def hold_def Let_def split: option.splits)
    then show ?thesis using None again assms(5) by (simp add: by_id_def Let_def)
  qed
qed

theorem answer_asked_once_witness:
  "\<exists>st1. by_id \<lparr>ow_catalog = \<lambda>n. \<lparr>ca_layers = Some [], ca_rosters = \<lambda>l. None\<rparr>, ow_service = \<lambda>n i. Some None, ow_services = \<lambda>n i. None\<rparr>
     7 ''x.1'' \<lparr>rv_catalog = new_catalog_state, rv_held = [], rv_calls = 0\<rparr> = (Settled None, st1) \<and>
   fst (by_id \<lparr>ow_catalog = \<lambda>n. \<lparr>ca_layers = None, ca_rosters = \<lambda>l. None\<rparr>, ow_service = \<lambda>n i. None, ow_services = \<lambda>n i. None\<rparr>
     9 ''x.1'' st1) = Settled None"
proof -
  let ?w = "\<lparr>ow_catalog = \<lambda>n. \<lparr>ca_layers = Some [], ca_rosters = \<lambda>l. None\<rparr>, ow_service = \<lambda>n i. Some None, ow_services = \<lambda>n i. None\<rparr>"
  let ?w' = "\<lparr>ow_catalog = \<lambda>n. \<lparr>ca_layers = None, ca_rosters = \<lambda>l. None\<rparr>, ow_service = \<lambda>n i. None, ow_services = \<lambda>n i. None\<rparr>"
  let ?st = "\<lparr>rv_catalog = new_catalog_state, rv_held = [], rv_calls = 0\<rparr>"
  let ?cat = "\<lparr>cs_cached = Some (empty_catalog [] False), cs_last_fetch = 7, cs_version = 1\<rparr>"
  have read: "read_catalog ?w 7 ?st = (empty_catalog [] False, \<lparr>rv_catalog = ?cat, rv_held = [], rv_calls = 1\<rparr>)"
    by (simp add: read_catalog_def catalog_get_def new_catalog_state_def retain_rows_def refresh_catalog_def Let_def)
  have index: "index_of_catalog (empty_catalog [] False) = \<lparr>ix_by_id = [], ix_by_name = []\<rparr>"
    by (simp add: index_of_catalog_def empty_catalog_def index_by_id_def)
  have ok: "trusted (empty_catalog [] False) t" for t by (simp add: trusted_def empty_catalog_def)
  have first: "by_id ?w 7 ''x.1'' ?st = (Settled None, \<lparr>rv_catalog = ?cat, rv_held = [((1, ''x.1''), None)], rv_calls = 2\<rparr>)"
    by (simp add: by_id_def read index ok ask_service_def resolved_of_def hold_def)
  have "catalog_fresh ?cat 9" by (simp add: catalog_fresh_def empty_catalog_def catalog_ttl_def)
  then show ?thesis using answer_asked_once [OF first read ok _ ok, of 9 ?w'] first by simp
qed

lemma named_services_included:
  assumes "by_name oap now name None st = (Settled r, st')" "read_catalog oap now st = (c, st1)"
    and "trusted c now" "held_ok st"
    and "map_of (ix_by_id (index_of_catalog c)) (si_id s) = Some s"
    and "si_name s = name \<or> si_id s \<in> {service_id_of name True, service_id_of name False}"
  shows "\<exists>ss. r = Some ss \<and> s \<in> set ss"
proof -
  define known where "known = fold (\<lambda>s m. map_put (si_id s) s m)
      (case map_of (ix_by_name (index_of_catalog c)) name of Some ss \<Rightarrow> ss | None \<Rightarrow> []) []"
  define ids where "ids = filter (\<lambda>sid. map_of known sid = None) [service_id_of name True, service_id_of name False]"
  obtain rs st2 where all: "all_by_id oap now ids st1 = (rs, st2)" by (cases "all_by_id oap now ids st1")
  have "by_name oap now name None st =
      (case all_by_id oap now ids st1 of
         (Unavailable, st'') \<Rightarrow> (Unavailable, st'')
       | (Settled ss, st'') \<Rightarrow>
           (let k = fold (\<lambda>s m. case s of Some x \<Rightarrow> map_put (si_id x) x m | None \<Rightarrow> m) ss known in
            (Settled (if 0 < length k then Some (map snd k) else None), st'')))"
    by (simp only: by_name_def option.case assms(2) prod.case if_P [OF assms(3)] Let_def known_def ids_def)
  then obtain ss where ss: "rs = Settled ss"
    and r: "r = (let k = fold (\<lambda>s m. case s of Some x \<Rightarrow> map_put (si_id x) x m | None \<Rightarrow> m) ss known in
                 if 0 < length k then Some (map snd k) else None)"
    using assms(1) all by (cases rs) (auto simp: Let_def)
  note named = named_services [OF assms(5), of name, folded known_def]
  have held: "held_ok st1" using assms(2,4) held_ok_read by blast
  note answers = all_by_id_answers [OF assms(2,3) all [unfolded ss] refl held]
  have "map_of known (si_id s) = Some s \<or> (Some s \<in> set ss \<and> si_id s = si_id s)"
  proof (cases "map_of known (si_id s)")
    case None
    then have "si_id s \<in> set ids" using assms(6) named(1) by (auto simp: ids_def)
    then show ?thesis using all_by_id_listed [OF assms(2,3) all [unfolded ss] refl _ assms(5)] by simp
  qed (use named(2) in auto)
  moreover have "\<forall>x. Some x \<in> set ss \<and> si_id x = si_id s \<longrightarrow> x = s" using answers assms(5) by auto
  ultimately have "map_of (fold (\<lambda>s m. case s of Some x \<Rightarrow> map_put (si_id x) x m | None \<Rightarrow> m) ss known) (si_id s) = Some s"
    by (intro fold_put_answers)
  then have "s \<in> snd ` set (fold (\<lambda>s m. case s of Some x \<Rightarrow> map_put (si_id x) x m | None \<Rightarrow> m) ss known)"
    by (force dest: map_of_SomeD)
  then show ?thesis unfolding r Let_def by (cases "fold (\<lambda>s m. case s of Some x \<Rightarrow> map_put (si_id x) x m | None \<Rightarrow> m) ss known") simp_all
qed

text \<open>C37: a name stands for every service it can mean.  Where the trusted catalog lists a service
  under the name, or under either id the name addresses, a settled lookup of the name without a
  \<open>normal\<close> flag includes it.\<close>

theorem by_name_covers:
  assumes "by_name oap now name None st = (Settled r, st')" "read_catalog oap now st = (c, st1)"
    and "trusted c now" "held_ok st"
    and "map_of (ix_by_id (index_of_catalog c)) (si_id s) = Some s"
    and "si_name s = name \<or> si_id s \<in> {service_id_of name True, service_id_of name False}"
  shows "\<exists>ss. r = Some ss \<and> s \<in> set ss"
  by (rule named_services_included [OF assms])

theorem by_name_covers_witness:
  "\<exists>r st'. by_name \<lparr>ow_catalog = \<lambda>n. \<lparr>ca_layers = Some [''MESH''], ca_rosters = \<lambda>l. Some (\<lambda>i. Some
        [\<lparr>raw_id = ''y.1'', raw_name = ''cart'', raw_normal = Some True, raw_group = None\<rparr>])\<rparr>,
      ow_service = \<lambda>n i. Some None, ow_services = \<lambda>n i. None\<rparr> 7 ''cart'' None
      \<lparr>rv_catalog = new_catalog_state, rv_held = [], rv_calls = 0\<rparr> = (Settled r, st') \<and>
    (\<exists>ss. r = Some ss \<and> \<lparr>si_id = ''y.1'', si_name = ''cart'', si_normal = Some True, si_group = [], si_layers = [''MESH'']\<rparr> \<in> set ss)"
proof -
  let ?w = "\<lparr>ow_catalog = \<lambda>n. \<lparr>ca_layers = Some [''MESH''], ca_rosters = \<lambda>l. Some (\<lambda>i. Some
        [\<lparr>raw_id = ''y.1'', raw_name = ''cart'', raw_normal = Some True, raw_group = None\<rparr>])\<rparr>,
      ow_service = \<lambda>n i. Some None, ow_services = \<lambda>n i. None\<rparr>"
  let ?st = "\<lparr>rv_catalog = new_catalog_state, rv_held = [], rv_calls = 0\<rparr>"
  let ?s = "\<lparr>si_id = ''y.1'', si_name = ''cart'', si_normal = Some True, si_group = [], si_layers = [''MESH'']\<rparr>"
  obtain r st' where run: "by_name ?w 7 ''cart'' None ?st = (Settled r, st')"
    using by_name_settles [of ?w 7 "''cart''" None ?st] by auto
  obtain c st1 where read: "read_catalog ?w 7 ?st = (c, st1)" by (cases "read_catalog ?w 7 ?st")
  have "trusted (fst (read_catalog ?w 7 ?st)) 7" by code_simp
  then have t: "trusted c 7" using read by simp
  have "map_of (ix_by_id (index_of_catalog (fst (read_catalog ?w 7 ?st)))) ''y.1'' = Some ?s" by code_simp
  then have m: "map_of (ix_by_id (index_of_catalog c)) (si_id ?s) = Some ?s" using read by simp
  have "held_ok ?st" by (simp add: held_ok_def)
  then show ?thesis using by_name_covers [OF run read t _ m] run by auto
qed

text \<open>The ids built from typed names and those the access checks compute disagree on some blank
  names: \<open>trim()\<close> also drops a no-break space, which OAP keeps, and keeps a control character, which
  OAP drops.\<close>

theorem typed_blank_ids_differ:
  "build_service_id [CHR 0xC2, CHR 0xA0] True \<noteq> service_id_of [CHR 0xC2, CHR 0xA0] True \<and>
   build_service_id [CHR 0x01] True \<noteq> service_id_of [CHR 0x01] True \<and>
   build_service_id [] True = service_id_of [] True"
  by code_simp

end
