(* ===== verification/RequestAccess.thy ===== *)
theory RequestAccess
  imports ServiceIdentity
begin

text \<open>
  One request's answer to "may this caller read that": \<open>apps/bff/src/rbac/request-access.ts\<close>.  A
  request threads its memo of resolved references and the state behind the resolver; OAP and the
  clock are arguments.  \<^const>\<open>Unavailable\<close> is the thrown \<open>ServiceLookupUnavailable\<close>.
\<close>

datatype service_ref =
    ById string
  | ByName string "bool option"
  | ByChild string
  | ByIdOrName string

datatype resolution = ResFound "service_identity list" | ResUnknown | ResUnavailable

datatype decision = Allow | Deny | Outage

record graph_reach =
  gr_readable :: "string list"
  gr_unavailable :: "string list"

subsection \<open>Metrics read by name alone\<close>

text \<open>\<open>/\bbaseline\s*\(/\<close>, from a position whose previous character is given.\<close>

fun name_only_from :: "char option \<Rightarrow> string \<Rightarrow> bool" where
  "name_only_from prev [] = False"
| "name_only_from prev (c # s) =
     ((case prev of None \<Rightarrow> True | Some p \<Rightarrow> \<not> is_word_char p) \<and> prefix ''baseline'' (c # s) \<and>
        prefix ''('' (strip_forms ws_forms (drop 8 (c # s))) \<or>
      name_only_from (Some c) s)"

definition name_only_mqe :: "string \<Rightarrow> bool" where
  "name_only_mqe e = name_only_from None e"

definition reads_by_name_only :: "string list \<Rightarrow> bool" where
  "reads_by_name_only expressions = list_ex name_only_mqe expressions"

definition is_name_only_metric :: "json \<Rightarrow> bool" where
  "is_name_only_metric v = (case get_field ''mqe'' v of Some (JStr mqe) \<Rightarrow> name_only_mqe mqe | _ \<Rightarrow> False)"

fun has_name_only_metric :: "json \<Rightarrow> bool" where
  "has_name_only_metric (JArr vs) = list_ex has_name_only_metric vs"
| "has_name_only_metric (JObj ms) =
     (is_name_only_metric (JObj ms) \<or> list_ex (\<lambda>m. has_name_only_metric (snd m)) ms)"
| "has_name_only_metric v = False"

fun without_name_only_metrics :: "json \<Rightarrow> json" where
  "without_name_only_metrics (JArr vs) =
     JArr (map snd (filter (\<lambda>(x, y). \<not> is_name_only_metric x) (map (\<lambda>x. (x, without_name_only_metrics x)) vs)))"
| "without_name_only_metrics (JObj ms) = JObj (map (\<lambda>m. (fst m, without_name_only_metrics (snd m))) ms)"
| "without_name_only_metrics v = v"

subsection \<open>Exact identities\<close>

definition service_id_form :: "string \<Rightarrow> bool" where
  "service_id_form s =
     (case split_on CHR ''.'' s of
        [p, d] \<Rightarrow> p \<noteq> [] \<and> list_all (\<lambda>c. is_alnum c \<or> c \<in> {CHR ''+'', CHR ''/'', CHR ''=''}) p \<and> d \<in> {''0'', ''1''}
      | _ \<Rightarrow> False)"

definition is_exact_identity :: "string \<Rightarrow> bool" where
  "is_exact_identity v \<longleftrightarrow>
     v \<noteq> [] \<and> v = js_trim v \<and> list_all (\<lambda>c. 32 \<le> (of_char c :: nat) \<and> c \<noteq> CHR 0x7F) v \<and> no_surrogate v"

subsection \<open>The session's side\<close>

definition menu_shows :: "session_access \<Rightarrow> string \<Rightarrow> string option \<Rightarrow> bool" where
  "menu_shows sa layer grp =
     (if \<not> has_layer_grants sa then \<not> is_operate sa layer \<or> plain sa ''cluster:read''
      else (case on_layer_any sa layer_page_verbs layer of
              None \<Rightarrow> False
            | Some reach \<Rightarrow> lr_whole reach \<or> (case grp of None \<Rightarrow> True | Some g \<Rightarrow> g \<in> set (lr_groups reach))))"

definition reads_every_layer :: "session_access \<Rightarrow> verb list \<Rightarrow> bool" where
  "reads_every_layer sa verbs \<longleftrightarrow> list_ex (plain sa) verbs \<and> plain sa ''cluster:read''"

definition all_layer_limited :: "session_access \<Rightarrow> verb list \<Rightarrow> bool" where
  "all_layer_limited sa verbs = list_all (layer_limited sa) verbs"

definition blank_is_out_of_reach :: "session_access \<Rightarrow> verb list \<Rightarrow> string option \<Rightarrow> bool" where
  "blank_is_out_of_reach sa verbs name =
     (case name of None \<Rightarrow> False | Some n \<Rightarrow> is_blank_to_oap n \<and> all_layer_limited sa verbs)"

definition allows_resolved :: "session_access \<Rightarrow> verb list \<Rightarrow> service_identity \<Rightarrow> bool" where
  "allows_resolved sa verbs s =
     (if blank_is_out_of_reach sa verbs (Some (si_name s)) then False else on_service_any sa verbs s)"

definition filter_roster ::
  "session_access \<Rightarrow> verb list \<Rightarrow> string \<Rightarrow> ('a \<Rightarrow> string option) \<Rightarrow> ('a \<Rightarrow> string option) \<Rightarrow> 'a list \<Rightarrow> 'a list" where
  "filter_roster sa verbs layer name_of group_of rows =
     (case on_layer_any sa verbs layer of
        None \<Rightarrow> []
      | Some reach \<Rightarrow>
          (let named = filter (\<lambda>r. \<not> blank_is_out_of_reach sa verbs (name_of r)) rows in
           if lr_whole reach then named
           else filter (\<lambda>r. or_empty (group_of r) \<in> set (lr_groups reach)) named))"

subsection \<open>Resolving a reference\<close>

record request_state =
  rq_resolved :: "(service_ref, resolution) jsmap"
  rq_resolver :: resolver

definition one_found :: "service_identity option lookup \<Rightarrow> resolution" where
  "one_found r = (case r of Unavailable \<Rightarrow> ResUnavailable | Settled None \<Rightarrow> ResUnknown | Settled (Some s) \<Rightarrow> ResFound [s])"

definition many_found :: "service_identity list option lookup \<Rightarrow> resolution" where
  "many_found r =
     (case r of
        Unavailable \<Rightarrow> ResUnavailable
      | Settled None \<Rightarrow> ResUnknown
      | Settled (Some ss) \<Rightarrow> if 0 < length ss then ResFound ss else ResUnknown)"

definition lookup_ref :: "oap_world \<Rightarrow> nat \<Rightarrow> service_ref \<Rightarrow> resolver \<Rightarrow> resolution \<times> resolver" where
  "lookup_ref oap now ref st =
     (case ref of
        ById sid \<Rightarrow>
          if is_blank_to_oap sid then (ResUnknown, st)
          else (case by_id oap now sid st of (r, st') \<Rightarrow> (one_found r, st'))
      | ByChild child \<Rightarrow>
          if is_blank_to_oap child then (ResUnknown, st)
          else (case service_id_of_child child of
                  None \<Rightarrow> (ResUnknown, st)
                | Some owner \<Rightarrow> (case by_id oap now owner st of (r, st') \<Rightarrow> (one_found r, st')))
      | ByIdOrName x \<Rightarrow>
          (let by_n = (\<lambda>st. case by_name oap now (entity_service_name x) None st of (r, st') \<Rightarrow> (many_found r, st')) in
           if service_id_form x then
             (case by_id oap now x st of
                (Unavailable, st') \<Rightarrow> (ResUnavailable, st')
              | (Settled (Some s), st') \<Rightarrow> (ResFound [s], st')
              | (Settled None, st') \<Rightarrow> by_n st')
           else by_n st)
      | ByName name normal \<Rightarrow>
          (case by_name oap now (entity_service_name name) normal st of (r, st') \<Rightarrow> (many_found r, st')))"

definition resolve_ref :: "oap_world \<Rightarrow> nat \<Rightarrow> service_ref \<Rightarrow> request_state \<Rightarrow> resolution \<times> request_state" where
  "resolve_ref oap now ref st =
     (case map_of (rq_resolved st) ref of
        Some r \<Rightarrow> (r, st)
      | None \<Rightarrow>
          (case lookup_ref oap now ref (rq_resolver st) of
             (r, rv) \<Rightarrow> (r, st\<lparr>rq_resolved := map_put ref r (rq_resolved st), rq_resolver := rv\<rparr>)))"

definition ids_of_ref :: "service_ref \<Rightarrow> string list" where
  "ids_of_ref ref =
     (case ref of
        ById sid \<Rightarrow> if is_blank_to_oap sid then [] else [sid]
      | ByName name (Some normal) \<Rightarrow> [service_id_of name normal]
      | ByName name None \<Rightarrow> [service_id_of name True, service_id_of name False]
      | ByChild child \<Rightarrow>
          if is_blank_to_oap child then []
          else (case service_id_of_child child of Some owner \<Rightarrow> [owner] | None \<Rightarrow> [])
      | ByIdOrName x \<Rightarrow> [])"

definition prefetch_refs :: "oap_world \<Rightarrow> nat \<Rightarrow> service_ref list \<Rightarrow> request_state \<Rightarrow> request_state" where
  "prefetch_refs oap now refs st =
     st\<lparr>rq_resolver := prefetch_ids oap now (concat (map ids_of_ref refs)) (rq_resolver st)\<rparr>"

subsection \<open>Deciding\<close>

definition decision_of :: "session_access \<Rightarrow> verb list \<Rightarrow> resolution \<Rightarrow> decision" where
  "decision_of sa verbs r =
     (case r of
        ResUnavailable \<Rightarrow> Outage
      | ResUnknown \<Rightarrow> if list_ex (plain sa) verbs then Allow else Deny
      | ResFound ss \<Rightarrow> if list_all (allows_resolved sa verbs) ss then Allow else Deny)"

definition decide ::
  "oap_world \<Rightarrow> nat \<Rightarrow> session_access \<Rightarrow> verb list \<Rightarrow> service_ref \<Rightarrow> request_state \<Rightarrow> decision \<times> request_state" where
  "decide oap now sa verbs ref st =
     (case resolve_ref oap now ref st of (r, st') \<Rightarrow> (decision_of sa verbs r, st'))"

definition allows ::
  "oap_world \<Rightarrow> nat \<Rightarrow> session_access \<Rightarrow> verb list \<Rightarrow> service_ref \<Rightarrow> request_state \<Rightarrow> bool \<times> request_state" where
  "allows oap now sa verbs ref st = (case decide oap now sa verbs ref st of (d, st') \<Rightarrow> (d = Allow, st'))"

fun sort_refs ::
  "oap_world \<Rightarrow> nat \<Rightarrow> session_access \<Rightarrow> verb list \<Rightarrow> (string \<Rightarrow> service_ref) \<Rightarrow> string list \<Rightarrow> graph_reach \<Rightarrow>
   request_state \<Rightarrow> graph_reach \<times> request_state" where
  "sort_refs oap now sa verbs ref [] g st = (g, st)"
| "sort_refs oap now sa verbs ref (x # xs) g st =
     (case decide oap now sa verbs (ref x) st of
        (d, st') \<Rightarrow>
          sort_refs oap now sa verbs ref xs
            (case d of
               Allow \<Rightarrow> g\<lparr>gr_readable := gr_readable g @ [x]\<rparr>
             | Outage \<Rightarrow> g\<lparr>gr_unavailable := gr_unavailable g @ [x]\<rparr>
             | Deny \<Rightarrow> g) st')"

definition readable_ids ::
  "oap_world \<Rightarrow> nat \<Rightarrow> session_access \<Rightarrow> verb list \<Rightarrow> string list \<Rightarrow> request_state \<Rightarrow> graph_reach \<times> request_state" where
  "readable_ids oap now sa verbs ids st =
     sort_refs oap now sa verbs ById ids \<lparr>gr_readable = [], gr_unavailable = []\<rparr>
       (prefetch_refs oap now (map ById ids) st)"

definition readable_names ::
  "oap_world \<Rightarrow> nat \<Rightarrow> session_access \<Rightarrow> verb list \<Rightarrow> string list \<Rightarrow> request_state \<Rightarrow> graph_reach \<times> request_state" where
  "readable_names oap now sa verbs names st =
     (let unique = dedup (map entity_service_name names) in
      sort_refs oap now sa verbs (\<lambda>n. ByName n None) unique \<lparr>gr_readable = [], gr_unavailable = []\<rparr>
        (prefetch_refs oap now (map (\<lambda>n. ByName n None) unique) st))"

text \<open>The checks handed to a graph builder; none when the caller reads every layer.\<close>

definition graph_readable :: "session_access \<Rightarrow> verb list \<Rightarrow> bool" where
  "graph_readable sa verbs \<longleftrightarrow> \<not> reads_every_layer sa verbs"

text \<open>Whether every name of every focus is readable.\<close>

fun focus_names ::
  "oap_world \<Rightarrow> nat \<Rightarrow> session_access \<Rightarrow> verb list \<Rightarrow> service_identity list \<Rightarrow> request_state \<Rightarrow>
   bool lookup \<times> request_state" where
  "focus_names oap now sa verbs [] st = (Settled True, st)"
| "focus_names oap now sa verbs (s # ss) st =
     (case decide oap now sa verbs (ByName (entity_service_name (si_name s)) None) st of
        (Outage, st') \<Rightarrow> (Unavailable, st')
      | (Deny, st') \<Rightarrow> (Settled False, st')
      | (Allow, st') \<Rightarrow> focus_names oap now sa verbs ss st')"

fun focus_readable ::
  "oap_world \<Rightarrow> nat \<Rightarrow> session_access \<Rightarrow> verb list \<Rightarrow> string list \<Rightarrow> request_state \<Rightarrow> bool lookup \<times> request_state" where
  "focus_readable oap now sa verbs [] st = (Settled True, st)"
| "focus_readable oap now sa verbs (i # ids) st =
     (case resolve_ref oap now (ById i) st of
        (ResUnavailable, st') \<Rightarrow> (Unavailable, st')
      | (ResUnknown, st') \<Rightarrow> (Settled False, st')
      | (ResFound ss, st') \<Rightarrow>
          (case focus_names oap now sa verbs ss st' of
             (Unavailable, st'') \<Rightarrow> (Unavailable, st'')
           | (Settled False, st'') \<Rightarrow> (Settled False, st'')
           | (Settled True, st'') \<Rightarrow> focus_readable oap now sa verbs ids st''))"

definition graph_config ::
  "oap_world \<Rightarrow> nat \<Rightarrow> session_access \<Rightarrow> verb list \<Rightarrow> string list \<Rightarrow> json \<Rightarrow> request_state \<Rightarrow> json lookup \<times> request_state" where
  "graph_config oap now sa verbs focus_ids cfg st =
     (if \<not> has_name_only_metric cfg \<or> reads_every_layer sa verbs then (Settled cfg, st)
      else (let strip = without_name_only_metrics cfg in
        if length focus_ids = 0 then (Settled strip, st)
        else (case focus_readable oap now sa verbs focus_ids st of
                (Unavailable, st') \<Rightarrow> (Unavailable, st')
              | (Settled ok, st') \<Rightarrow> (Settled (if ok then cfg else strip), st'))))"

fun keep_rows ::
  "oap_world \<Rightarrow> nat \<Rightarrow> session_access \<Rightarrow> verb list \<Rightarrow> ('a \<Rightarrow> service_ref) \<Rightarrow> 'a list \<Rightarrow> request_state \<Rightarrow>
   'a list lookup \<times> request_state" where
  "keep_rows oap now sa verbs ref_of [] st = (Settled [], st)"
| "keep_rows oap now sa verbs ref_of (row # rows) st =
     (case decide oap now sa verbs (ref_of row) st of
        (Outage, st') \<Rightarrow> (Unavailable, st')
      | (d, st') \<Rightarrow>
          (case keep_rows oap now sa verbs ref_of rows st' of
             (Unavailable, st'') \<Rightarrow> (Unavailable, st'')
           | (Settled out, st'') \<Rightarrow> (Settled (if d = Allow then row # out else out), st'')))"

definition keep_readable ::
  "oap_world \<Rightarrow> nat \<Rightarrow> session_access \<Rightarrow> verb list \<Rightarrow> ('a \<Rightarrow> service_ref) \<Rightarrow> 'a list \<Rightarrow> request_state \<Rightarrow>
   'a list lookup \<times> request_state" where
  "keep_readable oap now sa verbs ref_of rows st =
     (if reads_every_layer sa verbs then (Settled rows, st) else keep_rows oap now sa verbs ref_of rows st)"

definition service_ref_from_name :: "string \<Rightarrow> bool option \<Rightarrow> service_ref" where
  "service_ref_from_name name normal =
     (case normal of None \<Rightarrow> ByName name None | Some b \<Rightarrow> ById (service_id_of name b))"

definition build_request_access :: "horizon_config \<Rightarrow> verb_subject \<Rightarrow> (string \<Rightarrow> bool) \<Rightarrow> session_access" where
  "build_request_access cfg subject operate =
     new_session_access (verbs_of cfg (subject_roles subject)) (subject_cap subject) (code_facts operate)"

subsection \<open>The memo\<close>

definition memo_extends :: "request_state \<Rightarrow> request_state \<Rightarrow> bool" where
  "memo_extends st st' \<longleftrightarrow> (\<forall>ref r. map_of (rq_resolved st) ref = Some r \<longrightarrow> map_of (rq_resolved st') ref = Some r)"

lemma memo_extends_refl [simp]: "memo_extends st st"
  by (simp add: memo_extends_def)

lemma memo_extends_trans: "memo_extends st st' \<Longrightarrow> memo_extends st' st'' \<Longrightarrow> memo_extends st st''"
  by (simp add: memo_extends_def)

lemma resolve_memo:
  assumes "resolve_ref oap now ref st = (r, st')"
  shows "memo_extends st st' \<and> map_of (rq_resolved st') ref = Some r"
  using assms by (auto simp: resolve_ref_def memo_extends_def split: option.splits prod.splits)

lemma resolve_known: "map_of (rq_resolved st) ref = Some r \<Longrightarrow> resolve_ref oap now ref st = (r, st)"
  by (simp add: resolve_ref_def)

lemma decide_memo:
  assumes "decide oap now sa verbs ref st = (d, st')"
  shows "memo_extends st st' \<and> (\<exists>r. map_of (rq_resolved st') ref = Some r \<and> d = decision_of sa verbs r)"
proof -
  obtain r st1 where "resolve_ref oap now ref st = (r, st1)" by (cases "resolve_ref oap now ref st")
  with assms resolve_memo [OF this] show ?thesis by (auto simp: decide_def)
qed

lemma decide_known:
  "map_of (rq_resolved st) ref = Some r \<Longrightarrow> decide oap now sa verbs ref st = (decision_of sa verbs r, st)"
  by (simp add: decide_def resolve_known)

lemma decide_again:
  assumes "decide oap now sa verbs ref st = (d, st1)" "memo_extends st1 st2"
  shows "decide oap' now' sa verbs ref st2 = (d, st2)"
  using decide_memo [OF assms(1)] assms(2) decide_known [of st2 ref] by (auto simp: memo_extends_def)

lemma prefetch_memo [simp]: "rq_resolved (prefetch_refs oap now refs st) = rq_resolved st"
  by (simp add: prefetch_refs_def)

lemma keep_rows_sound:
  assumes "keep_rows oap now sa verbs ref_of rows st = (Settled out, st')"
  shows "memo_extends st st' \<and> out = filter (\<lambda>row. fst (decide oap' now' sa verbs (ref_of row) st') = Allow) rows \<and>
    (\<forall>row \<in> set rows. fst (decide oap' now' sa verbs (ref_of row) st') \<noteq> Outage)"
  using assms
proof (induction rows arbitrary: st out)
  case (Cons row rows)
  obtain d st1 where d: "decide oap now sa verbs (ref_of row) st = (d, st1)"
    by (cases "decide oap now sa verbs (ref_of row) st")
  obtain k st2 where k: "keep_rows oap now sa verbs ref_of rows st1 = (k, st2)"
    by (cases "keep_rows oap now sa verbs ref_of rows st1")
  from Cons.prems d k obtain rest where rest: "k = Settled rest" "st2 = st'" "d \<noteq> Outage"
    "out = (if d = Allow then row # rest else rest)"
    by (auto split: decision.splits lookup.splits)
  note IH = Cons.IH [OF k [unfolded rest(1,2)]]
  have "decide oap' now' sa verbs (ref_of row) st' = (d, st')" using decide_again [OF d] IH by blast
  moreover have "memo_extends st st'" using decide_memo [OF d] IH memo_extends_trans by blast
  ultimately show ?case using IH rest by simp
qed simp

subsection \<open>What a decision means\<close>

lemma decision_outage_iff: "decision_of sa verbs r = Outage \<longleftrightarrow> r = ResUnavailable"
  by (auto simp: decision_of_def split: resolution.splits)

lemma plain_reach_all:
  assumes "plain (new_session_access grants cap facts) v" "plain (new_session_access grants cap facts) ''cluster:read''" "v \<in> set verbs"
  shows "on_service_any (new_session_access grants cap facts) verbs s"
    and "on_layer_any (new_session_access grants cap facts) verbs l = Some whole_reach"
proof -
  show "on_service_any (new_session_access grants cap facts) verbs s"
  proof (cases "si_layers s = []")
    case True
    then show ?thesis unfolding service_access_cases using assms by (auto simp: plain_iff)
  next
    case False
    then obtain l where "l \<in> set (si_layers s)" by (cases "si_layers s") auto
    with False show ?thesis unfolding service_access_cases using assms by (auto simp: plain_iff)
  qed
  have "on_layer (new_session_access grants cap facts) v l = Some whole_reach"
    using assms by (simp add: on_layer_def plain_iff Let_def)
  moreover have "merge_reach rs acc = Some whole_reach" if "Some whole_reach \<in> set rs" for rs acc
    using that by (induction rs acc rule: merge_reach.induct) (auto simp: whole_reach_def split: option.splits)
  ultimately show "on_layer_any (new_session_access grants cap facts) verbs l = Some whole_reach"
    using assms(3) by (force simp: on_layer_any_def)
qed

lemma reads_every_layer_iff:
  "reads_every_layer sa verbs \<longleftrightarrow> (\<exists>v \<in> set verbs. plain sa v) \<and> plain sa ''cluster:read''"
  by (simp add: reads_every_layer_def list_ex_iff)

lemma reads_every_layer_allows:
  assumes "reads_every_layer (new_session_access grants cap facts) verbs"
  shows "decision_of (new_session_access grants cap facts) verbs r \<noteq> Deny"
    and "allows_resolved (new_session_access grants cap facts) verbs s"
proof -
  from assms obtain v where v: "v \<in> set verbs" "plain (new_session_access grants cap facts) v"
    "plain (new_session_access grants cap facts) ''cluster:read''" by (auto simp: reads_every_layer_iff)
  then have "\<not> all_layer_limited (new_session_access grants cap facts) verbs"
    by (auto simp: all_layer_limited_def layer_limited_def list_all_iff)
  then have ok: "allows_resolved (new_session_access grants cap facts) verbs s" for s
    using plain_reach_all(1) [OF v(2,3,1)] by (simp add: allows_resolved_def blank_is_out_of_reach_def)
  then show "allows_resolved (new_session_access grants cap facts) verbs s" .
  show "decision_of (new_session_access grants cap facts) verbs r \<noteq> Deny"
    using v ok by (auto simp: decision_of_def list_ex_iff list_all_iff split: resolution.splits if_splits)
qed

text \<open>Every metric definition is an element of a list, which is where the graph blocks keep them.\<close>

fun metrics_in_lists :: "json \<Rightarrow> bool" where
  "metrics_in_lists (JArr vs) = list_all metrics_in_lists vs"
| "metrics_in_lists (JObj ms) =
     list_all (\<lambda>m. metrics_in_lists (snd m) \<and> \<not> is_name_only_metric (snd m)) ms"
| "metrics_in_lists v = True"

lemma without_keeps_mqe: "is_name_only_metric (without_name_only_metrics v) = is_name_only_metric v"
proof (cases v)
  case (JObj ms)
  have "map_of (map (\<lambda>m. (fst m, without_name_only_metrics (snd m))) ms) k = map_option without_name_only_metrics (map_of ms k)" for k
    by (induction ms) auto
  then show ?thesis using JObj
    by (auto simp: is_name_only_metric_def split: option.splits json.splits)
qed (simp_all add: is_name_only_metric_def)

lemma strip_removes: "metrics_in_lists v \<Longrightarrow> \<not> is_name_only_metric v \<Longrightarrow> \<not> has_name_only_metric (without_name_only_metrics v)"
proof (induction v)
  case (JArr vs)
  then show ?case by (auto simp: list_all_iff list_ex_iff)
next
  case (JObj ms)
  have "\<not> is_name_only_metric (without_name_only_metrics (JObj ms))"
    using JObj.prems(2) by (simp only: without_keeps_mqe) simp
  moreover have "\<not> has_name_only_metric (without_name_only_metrics (snd m))" if "m \<in> set ms" for m
    using that JObj by (cases m) (auto simp: list_all_iff snds.simps)
  ultimately show ?case by (auto simp: list_ex_iff)
qed simp_all

subsection \<open>Properties\<close>

text \<open>One request, one answer.  Once a reference has been decided in a request, every later
  decision about it, with the same verbs and after any other decisions, is the same, whatever OAP
  has come to say since.\<close>

theorem request_decides_once:
  "fst (decide oap' now' sa verbs ref (snd (sort_refs oap now sa verbs' mk xs g (snd (decide oap now sa verbs ref st))))) =
   fst (decide oap now sa verbs ref st)"
proof -
  have "memo_extends st (snd (sort_refs oap now sa verbs' mk xs g st))" for xs g st
  proof (induction xs arbitrary: g st)
    case (Cons x xs)
    obtain d' st' where d': "decide oap now sa verbs' (mk x) st = (d', st')" by (cases "decide oap now sa verbs' (mk x) st")
    then show ?case using decide_memo [OF d'] Cons.IH memo_extends_trans by fastforce
  qed simp
  then show ?thesis using decide_again [of oap now sa verbs ref st] by (cases "decide oap now sa verbs ref st") simp
qed



text \<open>Naming a service by name alone needs every service of that name.  In a request that has not
  met the name yet, an allowed name means the caller reads each service the trusted catalog lists
  under it or under either of its two ids, the real and the conjectured one.\<close>

theorem allowed_name_covers_namesakes:
  assumes "decide oap now sa verbs (ByName name None) st = (Allow, st')"
    and "map_of (rq_resolved st) (ByName name None) = None" "held_ok (rq_resolver st)"
    and "read_catalog oap now (rq_resolver st) = (c, rv)" "trusted c now"
    and "map_of (ix_by_id (index_of_catalog c)) (si_id s) = Some s"
    and "si_name s = entity_service_name name \<or> si_id s \<in> {service_id_of name True, service_id_of name False}"
  shows "on_service_any sa verbs s"
proof -
  have ids: "service_id_of (entity_service_name name) b = service_id_of name b" for b
    by (simp add: service_id_of_def)
  obtain r rv' where n: "by_name oap now (entity_service_name name) None (rq_resolver st) = (r, rv')"
    by (cases "by_name oap now (entity_service_name name) None (rq_resolver st)")
  have look: "lookup_ref oap now (ByName name None) (rq_resolver st) = (many_found r, rv')"
    by (simp add: lookup_ref_def n)
  have dec: "decision_of sa verbs (many_found r) = Allow"
    using assms(1,2) look by (auto simp: decide_def resolve_ref_def)
  show ?thesis
  proof (cases r)
    case Unavailable
    with dec show ?thesis by (simp add: many_found_def decision_of_def)
  next
    case (Settled x)
    obtain ss where "x = Some ss" "s \<in> set ss"
      using named_services_included [OF n [unfolded Settled] assms(4,5,3,6)] assms(7) ids by auto
    with dec Settled show ?thesis
      by (auto simp: many_found_def decision_of_def list_all_iff allows_resolved_def split: if_splits)
  qed
qed

theorem allowed_name_covers_namesakes_witness:
  "on_service_any (new_session_access [''*''] None (code_facts (\<lambda>l. False))) [''logs:read'']
     \<lparr>si_id = ''y.1'', si_name = ''cart'', si_normal = Some True, si_group = [], si_layers = [''MESH'']\<rparr>"
proof -
  let ?w = "\<lparr>ow_catalog = \<lambda>n. \<lparr>ca_layers = Some [''MESH''], ca_rosters = \<lambda>l. Some (\<lambda>i. Some
        [\<lparr>raw_id = ''y.1'', raw_name = ''cart'', raw_normal = Some True, raw_group = None\<rparr>])\<rparr>,
      ow_service = \<lambda>n i. Some None, ow_services = \<lambda>n i. None\<rparr>"
  let ?rv = "\<lparr>rv_catalog = new_catalog_state, rv_held = [], rv_calls = 0\<rparr>"
  let ?st = "\<lparr>rq_resolved = [], rq_resolver = ?rv\<rparr>"
  let ?sa = "new_session_access [''*''] None (code_facts (\<lambda>l. False))"
  let ?s = "\<lparr>si_id = ''y.1'', si_name = ''cart'', si_normal = Some True, si_group = [], si_layers = [''MESH'']\<rparr>"
  have all: "reads_every_layer ?sa [''logs:read'']" by code_simp
  obtain d st' where d: "decide ?w 7 ?sa [''logs:read''] (ByName ''cart'' None) ?st = (d, st')"
    by (cases "decide ?w 7 ?sa [''logs:read''] (ByName ''cart'' None) ?st")
  obtain r rv' where "by_name ?w 7 (entity_service_name ''cart'') None ?rv = (Settled r, rv')"
    using by_name_settles [of ?w 7 "entity_service_name ''cart''" None ?rv] by auto
  then have dec: "d = decision_of ?sa [''logs:read''] (many_found (Settled r))"
    using d by (auto simp: decide_def resolve_ref_def lookup_ref_def)
  have "d \<noteq> Deny" unfolding dec by (rule reads_every_layer_allows(1) [OF all])
  moreover have "d \<noteq> Outage"
    unfolding dec decision_outage_iff by (simp add: many_found_def split: option.split)
  ultimately have "d = Allow" by (cases d) simp_all
  obtain c rv1 where read: "read_catalog ?w 7 ?rv = (c, rv1)" by (cases "read_catalog ?w 7 ?rv")
  have "trusted (fst (read_catalog ?w 7 ?rv)) 7" by code_simp
  then have t: "trusted c 7" using read by simp
  have "map_of (ix_by_id (index_of_catalog (fst (read_catalog ?w 7 ?rv)))) ''y.1'' = Some ?s" by code_simp
  then have m: "map_of (ix_by_id (index_of_catalog c)) (si_id ?s) = Some ?s" using read by simp
  have "held_ok ?rv" by (simp add: held_ok_def)
  then show ?thesis
    using allowed_name_covers_namesakes [OF d [unfolded \<open>d = Allow\<close>] _ _ _ t m] read
    by (simp add: entity_service_name_def is_blank_to_oap_def)
qed

text \<open>Filtering rows by reading each.  When the rows of a read are kept at all, they are exactly
  the rows the request allows, in their order, and OAP answered about every one of them; a caller
  who reads every layer keeps them all, which is what deciding each would have given.\<close>

theorem kept_rows_are_allowed:
  assumes "keep_readable oap now (new_session_access grants cap facts) verbs ref_of rows st = (Settled out, st')"
  shows "if reads_every_layer (new_session_access grants cap facts) verbs
    then out = rows \<and> (\<forall>row \<in> set rows. fst (decide oap now (new_session_access grants cap facts) verbs (ref_of row) st') \<noteq> Deny)
    else out = filter (\<lambda>row. fst (decide oap now (new_session_access grants cap facts) verbs (ref_of row) st') = Allow) rows \<and>
      (\<forall>row \<in> set rows. fst (decide oap now (new_session_access grants cap facts) verbs (ref_of row) st') \<noteq> Outage)"
proof (cases "reads_every_layer (new_session_access grants cap facts) verbs")
  case True
  then show ?thesis using assms reads_every_layer_allows(1) [OF True]
    by (auto simp: keep_readable_def decide_def split: prod.splits)
next
  case False
  then show ?thesis using assms keep_rows_sound [of oap now "new_session_access grants cap facts" verbs ref_of rows st out st' oap now]
    by (simp add: keep_readable_def)
qed

theorem kept_rows_are_allowed_witness:
  "\<exists>out st'. keep_readable oap now (new_session_access [] None (code_facts (\<lambda>l. False))) [''logs:read''] ById [[]]
      \<lparr>rq_resolved = [], rq_resolver = rv\<rparr> = (Settled out, st') \<and> out = []"
proof -
  let ?sa = "new_session_access [] None (code_facts (\<lambda>l. False))"
  let ?st = "\<lparr>rq_resolved = [(ById [], ResUnknown)], rq_resolver = rv\<rparr>"
  have no: "\<not> reads_every_layer ?sa [''logs:read'']" by code_simp
  have "resolve_ref oap now (ById []) \<lparr>rq_resolved = [], rq_resolver = rv\<rparr> = (ResUnknown, ?st)"
    by (simp add: resolve_ref_def lookup_ref_def is_blank_to_oap_def)
  moreover have "decision_of ?sa [''logs:read''] ResUnknown = Deny" by code_simp
  ultimately have d: "decide oap now ?sa [''logs:read''] (ById []) \<lparr>rq_resolved = [], rq_resolver = rv\<rparr> = (Deny, ?st)"
    by (simp add: decide_def)
  then have k: "keep_readable oap now ?sa [''logs:read''] ById [[]] \<lparr>rq_resolved = [], rq_resolver = rv\<rparr> = (Settled [], ?st)"
    using no by (simp add: keep_readable_def)
  show ?thesis using kept_rows_are_allowed [OF k] k no by simp
qed

text \<open>A reference the memo holds an allowed resolution for.\<close>

definition memo_allows :: "session_access \<Rightarrow> verb list \<Rightarrow> request_state \<Rightarrow> service_ref \<Rightarrow> bool" where
  "memo_allows sa verbs st ref \<longleftrightarrow> (\<exists>r. map_of (rq_resolved st) ref = Some r \<and> decision_of sa verbs r = Allow)"

lemma memo_allows_mono: "memo_allows sa verbs st ref \<Longrightarrow> memo_extends st st' \<Longrightarrow> memo_allows sa verbs st' ref"
  by (auto simp: memo_allows_def memo_extends_def)

lemma allowed_in_memo: "memo_allows sa verbs st ref \<Longrightarrow> fst (decide oap now sa verbs ref st) = Allow"
  by (auto simp: memo_allows_def decide_known)

lemma focus_names_sound:
  "focus_names oap now sa verbs ss st = (Settled True, st') \<Longrightarrow>
   memo_extends st st' \<and> (\<forall>s \<in> set ss. memo_allows sa verbs st' (ByName (entity_service_name (si_name s)) None))"
proof (induction ss arbitrary: st)
  case (Cons s ss)
  obtain d st1 where d: "decide oap now sa verbs (ByName (entity_service_name (si_name s)) None) st = (d, st1)"
    by (cases "decide oap now sa verbs (ByName (entity_service_name (si_name s)) None) st")
  with Cons.prems have a: "d = Allow" "focus_names oap now sa verbs ss st1 = (Settled True, st')"
    by (auto split: decision.splits)
  have "memo_allows sa verbs st1 (ByName (entity_service_name (si_name s)) None)"
    using decide_memo [OF d] a(1) by (auto simp: memo_allows_def)
  then show ?case using Cons.IH [OF a(2)] decide_memo [OF d] memo_allows_mono memo_extends_trans by auto
qed simp

lemma focus_readable_sound:
  "focus_readable oap now sa verbs ids st = (Settled True, st') \<Longrightarrow>
   memo_extends st st' \<and> (\<forall>i \<in> set ids. \<exists>ss. map_of (rq_resolved st') (ById i) = Some (ResFound ss) \<and>
     (\<forall>s \<in> set ss. memo_allows sa verbs st' (ByName (entity_service_name (si_name s)) None)))"
proof (induction ids arbitrary: st)
  case (Cons i ids)
  obtain r st1 where r: "resolve_ref oap now (ById i) st = (r, st1)" by (cases "resolve_ref oap now (ById i) st")
  with Cons.prems obtain ss st2 where ss: "r = ResFound ss" "focus_names oap now sa verbs ss st1 = (Settled True, st2)"
    "focus_readable oap now sa verbs ids st2 = (Settled True, st')"
    by (auto split: resolution.splits prod.splits lookup.splits bool.splits)
  note n = focus_names_sound [OF ss(2)] and IH = Cons.IH [OF ss(3)] and m = resolve_memo [OF r]
  have e: "memo_extends st1 st'" using n IH memo_extends_trans by blast
  have "map_of (rq_resolved st') (ById i) = Some (ResFound ss)" using m e ss(1) by (simp add: memo_extends_def)
  moreover have "memo_allows sa verbs st' (ByName (entity_service_name (si_name s)) None)" if "s \<in> set ss" for s
    using n IH that memo_allows_mono by blast
  moreover have "memo_extends st st'" using m e memo_extends_trans by blast
  ultimately show ?case using IH by simp
qed simp

text \<open>A graph never evaluates a metric by a name the caller may not read.  Whatever graph block
  comes back either is read by a caller who reads every layer, or has no name-only metric, or every
  service of every focus was found and each of their names, real and conjectured, was allowed.\<close>

theorem graph_config_safe:
  assumes "graph_config oap now sa verbs focus_ids cfg st = (Settled out, st')"
    and "metrics_in_lists cfg" "\<not> is_name_only_metric cfg"
  shows "reads_every_layer sa verbs \<or> \<not> has_name_only_metric out \<or>
    focus_ids \<noteq> [] \<and> (\<forall>i \<in> set focus_ids. \<exists>ss. map_of (rq_resolved st') (ById i) = Some (ResFound ss) \<and>
       (\<forall>s \<in> set ss. fst (decide oap' now' sa verbs (ByName (entity_service_name (si_name s)) None) st') = Allow))"
  using assms(1) focus_readable_sound [of oap now sa verbs focus_ids st st'] strip_removes [OF assms(2,3)]
    allowed_in_memo [of sa verbs st' _ oap' now']
  by (cases "focus_readable oap now sa verbs focus_ids st")
     (auto simp: graph_config_def Let_def split: if_splits lookup.splits)

theorem graph_config_safe_witness:
  "\<forall>oap now st. \<exists>out st'. graph_config oap now (new_session_access [] None (code_facts (\<lambda>l. False))) [''topology:read''] []
      (JObj [(''nodeMetrics'', JArr [JObj [(''mqe'', JStr ''baseline(service_cpm, value)'')], JObj [(''mqe'', JStr ''service_cpm'')]])])
      st = (Settled out, st') \<and> \<not> has_name_only_metric out"
proof (intro allI)
  fix oap now st
  let ?cfg = "JObj [(''nodeMetrics'', JArr [JObj [(''mqe'', JStr ''baseline(service_cpm, value)'')], JObj [(''mqe'', JStr ''service_cpm'')]])]"
  let ?sa = "new_session_access [] None (code_facts (\<lambda>l. False))"
  have h: "has_name_only_metric ?cfg" "\<not> reads_every_layer ?sa [''topology:read'']" "metrics_in_lists ?cfg" "\<not> is_name_only_metric ?cfg"
    by code_simp+
  then have g: "graph_config oap now ?sa [''topology:read''] [] ?cfg st = (Settled (without_name_only_metrics ?cfg), st)"
    by (simp add: graph_config_def Let_def)
  have "\<not> has_name_only_metric (without_name_only_metrics ?cfg)" by code_simp
  with g graph_config_safe [OF g h(3,4)]
  show "\<exists>out st'. graph_config oap now ?sa [''topology:read''] [] ?cfg st = (Settled out, st') \<and> \<not> has_name_only_metric out"
    by blast
qed

text \<open>The roster filter is the access check.  A row kept for a layer is one the request's own check
  on a service of that layer, group and name would allow, and a row dropped is not reached through
  that layer.\<close>

theorem roster_filter_agrees:
  assumes "r \<in> set rows" "si_layers s = [layer]" "si_group s = or_empty (group_of r)" "name_of r = Some (si_name s)"
  shows "r \<in> set (filter_roster sa verbs layer name_of group_of rows) \<longleftrightarrow> allows_resolved sa verbs s"
proof -
  have "allows_resolved sa verbs s \<longleftrightarrow>
      \<not> blank_is_out_of_reach sa verbs (name_of r) \<and> takes_in (on_layer_any sa verbs layer) (or_empty (group_of r))"
    using assms by (simp add: allows_resolved_def on_service_any_takes_in)
  then show ?thesis using assms(1)
    by (auto simp: filter_roster_def takes_in_def Let_def split: option.splits)
qed

theorem roster_filter_agrees_witness:
  "\<not> allows_resolved (new_session_access [''logs:read@MESH[a]''] None (code_facts (\<lambda>l. False))) [''logs:read'']
      \<lparr>si_id = ''y.1'', si_name = ''cart'', si_normal = None, si_group = ''b'', si_layers = [''MESH'']\<rparr>"
proof -
  let ?sa = "new_session_access [''logs:read@MESH[a]''] None (code_facts (\<lambda>l. False))"
  let ?s = "\<lparr>si_id = ''y.1'', si_name = ''cart'', si_normal = None, si_group = ''b'', si_layers = [''MESH'']\<rparr>"
  have "filter_roster ?sa [''logs:read''] ''MESH'' (\<lambda>_. Some ''cart'') (\<lambda>_. Some ''b'') [()] = []" by code_simp
  then show ?thesis
    using roster_filter_agrees [of "()" "[()]" ?s "''MESH''" "\<lambda>_. Some ''b''" "\<lambda>_. Some ''cart''" ?sa "[''logs:read'']"] by simp
qed

end
