(* ===== verification/RouteScope.thy ===== *)
theory RouteScope
  imports RequestAccess
begin

text \<open>
  Which layer and which services each data route reads: \<open>apps/bff/src/rbac/route-scope.ts\<close>, in the
  order of its table.  A request is its parsed query, body and path parameters; a rule's
  \<open>limitedDenied\<close> and \<open>requireService\<close>, which the type allows to be functions of the request, are
  constant in every entry and are constants here.
\<close>

datatype place = InQuery | InBody | InParams

record req_field =
  rf_at :: place
  rf_name :: string

datatype id_spec =
    ServiceIdF req_field
  | ServiceIdsF req_field
  | ServiceNameF req_field "req_field option"
  | ServiceIdOrNameF req_field
  | ChildIdF req_field
  | ChildIdsF req_field
  | TaskIdF req_field
  | EntityF req_field
  | ServiceListF req_field
  | ServiceIdElseF req_field req_field

record scope_rule =
  sc_layer :: bool
  sc_fixed_layer :: "string option"
  sc_ids :: "id_spec list"
  sc_relation :: "id_spec list"
  sc_require_service :: bool
  sc_limited_denied :: "string option"
  sc_preview :: "req_field option"

definition in_query :: "string \<Rightarrow> req_field" where "in_query name = \<lparr>rf_at = InQuery, rf_name = name\<rparr>"
definition in_body :: "string \<Rightarrow> req_field" where "in_body name = \<lparr>rf_at = InBody, rf_name = name\<rparr>"
definition in_params :: "string \<Rightarrow> req_field" where "in_params name = \<lparr>rf_at = InParams, rf_name = name\<rparr>"

text \<open>The rule \<open>{}\<close>: the route needs the access object and nothing more.\<close>

definition open_scope :: scope_rule where
  "open_scope =
     \<lparr>sc_layer = False, sc_fixed_layer = None, sc_ids = [], sc_relation = [], sc_require_service = False,
      sc_limited_denied = None, sc_preview = None\<rparr>"

definition evaluation_ends :: "id_spec list" where
  "evaluation_ends =
     [ServiceIdF (in_body ''providerId''), ChildIdF (in_body ''modelId''),
      ServiceIdElseF (in_body ''serviceId'') (in_body ''service'')]"

subsection \<open>The table\<close>

definition navigation_scope :: "(string \<times> scope_rule) list" where
  "navigation_scope =
     [(''GET /api/menu'', open_scope),
      (''POST /api/layer/:key/traces'',
         open_scope\<lparr>sc_layer := True, sc_ids := [ServiceIdF (in_body ''serviceId''),
           ChildIdF (in_body ''instanceId''), ChildIdF (in_body ''endpointId'')],
           sc_preview := Some (in_body ''previewConfig'')\<rparr>),
      (''GET /api/trace/:traceId'', open_scope),
      (''POST /api/layer/:key/logs'',
         open_scope\<lparr>sc_layer := True, sc_ids := [ServiceIdF (in_body ''serviceId''),
           ChildIdF (in_body ''serviceInstanceId''), ChildIdF (in_body ''endpointId'')],
           sc_require_service := True\<rparr>),
      (''POST /api/layer/:key/logs/facets'',
         open_scope\<lparr>sc_layer := True, sc_ids := [ServiceIdF (in_body ''serviceId''),
           ChildIdF (in_body ''serviceInstanceId''), ChildIdF (in_body ''endpointId'')],
           sc_require_service := True\<rparr>),
      (''GET /api/layer/:key/pod-logs/containers'',
         open_scope\<lparr>sc_layer := True, sc_ids := [ChildIdF (in_query ''instance'')],
           sc_require_service := True\<rparr>),
      (''POST /api/layer/:key/pod-logs'',
         open_scope\<lparr>sc_layer := True, sc_ids := [ChildIdF (in_body ''serviceInstanceId'')],
           sc_require_service := True\<rparr>),
      (''POST /api/layer/:key/evaluation-records'',
         open_scope\<lparr>sc_layer := True, sc_fixed_layer := Some ''VIRTUAL_GENAI'',
           sc_ids := evaluation_ends\<rparr>),
      (''POST /api/layer/:key/evaluation-records/facets'',
         open_scope\<lparr>sc_layer := True, sc_fixed_layer := Some ''VIRTUAL_GENAI'',
           sc_ids := evaluation_ends\<rparr>),
      (''GET /api/evaluation-record/caller-services'', open_scope),
      (''POST /api/layer/:key/browser-errors'',
         open_scope\<lparr>sc_layer := True, sc_ids := [ServiceIdF (in_body ''serviceId''),
           ChildIdF (in_body ''serviceVersionId''), ChildIdF (in_body ''pagePathId'')],
           sc_require_service := True\<rparr>),
      (''POST /api/events'',
         open_scope\<lparr>sc_ids := [ServiceNameF (in_body ''service'') None],
           sc_require_service := True\<rparr>),
      (''GET /api/alarms'',
         open_scope\<lparr>sc_ids := [ServiceNameF (in_query ''service'') (Some (in_query ''normal''))]\<rparr>),
      (''GET /api/alarms/count'', open_scope),
      (''GET /api/alarms/services'', open_scope),
      (''GET /api/alarms/pages'', open_scope),
      (''POST /api/layer/:key/ai-conversations'',
         open_scope\<lparr>sc_layer := True, sc_ids := [ServiceNameF (in_body ''service'') None],
           sc_require_service := True\<rparr>),
      (''GET /api/ai-conversation/:conversation/view'',
         open_scope\<lparr>sc_ids := [ServiceNameF (in_query ''service'') None],
           sc_require_service := True\<rparr>),
      (''GET /api/ai-conversation/:conversation/files'',
         open_scope\<lparr>sc_ids := [ServiceNameF (in_query ''service'') None],
           sc_require_service := True\<rparr>)]"

definition page_scope :: "(string \<times> scope_rule) list" where
  "page_scope =
     [(''POST /api/layer/:key/dashboard'', open_scope\<lparr>sc_layer := True\<rparr>),
      (''POST /api/mqe/exec'', open_scope\<lparr>sc_ids := [EntityF (in_body ''entity'')]\<rparr>),
      (''GET /api/layer/:key/dashboard/config'', open_scope\<lparr>sc_layer := True\<rparr>),
      (''POST /api/layer/:key/landing'', open_scope\<lparr>sc_layer := True\<rparr>),
      (''GET /api/layer/:key/instances'',
         open_scope\<lparr>sc_layer := True, sc_ids := [ServiceIdF (in_query ''serviceId'')],
           sc_require_service := True\<rparr>),
      (''GET /api/layer/:key/endpoints'',
         open_scope\<lparr>sc_layer := True, sc_ids := [ServiceIdF (in_query ''serviceId'')],
           sc_require_service := True\<rparr>),
      (''GET /api/layer/:key/services'', open_scope\<lparr>sc_layer := True\<rparr>),
      (''GET /api/layer/:key/topology'',
         open_scope\<lparr>sc_layer := True, sc_ids := [ServiceIdsF (in_query ''serviceId'')],
           sc_preview := Some (in_query ''previewConfig'')\<rparr>),
      (''GET /api/layer/:key/service-hierarchy'',
         open_scope\<lparr>sc_layer := True, sc_ids := [ServiceIdF (in_query ''serviceId'')],
           sc_require_service := True\<rparr>),
      (''GET /api/layer/:key/instance-topology'',
         open_scope\<lparr>sc_layer := True, sc_relation := [ServiceIdF (in_query ''client''),
           ServiceIdF (in_query ''server'')], sc_require_service := True,
           sc_preview := Some (in_query ''previewConfig'')\<rparr>),
      (''GET /api/layer/:key/deployment'',
         open_scope\<lparr>sc_layer := True, sc_ids := [ServiceIdF (in_query ''serviceId'')],
           sc_require_service := True, sc_preview := Some (in_query ''previewConfig'')\<rparr>),
      (''GET /api/layer/:key/endpoint-dependency'',
         open_scope\<lparr>sc_layer := True, sc_ids := [ServiceIdF (in_query ''serviceId''),
           ChildIdF (in_query ''endpoint'')], sc_require_service := True,
           sc_preview := Some (in_query ''previewConfig'')\<rparr>)]"

definition profiling_scope :: "(string \<times> scope_rule) list" where
  "profiling_scope =
     [(''GET /api/layer/:key/profile/tasks'',
         open_scope\<lparr>sc_layer := True, sc_ids := [ServiceIdF (in_query ''serviceId'')],
           sc_require_service := True\<rparr>),
      (''POST /api/layer/:key/profile/tasks'',
         open_scope\<lparr>sc_layer := True, sc_ids := [ServiceIdF (in_body ''serviceId'')],
           sc_require_service := True\<rparr>),
      (''GET /api/profile/tasks/:taskId/segments'',
         open_scope\<lparr>sc_ids := [TaskIdF (in_params ''taskId'')], sc_require_service := True\<rparr>),
      (''GET /api/profile/tasks/:taskId/logs'',
         open_scope\<lparr>sc_ids := [TaskIdF (in_params ''taskId'')], sc_require_service := True\<rparr>),
      (''POST /api/layer/:key/profile/tasks/:taskId/analyze'',
         open_scope\<lparr>sc_layer := True, sc_ids := [TaskIdF (in_params ''taskId'')],
           sc_require_service := True\<rparr>),
      (''GET /api/layer/:key/async/tasks'',
         open_scope\<lparr>sc_layer := True, sc_ids := [ServiceIdF (in_query ''serviceId'')],
           sc_require_service := True\<rparr>),
      (''POST /api/layer/:key/async/tasks'',
         open_scope\<lparr>sc_layer := True, sc_ids := [ServiceIdF (in_body ''serviceId''),
           ChildIdsF (in_body ''serviceInstanceIds'')], sc_require_service := True\<rparr>),
      (''GET /api/async/tasks/:taskId/progress'',
         open_scope\<lparr>sc_ids := [TaskIdF (in_params ''taskId'')], sc_require_service := True\<rparr>),
      (''POST /api/async/analyze'',
         open_scope\<lparr>sc_ids := [TaskIdF (in_body ''taskId''), ChildIdsF (in_body ''instanceIds'')],
           sc_require_service := True\<rparr>),
      (''GET /api/layer/:key/pprof/tasks'',
         open_scope\<lparr>sc_layer := True, sc_ids := [ServiceIdF (in_query ''serviceId'')],
           sc_require_service := True\<rparr>),
      (''POST /api/layer/:key/pprof/tasks'',
         open_scope\<lparr>sc_layer := True, sc_ids := [ServiceIdF (in_body ''serviceId''),
           ChildIdsF (in_body ''serviceInstanceIds'')], sc_require_service := True\<rparr>),
      (''GET /api/pprof/tasks/:taskId/progress'',
         open_scope\<lparr>sc_ids := [TaskIdF (in_params ''taskId'')], sc_require_service := True\<rparr>),
      (''POST /api/pprof/analyze'',
         open_scope\<lparr>sc_ids := [TaskIdF (in_body ''taskId''), ChildIdsF (in_body ''instanceIds'')],
           sc_require_service := True\<rparr>),
      (''GET /api/layer/:key/ebpf/tasks'',
         open_scope\<lparr>sc_layer := True, sc_ids := [ServiceIdF (in_query ''serviceId'')],
           sc_require_service := True\<rparr>),
      (''POST /api/layer/:key/ebpf/tasks'',
         open_scope\<lparr>sc_layer := True, sc_ids := [ServiceIdF (in_body ''serviceId'')],
           sc_require_service := True\<rparr>),
      (''GET /api/layer/:key/ebpf/tasks/:taskId/schedules'',
         open_scope\<lparr>sc_layer := True, sc_ids := [ServiceIdF (in_query ''serviceId'')],
           sc_require_service := True\<rparr>),
      (''POST /api/layer/:key/ebpf/tasks/:taskId/analyze'',
         open_scope\<lparr>sc_layer := True, sc_ids := [ServiceIdF (in_body ''serviceId'')],
           sc_require_service := True\<rparr>),
      (''GET /api/layer/:key/ebpf/network/tasks'',
         open_scope\<lparr>sc_layer := True, sc_ids := [ServiceIdF (in_query ''serviceId''),
           ChildIdF (in_query ''serviceInstance'')], sc_require_service := True\<rparr>),
      (''GET /api/ebpf/network/topology'',
         open_scope\<lparr>sc_ids := [ChildIdF (in_query ''serviceInstance'')],
           sc_require_service := True\<rparr>),
      (''GET /api/ebpf/network/processes'',
         open_scope\<lparr>sc_ids := [ChildIdF (in_query ''serviceInstance'')],
           sc_require_service := True\<rparr>),
      (''POST /api/ebpf/network/tasks'',
         open_scope\<lparr>sc_ids := [ChildIdF (in_body ''instanceId'')], sc_require_service := True\<rparr>),
      (''POST /api/ebpf/network/tasks/:taskId/keep-alive'',
         open_scope\<lparr>sc_limited_denied := Some ''task_id_names_no_service''\<rparr>),
      (''POST /api/layer/:key/ebpf/network/process-relation-metrics'',
         open_scope\<lparr>sc_layer := True, sc_ids := [ChildIdF (in_body ''serviceInstanceId'')],
           sc_require_service := True, sc_preview := Some (in_body ''previewConfig'')\<rparr>),
      (''GET /api/continuous-profiling/policy-summary'', open_scope),
      (''GET /api/continuous-profiling/policies'',
         open_scope\<lparr>sc_ids := [ServiceIdF (in_query ''serviceId'')], sc_require_service := True\<rparr>),
      (''POST /api/continuous-profiling/policies'',
         open_scope\<lparr>sc_ids := [ServiceIdF (in_body ''serviceId'')], sc_require_service := True\<rparr>),
      (''GET /api/continuous-profiling/instances'',
         open_scope\<lparr>sc_ids := [ServiceIdF (in_query ''serviceId'')], sc_require_service := True\<rparr>),
      (''POST /api/infra-3d/metrics'', open_scope\<lparr>sc_ids := [ServiceListF (in_body ''services'')]\<rparr>)]"

definition trace_store_scope :: "(string \<times> scope_rule) list" where
  "trace_store_scope =
     map (\<lambda>route. (route, open_scope))
       [''GET /api/zipkin/services'',
        ''GET /api/zipkin/spans'',
        ''GET /api/zipkin/remote-services'',
        ''GET /api/zipkin/traces'',
        ''GET /api/zipkin/trace/:traceId'',
        ''GET /api/zipkin/autocomplete/keys'',
        ''GET /api/zipkin/autocomplete/values'',
        ''GET /api/traceql/sources'',
        ''GET /api/traceql/:ds/search'',
        ''GET /api/traceql/:ds/trace/:traceId'',
        ''GET /api/traceql/:ds/tags'',
        ''GET /api/traceql/:ds/tag-values'',
        ''GET /api/trace-tags/keys'',
        ''GET /api/trace-tags/values'']"

definition unattributable_scope :: "(string \<times> scope_rule) list" where
  "unattributable_scope =
     map (\<lambda>route. (route, open_scope\<lparr>sc_limited_denied := Some ''not_attributable_to_a_service''\<rparr>))
       [''GET /api/log-tags/keys'',
        ''GET /api/log-tags/values'',
        ''GET /api/browser-errors/source-maps'',
        ''POST /api/browser-errors/resolve'']"


definition route_scope :: "(string \<times> scope_rule) list" where
  "route_scope = navigation_scope @ page_scope @ profiling_scope @ trace_store_scope @ unattributable_scope"

subsection \<open>Reading a field\<close>

record request =
  req_query :: json
  req_body :: json
  req_params :: json

definition body_of :: "request \<Rightarrow> json" where
  "body_of req = (case req_body req of JObj ms \<Rightarrow> JObj ms | _ \<Rightarrow> JObj [])"

definition query_of :: "request \<Rightarrow> json" where
  "query_of req = (case req_query req of JObj ms \<Rightarrow> JObj ms | _ \<Rightarrow> JObj [])"

definition field_value :: "request \<Rightarrow> req_field \<Rightarrow> json option" where
  "field_value req f =
     get_field (rf_name f)
       (case rf_at f of InBody \<Rightarrow> body_of req | InQuery \<Rightarrow> query_of req | InParams \<Rightarrow> req_params req)"

end
