(* ===== verification/ScopeGate.thy ===== *)
theory ScopeGate
  imports RouteScope
begin

text \<open>
  The pre-handler that applies a scope rule: \<open>apps/bff/src/rbac/scope-gate.ts\<close>.  It builds the
  request's access, then checks the URL's layer and every identity the rule names; what it replies,
  if it replies, is a \<open>refusal\<close>.
\<close>

datatype refusal =
    Unauthenticated
  | PermissionDenied "verb list" string
  | OwnershipUnavailable

record named_services =
  nm_refs :: "service_ref list"
  nm_relations :: "service_ref list list"
  nm_unattributable :: bool
  nm_padded :: bool

subsection \<open>Reading identities\<close>

definition id_base_char :: "char \<Rightarrow> bool" where
  "id_base_char c \<longleftrightarrow> is_alnum c \<or> c \<in> {CHR ''+'', CHR ''/'', CHR ''=''}"

text \<open>\<open>CHILD_ID\<close>: a service id, an underscore, and a character that ends no line.\<close>

definition child_id_form :: "string \<Rightarrow> bool" where
  "child_id_form s =
     (let p = takeWhile id_base_char s; r = dropWhile id_base_char s in
      p \<noteq> [] \<and> 4 \<le> length r \<and> r ! 0 = CHR ''.'' \<and> r ! 1 \<in> {CHR ''0'', CHR ''1''} \<and> r ! 2 = CHR ''_'' \<and>
      \<not> list_ex (\<lambda>t. prefix t (drop 3 r))
          [[CHR 0x0A], [CHR 0x0D], [CHR 0xE2, CHR 0x80, CHR 0xA8], [CHR 0xE2, CHR 0x80, CHR 0xA9]])"

definition flag_of :: "json option \<Rightarrow> bool option" where
  "flag_of v =
     (if v = Some (JBool True) \<or> v = Some (JStr ''true'') then Some True
      else if v = Some (JBool False) \<or> v = Some (JStr ''false'') then Some False
      else None)"

definition identity_str :: "json option \<Rightarrow> named_services \<Rightarrow> string option \<times> named_services" where
  "identity_str v n =
     (case v of
        Some (JStr s) \<Rightarrow>
          if s = [] then (None, n)
          else (Some s, if \<not> is_exact_identity s then n\<lparr>nm_padded := True\<rparr> else n)
      | _ \<Rightarrow> (None, n))"

definition some_ref :: "(string \<Rightarrow> service_ref list) \<Rightarrow> string option \<Rightarrow> service_ref list" where
  "some_ref f v = (case v of Some s \<Rightarrow> f s | None \<Rightarrow> [])"

fun child_refs :: "json list \<Rightarrow> named_services \<Rightarrow> service_ref list \<times> named_services" where
  "child_refs [] n = ([], n)"
| "child_refs (c # cs) n =
     (case identity_str (Some c) n of
        (s, n1) \<Rightarrow>
          (let (refs, n2) =
             (case s of
                None \<Rightarrow> ([], n1)
              | Some x \<Rightarrow> if child_id_form x then ([ByChild x], n1) else ([], n1\<lparr>nm_unattributable := True\<rparr>)) in
           case child_refs cs n2 of (rest, n3) \<Rightarrow> (refs @ rest, n3)))"

definition elements_of :: "json option \<Rightarrow> json list" where
  "elements_of v = (case v of Some (JArr vs) \<Rightarrow> vs | _ \<Rightarrow> [])"

definition name_only_field :: "json option \<Rightarrow> bool" where
  "name_only_field e = (case e of Some (JStr s) \<Rightarrow> reads_by_name_only [s] | _ \<Rightarrow> False)"

fun list_refs :: "json list \<Rightarrow> named_services \<Rightarrow> service_ref list \<times> named_services" where
  "list_refs [] n = ([], n)"
| "list_refs (item # items) n =
     (case identity_str (get_field ''name'' item) n of
        (name, n1) \<Rightarrow>
          (let refs = some_ref (\<lambda>s. [if name_only_field (get_field ''mqe'' item) then ByName s None
                                     else service_ref_from_name s (flag_of (get_field ''normal'' item))]) name in
           case list_refs items n1 of (rest, n2) \<Rightarrow> (refs @ rest, n2)))"

definition task_refs :: "string \<Rightarrow> named_services \<Rightarrow> service_ref list \<times> named_services" where
  "task_refs v n =
     (let owner = (case index_of CHR ''_'' v of Some i \<Rightarrow> if 0 < i then drop (Suc i) v else [] | None \<Rightarrow> []) in
      if service_id_form owner then ([ById owner], n) else ([], n\<lparr>nm_unattributable := True\<rparr>))"

definition refs_of :: "request \<Rightarrow> id_spec \<Rightarrow> named_services \<Rightarrow> service_ref list \<times> named_services" where
  "refs_of req spec n =
     (case spec of
        ServiceIdF f \<Rightarrow>
          (case identity_str (field_value req f) n of (v, n') \<Rightarrow> (some_ref (\<lambda>s. [ById s]) v, n'))
      | ServiceIdsF f \<Rightarrow>
          (case identity_str (field_value req f) n of
             (v, n') \<Rightarrow> (some_ref (\<lambda>s. map (\<lambda>i. ById (js_trim i)) (filter (\<lambda>i. js_trim i \<noteq> []) (split_on CHR '','' s))) v, n'))
      | ServiceNameF f normal \<Rightarrow>
          (case identity_str (field_value req f) n of
             (v, n') \<Rightarrow>
               (some_ref (\<lambda>s. [service_ref_from_name s
                  (case normal of Some g \<Rightarrow> flag_of (field_value req g) | None \<Rightarrow> None)]) v, n'))
      | ServiceIdOrNameF f \<Rightarrow>
          (case identity_str (field_value req f) n of (v, n') \<Rightarrow> (some_ref (\<lambda>s. [ByIdOrName s]) v, n'))
      | ChildIdF f \<Rightarrow>
          (case identity_str (field_value req f) n of
             (v, n') \<Rightarrow> (some_ref (\<lambda>s. if child_id_form s then [ByChild s] else []) v, n'))
      | ChildIdsF f \<Rightarrow> child_refs (elements_of (field_value req f)) n
      | TaskIdF f \<Rightarrow>
          (case identity_str (field_value req f) n of
             (v, n') \<Rightarrow> (case v of Some s \<Rightarrow> task_refs s n' | None \<Rightarrow> ([], n')))
      | EntityF f \<Rightarrow>
          (case field_value req f of
             Some e \<Rightarrow>
               (case identity_str (get_field ''serviceName'' e) n of
                  (v, n') \<Rightarrow>
                    (some_ref (\<lambda>s. [if name_only_field (get_field ''expression'' (body_of req)) then ByName s None
                                    else service_ref_from_name s (flag_of (get_field ''normal'' e))]) v, n'))
           | None \<Rightarrow> ([], n))
      | ServiceListF f \<Rightarrow> list_refs (elements_of (field_value req f)) n
      | ServiceIdElseF f g \<Rightarrow>
          (case identity_str (field_value req f) n of
             (Some s, n') \<Rightarrow> ([ById s], n')
           | (None, n') \<Rightarrow>
               (case identity_str (field_value req g) n' of (v, n'') \<Rightarrow> (some_ref (\<lambda>s. [ByIdOrName s]) v, n''))))"

fun refs_of_all :: "request \<Rightarrow> id_spec list \<Rightarrow> named_services \<Rightarrow> service_ref list \<times> named_services" where
  "refs_of_all req [] n = ([], n)"
| "refs_of_all req (spec # specs) n =
     (case refs_of req spec n of
        (refs, n1) \<Rightarrow> (case refs_of_all req specs n1 of (rest, n2) \<Rightarrow> (refs @ rest, n2)))"

definition named_in :: "request \<Rightarrow> scope_rule \<Rightarrow> named_services" where
  "named_in req rule =
     (case refs_of_all req (sc_ids rule) \<lparr>nm_refs = [], nm_relations = [], nm_unattributable = False, nm_padded = False\<rparr> of
        (refs, n) \<Rightarrow>
          (case refs_of_all req (sc_relation rule) (n\<lparr>nm_refs := refs\<rparr>) of
             (ends, n') \<Rightarrow> if 0 < length ends then n'\<lparr>nm_relations := [ends]\<rparr> else n'))"

subsection \<open>The gate\<close>

definition has_draft :: "json option \<Rightarrow> bool" where
  "has_draft draft =
     (case draft of None \<Rightarrow> False | Some (JStr s) \<Rightarrow> js_trim s \<noteq> [] | Some JNull \<Rightarrow> False | Some _ \<Rightarrow> True)"

fun check_refs ::
  "oap_world \<Rightarrow> nat \<Rightarrow> session_access \<Rightarrow> verb list \<Rightarrow> service_ref list \<Rightarrow> request_state \<Rightarrow>
   refusal option \<times> request_state" where
  "check_refs oap now sa verbs [] st = (None, st)"
| "check_refs oap now sa verbs (ref # refs) st =
     (case decide oap now sa verbs ref st of
        (Outage, st') \<Rightarrow> (Some OwnershipUnavailable, st')
      | (Deny, st') \<Rightarrow> (Some (PermissionDenied verbs ''service_not_granted''), st')
      | (Allow, st') \<Rightarrow> check_refs oap now sa verbs refs st')"

fun decide_ends ::
  "oap_world \<Rightarrow> nat \<Rightarrow> session_access \<Rightarrow> verb list \<Rightarrow> service_ref list \<Rightarrow> request_state \<Rightarrow>
   decision list \<times> request_state" where
  "decide_ends oap now sa verbs [] st = ([], st)"
| "decide_ends oap now sa verbs (ref # refs) st =
     (case decide oap now sa verbs ref st of
        (d, st') \<Rightarrow> (case decide_ends oap now sa verbs refs st' of (ds, st'') \<Rightarrow> (d # ds, st'')))"

fun check_relations ::
  "oap_world \<Rightarrow> nat \<Rightarrow> session_access \<Rightarrow> verb list \<Rightarrow> service_ref list list \<Rightarrow> request_state \<Rightarrow>
   refusal option \<times> request_state" where
  "check_relations oap now sa verbs [] st = (None, st)"
| "check_relations oap now sa verbs (ends # rest) st =
     (case decide_ends oap now sa verbs ends st of
        (ds, st') \<Rightarrow>
          if Allow \<in> set ds then check_relations oap now sa verbs rest st'
          else if Outage \<in> set ds then (Some OwnershipUnavailable, st')
          else (Some (PermissionDenied verbs ''service_not_granted''), st'))"

text \<open>The checks of a route that needs a verb, on a session already found not to read every layer.\<close>

definition gate_checks ::
  "oap_world \<Rightarrow> nat \<Rightarrow> session_access \<Rightarrow> scope_rule \<Rightarrow> verb list \<Rightarrow> request \<Rightarrow> request_state \<Rightarrow>
   refusal option \<times> request_state" where
  "gate_checks oap now sa rule verbs req st =
     (let limited = all_layer_limited sa verbs in
      case (if limited then sc_limited_denied rule else None) of
        Some reason \<Rightarrow> (Some (PermissionDenied verbs reason), st)
      | None \<Rightarrow>
      (let key = or_empty (as_string (get_field ''key'' (req_params req))) in
       if sc_layer rule \<and> on_layer_any sa verbs key = None
       then (Some (PermissionDenied verbs ''layer_not_granted''), st)
       else if (case sc_fixed_layer rule of Some l \<Rightarrow> on_layer_any sa verbs l = None | None \<Rightarrow> False)
       then (Some (PermissionDenied verbs ''layer_not_granted''), st)
       else (let n = named_in req rule in
         if nm_padded n then (Some (PermissionDenied verbs ''identity_not_normalized''), st)
         else if nm_unattributable n \<and> limited then (Some (PermissionDenied verbs ''id_names_no_service''), st)
         else (case check_refs oap now sa verbs (nm_refs n) st of
             (Some r, st') \<Rightarrow> (Some r, st')
           | (None, st') \<Rightarrow>
               (case check_relations oap now sa verbs (nm_relations n) st' of
                  (Some r, st'') \<Rightarrow> (Some r, st'')
                | (None, st'') \<Rightarrow>
                    if sc_require_service rule \<and> limited \<and> length (nm_refs n) = 0 \<and> length (nm_relations n) = 0
                    then (Some (PermissionDenied verbs ''service_required''), st'')
                    else (None, st''))))))"

record gate_result =
  gate_refusal :: "refusal option"
  gate_access :: "session_access option"
  gate_state :: request_state

definition scope_gate ::
  "oap_world \<Rightarrow> nat \<Rightarrow> horizon_config \<Rightarrow> (string \<Rightarrow> bool) option \<Rightarrow> scope_rule \<Rightarrow> verb list \<Rightarrow>
   verb_subject option \<Rightarrow> request \<Rightarrow> request_state \<Rightarrow> gate_result" where
  "scope_gate oap now cfg deps rule verbs session req st =
     (case session of
        None \<Rightarrow> \<lparr>gate_refusal = Some Unauthenticated, gate_access = None, gate_state = st\<rparr>
      | Some s \<Rightarrow>
      if has_draft (case sc_preview rule of Some f \<Rightarrow> field_value req f | None \<Rightarrow> None) \<and>
         \<not> session_has_verb cfg s ''layer-template:write''
      then \<lparr>gate_refusal = Some (PermissionDenied [''layer-template:write''] ''preview_needs_template_write''),
            gate_access = None, gate_state = st\<rparr>
      else (case deps of
          None \<Rightarrow> \<lparr>gate_refusal = None, gate_access = None, gate_state = st\<rparr>
        | Some operate \<Rightarrow>
            (let sa = build_request_access cfg s operate in
             if length verbs = 0 \<or> reads_every_layer sa verbs
             then \<lparr>gate_refusal = None, gate_access = Some sa, gate_state = st\<rparr>
             else (case gate_checks oap now sa rule verbs req st of
                     (r, st') \<Rightarrow> \<lparr>gate_refusal = r, gate_access = Some sa, gate_state = st'\<rparr>))))"

subsection \<open>Lemmas\<close>

lemma decide_memo_allows:
  "decide oap now sa verbs ref st = (d, st') \<Longrightarrow>
   memo_extends st st' \<and> (d = Allow \<longrightarrow> memo_allows sa verbs st' ref) \<and>
   (d = Outage \<longrightarrow> map_of (rq_resolved st') ref = Some ResUnavailable)"
  using decide_memo [of oap now sa verbs ref st d st'] decision_outage_iff
  by (auto simp: memo_allows_def)

lemma check_refs_facts:
  "check_refs oap now sa verbs refs st = (r, st') \<Longrightarrow>
   memo_extends st st' \<and> (r = None \<longrightarrow> (\<forall>ref \<in> set refs. memo_allows sa verbs st' ref)) \<and>
   (r = Some OwnershipUnavailable \<longrightarrow> (\<exists>ref \<in> set refs. map_of (rq_resolved st') ref = Some ResUnavailable)) \<and>
   (\<forall>x. r = Some x \<longrightarrow> x \<in> {OwnershipUnavailable, PermissionDenied verbs ''service_not_granted''})"
proof (induction refs arbitrary: st)
  case (Cons ref refs)
  obtain d st1 where d: "decide oap now sa verbs ref st = (d, st1)" by (cases "decide oap now sa verbs ref st")
  note facts = decide_memo_allows [OF d]
  show ?case
  proof (cases d)
    case Allow
    then have "check_refs oap now sa verbs refs st1 = (r, st')" using Cons.prems d by simp
    note IH = Cons.IH [OF this]
    then show ?thesis using facts Allow memo_allows_mono [of sa verbs st1 ref st'] memo_extends_trans by auto
  qed (use Cons.prems d facts in auto)
qed simp

lemma decide_ends_facts:
  "decide_ends oap now sa verbs refs st = (ds, st') \<Longrightarrow>
   memo_extends st st' \<and> (Allow \<in> set ds \<longrightarrow> (\<exists>ref \<in> set refs. memo_allows sa verbs st' ref)) \<and>
   (Outage \<in> set ds \<longrightarrow> (\<exists>ref \<in> set refs. map_of (rq_resolved st') ref = Some ResUnavailable))"
proof (induction refs arbitrary: st ds st')
  case (Cons ref refs)
  obtain d st1 where d: "decide oap now sa verbs ref st = (d, st1)" by (cases "decide oap now sa verbs ref st")
  obtain ds1 st2 where ds: "decide_ends oap now sa verbs refs st1 = (ds1, st2)"
    by (cases "decide_ends oap now sa verbs refs st1")
  from Cons.prems d ds have eq: "ds = d # ds1" "st' = st2" by auto
  note facts = decide_memo_allows [OF d] and IH = Cons.IH [OF ds]
  have "memo_extends st st2" using facts IH memo_extends_trans by blast
  moreover have "memo_allows sa verbs st2 ref" if "d = Allow"
    using facts IH that memo_allows_mono by blast
  moreover have "map_of (rq_resolved st2) ref = Some ResUnavailable" if "d = Outage"
    using facts IH that by (simp add: memo_extends_def)
  ultimately show ?case using IH eq by auto
qed simp

lemma check_relations_facts:
  "check_relations oap now sa verbs rels st = (r, st') \<Longrightarrow>
   memo_extends st st' \<and> (r = None \<longrightarrow> (\<forall>ends \<in> set rels. \<exists>ref \<in> set ends. memo_allows sa verbs st' ref)) \<and>
   (r = Some OwnershipUnavailable \<longrightarrow>
      (\<exists>ends \<in> set rels. \<exists>ref \<in> set ends. map_of (rq_resolved st') ref = Some ResUnavailable))"
proof (induction rels arbitrary: st)
  case (Cons ends rels)
  obtain ds st1 where ds: "decide_ends oap now sa verbs ends st = (ds, st1)"
    by (cases "decide_ends oap now sa verbs ends st")
  note facts = decide_ends_facts [OF ds]
  show ?case
  proof (cases "Allow \<in> set ds")
    case True
    then have "check_relations oap now sa verbs rels st1 = (r, st')" using Cons.prems ds by simp
    note IH = Cons.IH [OF this]
    obtain ref where "ref \<in> set ends" "memo_allows sa verbs st1 ref" using facts True by blast
    then have "\<exists>ref \<in> set ends. memo_allows sa verbs st' ref" using IH memo_allows_mono by blast
    then show ?thesis using facts IH memo_extends_trans by auto
  qed (use Cons.prems ds facts in \<open>auto split: if_splits\<close>)
qed simp

lemma gate_checks_pass:
  assumes "gate_checks oap now sa rule verbs req st = (None, st')"
  shows "(all_layer_limited sa verbs \<longrightarrow> sc_limited_denied rule = None \<and> \<not> nm_unattributable (named_in req rule)) \<and>
    (sc_layer rule \<longrightarrow> on_layer_any sa verbs (or_empty (as_string (get_field ''key'' (req_params req)))) \<noteq> None) \<and>
    (\<forall>l. sc_fixed_layer rule = Some l \<longrightarrow> on_layer_any sa verbs l \<noteq> None) \<and>
    \<not> nm_padded (named_in req rule) \<and>
    (\<forall>ref \<in> set (nm_refs (named_in req rule)). memo_allows sa verbs st' ref) \<and>
    (\<forall>ends \<in> set (nm_relations (named_in req rule)). \<exists>ref \<in> set ends. memo_allows sa verbs st' ref) \<and>
    (sc_require_service rule \<and> all_layer_limited sa verbs \<longrightarrow>
       nm_refs (named_in req rule) \<noteq> [] \<or> nm_relations (named_in req rule) \<noteq> [])"
proof -
  obtain r1 st1 where c1: "check_refs oap now sa verbs (nm_refs (named_in req rule)) st = (r1, st1)"
    by (cases "check_refs oap now sa verbs (nm_refs (named_in req rule)) st")
  obtain r2 st2 where c2: "check_relations oap now sa verbs (nm_relations (named_in req rule)) st1 = (r2, st2)"
    by (cases "check_relations oap now sa verbs (nm_relations (named_in req rule)) st1")
  have ok: "r1 = None" "r2 = None" "st' = st2"
    using assms c1 c2 by (auto simp: gate_checks_def Let_def split: option.splits if_splits)
  have refs: "\<forall>ref \<in> set (nm_refs (named_in req rule)). memo_allows sa verbs st' ref"
    using check_refs_facts [OF c1] check_relations_facts [OF c2] ok memo_allows_mono by blast
  have rels: "\<forall>ends \<in> set (nm_relations (named_in req rule)). \<exists>ref \<in> set ends. memo_allows sa verbs st' ref"
    using check_relations_facts [OF c2] ok by blast
  show ?thesis using assms c1 c2 ok refs rels
    by (auto simp: gate_checks_def Let_def split: option.splits if_splits)
qed

lemma gate_checks_outage:
  assumes "gate_checks oap now sa rule verbs req st = (Some OwnershipUnavailable, st')"
  shows "\<exists>ref \<in> set (nm_refs (named_in req rule)) \<union> \<Union> (set ` set (nm_relations (named_in req rule))).
    map_of (rq_resolved st') ref = Some ResUnavailable"
proof -
  obtain r1 st1 where c1: "check_refs oap now sa verbs (nm_refs (named_in req rule)) st = (r1, st1)"
    by (cases "check_refs oap now sa verbs (nm_refs (named_in req rule)) st")
  obtain r2 st2 where c2: "check_relations oap now sa verbs (nm_relations (named_in req rule)) st1 = (r2, st2)"
    by (cases "check_relations oap now sa verbs (nm_relations (named_in req rule)) st1")
  have "r1 = Some OwnershipUnavailable \<and> st' = st1 \<or> r2 = Some OwnershipUnavailable \<and> st' = st2"
    using assms c1 c2 by (auto simp: gate_checks_def Let_def split: option.splits if_splits)
  then show ?thesis using check_refs_facts [OF c1] check_relations_facts [OF c2] by blast
qed

subsection \<open>Properties\<close>


text \<open>The gate is open to those who read every layer.  A signed-in caller who holds one of the
  route's verbs and \<open>cluster:read\<close> plainly is refused nothing, except a draft template they may not
  write; what they name is not even looked up.\<close>

theorem gate_open_to_full_readers:
  assumes "reads_every_layer (build_request_access cfg s operate) verbs"
  shows "scope_gate oap now cfg (Some operate) rule verbs (Some s) req st =
    (if has_draft (case sc_preview rule of Some f \<Rightarrow> field_value req f | None \<Rightarrow> None) \<and>
        \<not> session_has_verb cfg s ''layer-template:write''
     then \<lparr>gate_refusal = Some (PermissionDenied [''layer-template:write''] ''preview_needs_template_write''),
           gate_access = None, gate_state = st\<rparr>
     else \<lparr>gate_refusal = None, gate_access = Some (build_request_access cfg s operate), gate_state = st\<rparr>)"
  using assms by (simp add: scope_gate_def Let_def)

theorem gate_open_to_full_readers_witness:
  "gate_refusal (scope_gate oap now (sample_config (sample_rbac [(''ops'', [''*:read''])]) no_sso) (Some (\<lambda>l. True))
     (open_scope\<lparr>sc_layer := True\<rparr>) [''logs:read''] (Some \<lparr>subject_roles = [''ops''], subject_cap = None\<rparr>) req st) = None"
proof -
  let ?cfg = "sample_config (sample_rbac [(''ops'', [''*:read''])]) no_sso"
  let ?s = "\<lparr>subject_roles = [''ops''], subject_cap = None\<rparr>"
  have r: "reads_every_layer (build_request_access ?cfg ?s (\<lambda>l. True)) [''logs:read'']" by code_simp
  show ?thesis
    unfolding gate_open_to_full_readers [OF r] by (simp add: open_scope_def has_draft_def)
qed

text \<open>An outage is reported as one.  The gate answers that OAP could not say who owns a service
  only when a reference the request names was looked up and the lookup was unavailable, and a
  reference whose lookup was unavailable never lets a request through.\<close>

theorem gate_outage:
  assumes "scope_gate oap now cfg deps rule verbs session req st = g"
  shows "(gate_refusal g = Some OwnershipUnavailable \<longrightarrow>
      (\<exists>ref \<in> set (nm_refs (named_in req rule)) \<union> \<Union> (set ` set (nm_relations (named_in req rule))).
         map_of (rq_resolved (gate_state g)) ref = Some ResUnavailable)) \<and>
    (gate_refusal g = None \<and> gate_access g = Some sa \<and> verbs \<noteq> [] \<and> \<not> reads_every_layer sa verbs \<longrightarrow>
      (\<forall>ref \<in> set (nm_refs (named_in req rule)). map_of (rq_resolved (gate_state g)) ref \<noteq> Some ResUnavailable))"
proof (intro conjI impI)
  assume out: "gate_refusal g = Some OwnershipUnavailable"
  then obtain sa where "gate_checks oap now sa rule verbs req st = (Some OwnershipUnavailable, gate_state g)"
    using assms by (auto simp: scope_gate_def Let_def split: option.splits if_splits prod.splits)
  from gate_checks_outage [OF this] show "\<exists>ref \<in> set (nm_refs (named_in req rule)) \<union> \<Union> (set ` set (nm_relations (named_in req rule))).
         map_of (rq_resolved (gate_state g)) ref = Some ResUnavailable" .
next
  assume a: "gate_refusal g = None \<and> gate_access g = Some sa \<and> verbs \<noteq> [] \<and> \<not> reads_every_layer sa verbs"
  then have "gate_checks oap now sa rule verbs req st = (None, gate_state g)"
    using assms by (auto simp: scope_gate_def Let_def split: option.splits if_splits prod.splits)
  from gate_checks_pass [OF this] show "\<forall>ref \<in> set (nm_refs (named_in req rule)).
      map_of (rq_resolved (gate_state g)) ref \<noteq> Some ResUnavailable"
    by (auto simp: memo_allows_def decision_of_def)
qed


theorem gate_outage_witness:
  "\<forall>oap now cfg req st.
     gate_refusal (scope_gate oap now cfg None open_scope [''logs:read''] None req st) \<noteq> Some OwnershipUnavailable"
proof (intro allI)
  fix oap now cfg req st
  let ?g = "scope_gate oap now cfg None open_scope [''logs:read''] None req st"
  have "nm_refs (named_in req open_scope) = [] \<and> nm_relations (named_in req open_scope) = []"
    by (simp add: named_in_def open_scope_def)
  then show "gate_refusal ?g \<noteq> Some OwnershipUnavailable" using gate_outage [of oap now cfg None open_scope "[''logs:read'']" None req st ?g] by auto
qed

end
