(* ===== verification/RoutePolicy.thy ===== *)
theory RoutePolicy
  imports ScopeGate
begin

text \<open>
  The verb every route needs, and the hook that turns it into pre-handlers when a route is
  registered: \<open>apps/bff/src/rbac/route-policy.ts\<close>.  The table is cut where the source cuts it, at
  the lowest built-in role that reaches a route.  A pre-handler is a value of \<open>handler\<close>; what each
  does to a request is in the theory \<open>RequestGate\<close>.
\<close>

text \<open>\<open>AllOf\<close> is the array form, a conjunction; no entry of the table uses it.\<close>

datatype route_policy = Public | Auth | Verb verb | AllOf "verb list" | AnyOf "verb list"

definition layer_picker_verbs :: "verb list" where
  "layer_picker_verbs = layer_page_verbs"

definition is_template_write_route :: "string \<Rightarrow> string \<Rightarrow> bool" where
  "is_template_write_route meth url =
     (if meth = ''GET'' \<or> meth = ''HEAD'' then False
      else prefix ''/api/admin/templates'' url \<or> prefix ''/api/admin/overview-templates'' url)"

subsection \<open>The table\<close>

definition public_policy :: "(string \<times> route_policy) list" where
  "public_policy =
     [(''POST /api/auth/login'', Public),
      (''POST /api/auth/logout'', Public),
      (''GET /api/health'', Public),
      (''GET /.well-known/oauth-protected-resource'', Public),
      (''GET /.well-known/oauth-protected-resource/api/mcp'', Public),
      (''GET /.well-known/oauth-authorization-server'', Public),
      (''POST /api/oauth/register'', Public),
      (''GET /api/oauth/authorize'', Public),
      (''POST /api/oauth/token'', Public),
      (''GET /api/oauth/consent'', Auth),
      (''POST /api/oauth/consent'', Auth),
      (''GET /api/auth/health'', Public),
      (''GET /api/auth/oidc/providers'', Public),
      (''GET /api/auth/oidc/start'', Public),
      (''GET /api/auth/oidc/callback'', Public)]"

definition session_policy :: "(string \<times> route_policy) list" where
  "session_policy =
     [(''GET /api/auth/me'', Auth),
      (''GET /api/oap/info'', Auth),
      (''GET /api/menu'', Auth),
      (''GET /api/preflight'', Auth),
      (''GET /api/configs/bundle'', Auth),
      (''GET /api/configs/settings'', Auth)]"

definition viewer_policy :: "(string \<times> route_policy) list" where
  "viewer_policy =
     [(''GET /api/alarms'', Verb ''alarms:read''),
      (''GET /api/alarms/count'', Verb ''alarms:read''),
      (''GET /api/alarms/services'', Verb ''alarms:read''),
      (''GET /api/alarms/pages'', Verb ''alarms:read''),
      (''POST /api/layer/:key/traces'', Verb ''traces:read''),
      (''GET /api/trace/:traceId'', Verb ''traces:read''),
      (''GET /api/trace-tags/keys'', Verb ''traces:read''),
      (''GET /api/trace-tags/values'', Verb ''traces:read''),
      (''GET /api/zipkin/services'', Verb ''traces:read''),
      (''GET /api/zipkin/spans'', Verb ''traces:read''),
      (''GET /api/zipkin/remote-services'', Verb ''traces:read''),
      (''GET /api/zipkin/traces'', Verb ''traces:read''),
      (''GET /api/zipkin/trace/:traceId'', Verb ''traces:read''),
      (''GET /api/zipkin/autocomplete/keys'', Verb ''traces:read''),
      (''GET /api/zipkin/autocomplete/values'', Verb ''traces:read''),
      (''GET /api/traceql/sources'', Verb ''traces:read''),
      (''GET /api/traceql/:ds/search'', Verb ''traces:read''),
      (''GET /api/traceql/:ds/trace/:traceId'', Verb ''traces:read''),
      (''GET /api/traceql/:ds/tags'', Verb ''traces:read''),
      (''GET /api/traceql/:ds/tag-values'', Verb ''traces:read''),
      (''POST /api/layer/:key/logs'', Verb ''logs:read''),
      (''POST /api/layer/:key/logs/facets'', Verb ''logs:read''),
      (''POST /api/layer/:key/evaluation-records'', Verb ''logs:read''),
      (''POST /api/layer/:key/evaluation-records/facets'', Verb ''logs:read''),
      (''GET /api/log-tags/keys'', Verb ''logs:read''),
      (''GET /api/log-tags/values'', Verb ''logs:read''),
      (''GET /api/layer/:key/pod-logs/containers'', Verb ''logs:read''),
      (''POST /api/layer/:key/pod-logs'', Verb ''logs:read''),
      (''POST /api/layer/:key/browser-errors'', Verb ''browser-errors:read''),
      (''GET /api/browser-errors/source-maps'', Verb ''browser-errors:read''),
      (''POST /api/browser-errors/resolve'', Verb ''browser-errors:read''),
      (''POST /api/events'', Verb ''events:read''),
      (''POST /api/layer/:key/ai-conversations'', Verb ''ai-conversation:read''),
      (''GET /api/ai-conversation/:conversation/view'', Verb ''ai-conversation:read''),
      (''GET /api/ai-conversation/:conversation/files'', Verb ''ai-conversation:read''),
      (''POST /api/explore/query'', Verb ''inspect:read''),
      (''GET /api/layer/:key/topology'', Verb ''topology:read''),
      (''GET /api/layer/:key/instance-topology'', Verb ''topology:read''),
      (''GET /api/layer/:key/deployment'', Verb ''topology:read''),
      (''GET /api/layer/:key/endpoint-dependency'', Verb ''topology:read''),
      (''GET /api/layer/:key/service-hierarchy'', Verb ''topology:read''),
      (''POST /api/layer/:key/dashboard'', Verb ''metrics:read''),
      (''POST /api/mqe/exec'', Verb ''metrics:read''),
      (''GET /api/layer/:key/dashboard/config'', Verb ''metrics:read''),
      (''POST /api/layer/:key/landing'', Verb ''metrics:read''),
      (''GET /api/layer/:key/instances'', AnyOf (layer_picker_verbs @ [''alarms:read''])),
      (''GET /api/layer/:key/endpoints'', AnyOf (layer_picker_verbs @ [''alarms:read''])),
      (''GET /api/layer/:key/services'', AnyOf layer_picker_verbs),
      (''GET /api/evaluation-record/caller-services'', Verb ''logs:read''),
      (''GET /api/layer/:key/profile/tasks'', Verb ''profile:read''),
      (''GET /api/profile/tasks/:taskId/segments'', Verb ''profile:read''),
      (''GET /api/profile/tasks/:taskId/logs'', Verb ''profile:read''),
      (''POST /api/layer/:key/profile/tasks/:taskId/analyze'', Verb ''profile:read''),
      (''GET /api/layer/:key/async/tasks'', Verb ''profile:read''),
      (''GET /api/async/tasks/:taskId/progress'', Verb ''profile:read''),
      (''POST /api/async/analyze'', Verb ''profile:read''),
      (''GET /api/layer/:key/pprof/tasks'', Verb ''profile:read''),
      (''GET /api/pprof/tasks/:taskId/progress'', Verb ''profile:read''),
      (''POST /api/pprof/analyze'', Verb ''profile:read''),
      (''GET /api/layer/:key/ebpf/tasks'', Verb ''profile:read''),
      (''GET /api/layer/:key/ebpf/tasks/:taskId/schedules'', Verb ''profile:read''),
      (''POST /api/layer/:key/ebpf/tasks/:taskId/analyze'', Verb ''profile:read''),
      (''GET /api/layer/:key/ebpf/network/tasks'', Verb ''profile:read''),
      (''GET /api/ebpf/network/tasks'', Verb ''profile:read''),
      (''GET /api/ebpf/network/topology'', Verb ''profile:read''),
      (''GET /api/ebpf/network/processes'', Verb ''profile:read''),
      (''POST /api/layer/:key/ebpf/network/process-relation-metrics'', Verb ''profile:read''),
      (''GET /api/continuous-profiling/policies'', Verb ''profile:read''),
      (''GET /api/continuous-profiling/instances'', Verb ''profile:read''),
      (''GET /api/continuous-profiling/policy-summary'', Verb ''profile:read''),
      (''GET /api/overview/dashboards'', Verb ''overview:read''),
      (''GET /api/overview/dashboards/:id'', Verb ''overview:read''),
      (''GET /api/admin/templates/sync-status'', Auth),
      (''GET /api/admin/templates/:name/i18n/:locale'', Verb ''translation:read''),
      (''GET /api/infra-3d/config'', Verb ''infra-3d:read''),
      (''POST /api/infra-3d/metrics'', Verb ''infra-3d:read''),
      (''GET /api/ai/config'', Auth),
      (''POST /api/ai/chat'', Verb ''ai:read''),
      (''POST /api/mcp'', Verb ''mcp:read''),
      (''GET /api/mcp'', Public),
      (''DELETE /api/mcp'', Public)]"

definition maintainer_policy :: "(string \<times> route_policy) list" where
  "maintainer_policy =
     [(''GET /api/cluster/state'', Verb ''cluster:read''),
      (''GET /api/inspect/metrics'', Verb ''inspect:read''),
      (''GET /api/inspect/catalog'', Verb ''inspect:read''),
      (''GET /api/inspect/server-time'', Verb ''inspect:read''),
      (''POST /api/inspect/exec'', Verb ''inspect:read''),
      (''GET /api/inspect/entities'', Verb ''inspect:read''),
      (''POST /api/inspect/values'', Verb ''inspect:read''),
      (''GET /api/oap/ttl'', Verb ''ttl:read''),
      (''GET /api/oap/config'', Verb ''config:read'')]"

definition operator_policy :: "(string \<times> route_policy) list" where
  "operator_policy =
     [(''GET /api/admin/layer-templates'', Verb ''layer-template:read''),
      (''GET /api/admin/overview-templates'', Verb ''overview-template:read''),
      (''GET /api/admin/overview-templates/:id'', Verb ''overview-template:read''),
      (''POST /api/admin/templates/save-translation'', Verb ''translation:write''),
      (''POST /api/admin/templates/delete-translation'', Verb ''translation:write''),
      (''POST /api/admin/templates/resync'', Auth),
      (''POST /api/admin/templates/disable'', Auth),
      (''POST /api/admin/templates/enable'', Auth),
      (''POST /api/admin/templates/:name/push-bundled'', Auth),
      (''POST /api/admin/templates/sync-all'', Auth),
      (''POST /api/admin/templates/save'', Auth),
      (''POST /api/admin/templates/validate'', Auth),
      (''GET /api/rule'', Verb ''rule:read''),
      (''GET /api/rule/status'', Verb ''rule:read''),
      (''GET /api/oal/files'', Verb ''rule:read''),
      (''GET /api/oal/files/:name'', Verb ''rule:read''),
      (''GET /api/oal/rules'', Verb ''rule:read''),
      (''GET /api/oal/rules/:source'', Verb ''rule:read''),
      (''GET /api/catalog/list'', Verb ''rule:read''),
      (''GET /api/catalog/bundled'', Verb ''rule:read''),
      (''GET /api/admin/audit'', Verb ''audit:read''),
      (''GET /api/admin/audit/stat'', Verb ''audit:read''),
      (''GET /api/admin/audit/status'', Verb ''audit:read''),
      (''GET /api/admin/token-usage'', Verb ''audit:read''),
      (''POST /api/rule'', Verb ''rule:write''),
      (''POST /api/rule/inactivate'', Verb ''rule:write''),
      (''POST /api/rule/delete'', Verb ''rule:delete''),
      (''GET /api/dump'', Verb ''rule:read''),
      (''GET /api/dump/:catalog'', Verb ''rule:read''),
      (''GET /api/debug/session/:id'', Verb ''live-debug:read''),
      (''GET /api/debug/sessions'', Verb ''live-debug:read''),
      (''GET /api/debug/status'', Verb ''live-debug:read''),
      (''POST /api/debug/session'', Verb ''live-debug:write''),
      (''POST /api/debug/session/:id/stop'', Verb ''live-debug:write''),
      (''GET /api/admin/alarm-rules'', Verb ''alarm-rule:read''),
      (''GET /api/admin/alarm-rules/:id'', Verb ''alarm-rule:read''),
      (''GET /api/admin/alarm-rules/:id/context'', Verb ''alarm-rule:read''),
      (''POST /api/layer/:key/profile/tasks'', Verb ''profile:enable''),
      (''POST /api/layer/:key/async/tasks'', Verb ''profile:enable''),
      (''POST /api/layer/:key/pprof/tasks'', Verb ''profile:enable''),
      (''POST /api/layer/:key/ebpf/tasks'', Verb ''profile:enable''),
      (''POST /api/layer/:key/ebpf/network/tasks'', Verb ''profile:enable''),
      (''POST /api/ebpf/network/tasks'', Verb ''profile:enable''),
      (''POST /api/ebpf/network/tasks/:taskId/keep-alive'', Verb ''profile:enable''),
      (''POST /api/continuous-profiling/policies'', Verb ''profile:enable''),
      (''POST /api/browser-errors/source-maps'', Verb ''source-map:write''),
      (''DELETE /api/browser-errors/source-maps/:id'', Verb ''source-map:write'')]"

definition admin_policy :: "(string \<times> route_policy) list" where
  "admin_policy =
     [(''GET /api/admin/auth-status'', Verb ''auth:read''),
      (''POST /api/admin/auth-status/probe'', Verb ''auth:read''),
      (''GET /api/admin/users'', Verb ''user:read'')]"

definition route_policies :: "(string \<times> route_policy) list" where
  "route_policies =
     public_policy @ session_policy @ viewer_policy @ maintainer_policy @ operator_policy @ admin_policy"

subsection \<open>The hook\<close>

text \<open>The strings a policy that is no object compares by: itself, or its elements.\<close>

fun policy_words :: "route_policy \<Rightarrow> string list" where
  "policy_words Public = [''public'']"
| "policy_words Auth = [''auth'']"
| "policy_words (Verb v) = [v]"
| "policy_words (AllOf vs) = vs"
| "policy_words (AnyOf vs) = []"

text \<open>A policy with the key of the entry that holds it: two \<open>AnyOf\<close> objects are the same only when
  they are one entry's.\<close>

fun same_policy :: "string \<times> route_policy \<Rightarrow> string \<times> route_policy \<Rightarrow> bool" where
  "same_policy (k, AnyOf vs) (k', AnyOf ws) = (k = k')"
| "same_policy (k, AnyOf vs) (k', q) = False"
| "same_policy (k, p) (k', AnyOf ws) = False"
| "same_policy (k, p) (k', q) = (policy_words p = policy_words q)"

fun policy_verbs :: "route_policy \<Rightarrow> verb list" where
  "policy_verbs Public = []"
| "policy_verbs Auth = []"
| "policy_verbs (Verb v) = [v]"
| "policy_verbs (AllOf vs) = vs"
| "policy_verbs (AnyOf vs) = vs"

datatype handler =
    OtherHandler string
  | RequireAuth
  | CheckVerb "verb list" bool
  | CheckAnyVerb "verb list" bool
  | GateScope scope_rule "verb list"
  | DenyReadOnly

record route_options =
  ro_methods :: "string list"
  ro_url :: string
  ro_handlers :: "handler list"

datatype route_error = NoPolicy | NoScope

record chosen_policy =
  ch_key :: string
  ch_entry :: string
  ch_policy :: route_policy

definition method_key :: "string \<Rightarrow> string \<Rightarrow> string" where
  "method_key meth url = meth @ '' '' @ url"

definition policy_for :: "string \<Rightarrow> string \<Rightarrow> chosen_policy option" where
  "policy_for meth url =
     (let key = method_key meth url; sibling = method_key ''GET'' url in
      case map_of route_policies key of
        Some p \<Rightarrow> Some \<lparr>ch_key = key, ch_entry = key, ch_policy = p\<rparr>
      | None \<Rightarrow>
          (if meth = ''HEAD'' then
             map_option (\<lambda>p. \<lparr>ch_key = key, ch_entry = sibling, ch_policy = p\<rparr>) (map_of route_policies sibling)
           else None))"

fun choose_policy :: "string \<Rightarrow> string list \<Rightarrow> chosen_policy option \<Rightarrow> chosen_policy option" where
  "choose_policy url [] chosen = chosen"
| "choose_policy url (m # ms) chosen =
     (case policy_for (to_upper m) url of
        None \<Rightarrow> choose_policy url ms chosen
      | Some p \<Rightarrow>
          (case chosen of
             Some c \<Rightarrow>
               if \<not> same_policy (ch_entry c, ch_policy c) (ch_entry p, ch_policy p) then chosen
               else choose_policy url ms (Some p)
           | None \<Rightarrow> choose_policy url ms (Some p)))"

definition scope_for :: "string \<Rightarrow> scope_rule option" where
  "scope_for key =
     (case map_of route_scope key of
        Some rule \<Rightarrow> Some rule
      | None \<Rightarrow>
          map_of route_scope (if prefix ''HEAD '' key then ''GET '' @ drop 5 key else key))"

fun is_auth_handler :: "handler \<Rightarrow> bool" where
  "is_auth_handler RequireAuth = True"
| "is_auth_handler (OtherHandler name) = (name = ''authPreHandler'')"
| "is_auth_handler h = False"

definition verb_handlers :: "route_policy \<Rightarrow> bool \<Rightarrow> handler list" where
  "verb_handlers p scoped =
     (case p of
        Auth \<Rightarrow> []
      | AnyOf vs \<Rightarrow> [CheckAnyVerb vs scoped]
      | Verb v \<Rightarrow> [CheckVerb [v] scoped]
      | AllOf vs \<Rightarrow> [CheckVerb vs scoped]
      | Public \<Rightarrow> [CheckVerb [''public''] scoped])"

definition route_auth_hook :: "route_options \<Rightarrow> route_error + route_options" where
  "route_auth_hook route =
     (case choose_policy (ro_url route) (ro_methods route) None of
        None \<Rightarrow>
          (if ro_url route = ''*'' \<or> prefix ''/metrics'' (ro_url route) then Inr route
           else if prefix ''/api/'' (ro_url route) then Inl NoPolicy
           else Inr route)
      | Some c \<Rightarrow>
          (if ch_policy c = Public then Inr route
           else (let existing = ro_handlers route;
                     verbs = policy_verbs (ch_policy c);
                     scope = scope_for (ch_key c) in
             if scope = None \<and> prefix ''/api/'' (ro_url route) \<and> list_ex (\<lambda>v. v \<in> set layer_scoped_verbs) verbs
             then Inl NoScope
             else Inr (route\<lparr>ro_handlers :=
               existing @
               (if list_ex is_auth_handler existing then [] else [RequireAuth]) @
               verb_handlers (ch_policy c) (scope \<noteq> None) @
               (case scope of Some rule \<Rightarrow> [GateScope rule verbs] | None \<Rightarrow> []) @
               (if list_ex (\<lambda>m. is_template_write_route (to_upper m) (ro_url route)) (ro_methods route)
                then [DenyReadOnly] else [])\<rparr>))))"

subsection \<open>Where the entries with a layer verb have their rule\<close>

definition needs_scope :: "route_policy \<Rightarrow> bool" where
  "needs_scope p = list_ex (\<lambda>v. v \<in> set layer_scoped_verbs) (policy_verbs p)"

definition unscoped_keys :: "string list" where
  "unscoped_keys = [''GET /api/ebpf/network/tasks'', ''POST /api/layer/:key/ebpf/network/tasks'']"

text \<open>For each entry of the policy table, the position of its key in \<open>unscoped_keys @ map fst route_scope\<close>;
  79 where no rule is needed.\<close>

definition scope_positions :: "nat list" where
  "scope_positions =
     [79, 79, 79, 79, 79, 79, 79, 79, 79, 79, 79, 79, 79, 79, 79, 79, 79, 79, 79, 79, 79, 14, 15,
      16, 17, 3, 4, 73, 74, 61, 62, 63, 64, 65, 66, 67, 68, 69, 70, 71, 72, 5, 6, 9, 10, 75, 76, 7,
      8, 12, 77, 78, 13, 18, 19, 20, 79, 28, 30, 31, 32, 29, 21, 22, 23, 24, 25, 26, 27, 11, 33, 35,
      36, 37, 38, 40, 41, 42, 44, 45, 46, 48, 49, 50, 0, 51, 52, 55, 57, 59, 56, 79, 79, 79, 79, 79,
      79, 79, 79, 79, 79, 79, 79, 79, 79, 79, 79, 79, 79, 79, 79, 79, 79, 79, 79, 79, 79, 79, 79, 79,
      79, 79, 79, 79, 79, 79, 79, 79, 79, 79, 79, 79, 79, 79, 79, 79, 79, 79, 79, 79, 79, 79, 79, 79,
      79, 79, 79, 79, 34, 39, 43, 47, 1, 53, 54, 58, 79, 79, 79, 79, 79]"

lemma scope_positions_needed:
  "list_all2 (\<lambda>e i. needs_scope (snd e) \<longrightarrow> i < 79) route_policies scope_positions"
  by code_simp

lemma scope_positions_right:
  "map fst (map fst (filter (\<lambda>x. snd x < 79) (zip route_policies scope_positions))) =
   map ((!) (unscoped_keys @ map fst route_scope)) (filter (\<lambda>i. i < 79) scope_positions)"
  by code_simp

lemma table_lengths: "length (unscoped_keys @ map fst route_scope) = 79"
  by code_simp

lemma needs_scope_listed:
  assumes "(k, p) \<in> set route_policies" and "needs_scope p"
  shows "k \<in> set unscoped_keys \<or> map_of route_scope k \<noteq> None"
proof -
  obtain n where n: "n < length route_policies" "route_policies ! n = (k, p)"
    using assms(1) by (auto simp: in_set_conv_nth)
  then have i: "scope_positions ! n < 79" "length scope_positions = length route_policies"
    using scope_positions_needed assms(2) by (auto simp: list_all2_conv_all_nth)
  then have "((k, p), scope_positions ! n) \<in> set (filter (\<lambda>x. snd x < 79) (zip route_policies scope_positions))"
    using n by (auto simp: in_set_zip)
  then have "k \<in> set (map fst (map fst (filter (\<lambda>x. snd x < 79) (zip route_policies scope_positions))))"
    by force
  then obtain i where "i < 79" "k = (unscoped_keys @ map fst route_scope) ! i"
    unfolding scope_positions_right by auto
  then have "k \<in> set (unscoped_keys @ map fst route_scope)"
    using table_lengths nth_mem [of i "unscoped_keys @ map fst route_scope"] by simp
  then show ?thesis by (auto simp: map_of_eq_None_iff)
qed

lemma unscoped_entries:
  "list_all (\<lambda>k. (case map_of route_policies k of Some p \<Rightarrow> needs_scope p | None \<Rightarrow> False) \<and> k \<notin> set (map fst route_scope))
     unscoped_keys"
  by code_simp

lemma no_head_keys: "list_all (\<lambda>k. \<not> prefix ''HEAD '' k) (map fst route_policies @ map fst route_scope)"
  by code_simp

lemma table_key_not_head:
  "map_of route_policies k = Some p \<Longrightarrow> \<not> prefix ''HEAD '' k" "map_of route_scope k = Some r \<Longrightarrow> \<not> prefix ''HEAD '' k"
proof -
  have key: "map_of xs k = Some y \<Longrightarrow> k \<in> set (map fst xs)" for xs :: "(string \<times> 'b) list" and y
    by (metis map_of_eq_None_iff option.distinct(1) set_map)
  show "map_of route_policies k = Some p \<Longrightarrow> \<not> prefix ''HEAD '' k" "map_of route_scope k = Some r \<Longrightarrow> \<not> prefix ''HEAD '' k"
    using no_head_keys key [of route_policies p] key [of route_scope r] unfolding list_all_iff set_append by blast+
qed

subsection \<open>Registering one method\<close>

definition lookup_key :: "string \<Rightarrow> string \<Rightarrow> string" where
  "lookup_key meth url = (if to_upper meth = ''HEAD'' then method_key ''GET'' url else method_key (to_upper meth) url)"

lemma head_key: "prefix ''HEAD '' (method_key ''HEAD'' url)" "''GET '' @ drop 5 (method_key ''HEAD'' url) = method_key ''GET'' url"
  by (simp_all add: method_key_def)

lemma policy_for_lookup:
  "policy_for (to_upper m) url =
     map_option (\<lambda>p. \<lparr>ch_key = method_key (to_upper m) url, ch_entry = lookup_key m url, ch_policy = p\<rparr>)
       (map_of route_policies (lookup_key m url))"
  using table_key_not_head(1) [of "method_key ''HEAD'' url"] head_key(1) [of url]
  by (cases "map_of route_policies (method_key (to_upper m) url)") (auto simp: policy_for_def lookup_key_def Let_def)

lemma scope_for_lookup:
  "map_of route_policies (lookup_key m url) = Some p \<Longrightarrow>
   scope_for (method_key (to_upper m) url) = map_of route_scope (lookup_key m url)"
  using table_key_not_head(1) [of "lookup_key m url"] table_key_not_head(2) [of "method_key ''HEAD'' url"] head_key [of url]
  by (auto simp: scope_for_def lookup_key_def split: option.split if_splits)

text \<open>What a route the hook accepts looks like: what it had, then authentication unless it was there,
  then the verb check, the scope gate and the read-only backstop.\<close>

lemma hook_shape:
  assumes "route_auth_hook r = Inr r'" and "choose_policy (ro_url r) (ro_methods r) None = Some c" and "ch_policy c \<noteq> Public"
  shows "ro_handlers r' = ro_handlers r @
      (if list_ex is_auth_handler (ro_handlers r) then [] else [RequireAuth]) @
      verb_handlers (ch_policy c) (scope_for (ch_key c) \<noteq> None) @
      (case scope_for (ch_key c) of Some rule \<Rightarrow> [GateScope rule (policy_verbs (ch_policy c))] | None \<Rightarrow> []) @
      (if list_ex (\<lambda>m. is_template_write_route (to_upper m) (ro_url r)) (ro_methods r) then [DenyReadOnly] else [])"
    "prefix ''/api/'' (ro_url r) \<Longrightarrow> needs_scope (ch_policy c) \<Longrightarrow> scope_for (ch_key c) \<noteq> None"
proof -
  let ?new = "(if list_ex is_auth_handler (ro_handlers r) then [] else [RequireAuth]) @
      verb_handlers (ch_policy c) (scope_for (ch_key c) \<noteq> None) @
      (case scope_for (ch_key c) of Some rule \<Rightarrow> [GateScope rule (policy_verbs (ch_policy c))] | None \<Rightarrow> []) @
      (if list_ex (\<lambda>m. is_template_write_route (to_upper m) (ro_url r)) (ro_methods r) then [DenyReadOnly] else [])"
  let ?bad = "scope_for (ch_key c) = None \<and> prefix ''/api/'' (ro_url r) \<and> needs_scope (ch_policy c)"
  have "route_auth_hook r = (if ?bad then Inl NoScope else Inr (r\<lparr>ro_handlers := ro_handlers r @ ?new\<rparr>))"
    using assms(2, 3) by (simp only: route_auth_hook_def needs_scope_def Let_def option.case if_False)
  then have "\<not> ?bad" "r' = r\<lparr>ro_handlers := ro_handlers r @ ?new\<rparr>"
    using assms(1) by (metis sum.distinct(1), metis sum.distinct(1) sum.inject(2))
  then show "ro_handlers r' = ro_handlers r @ ?new"
    "prefix ''/api/'' (ro_url r) \<Longrightarrow> needs_scope (ch_policy c) \<Longrightarrow> scope_for (ch_key c) \<noteq> None"
    by auto
qed

lemma chosen_policy_listed:
  "choose_policy url ms chosen = Some c \<Longrightarrow>
   chosen = Some c \<or> (\<exists>m \<in> set ms. policy_for (to_upper m) url = Some c)"
proof (induction ms arbitrary: chosen)
  case (Cons m ms)
  show ?case
  proof (cases "policy_for (to_upper m) url")
    case None
    then show ?thesis using Cons by auto
  next
    case (Some p)
    have step: "chosen = Some c \<or> choose_policy url ms (Some p) = Some c"
      using Cons.prems Some by (cases chosen) (simp_all split: if_splits)
    show ?thesis using step Cons.IH [of "Some p"] Some by (elim disjE; fastforce)
  qed
qed simp

subsection \<open>Properties\<close>

text \<open>Does the verb part of a policy let a holder of \<open>vs\<close> pass?\<close>

definition passes :: "verb list \<Rightarrow> route_policy \<Rightarrow> bool" where
  "passes vs p =
     (case p of
        AnyOf ws \<Rightarrow> list_ex (has_verb vs) ws
      | _ \<Rightarrow> list_all (has_verb vs) (policy_verbs p))"

definition refused_to :: "verb list \<Rightarrow> (string \<times> route_policy) list \<Rightarrow> string list" where
  "refused_to vs ps = map fst (filter (\<lambda>(k, p). \<not> passes vs p) ps)"

definition open_to :: "verb list \<Rightarrow> (string \<times> route_policy) list \<Rightarrow> string list" where
  "open_to vs ps = map fst (filter (\<lambda>(k, p). passes vs p) ps)"

lemma viewer_section:
  "refused_to viewer_verbs viewer_policy = [''GET /api/admin/templates/:name/i18n/:locale'']"
  by code_simp

lemma maintainer_section:
  "refused_to maintainer_verbs maintainer_policy = []"
  "open_to viewer_verbs maintainer_policy =
     [''GET /api/inspect/metrics'', ''GET /api/inspect/catalog'', ''GET /api/inspect/server-time'',
      ''POST /api/inspect/exec'', ''GET /api/inspect/entities'', ''POST /api/inspect/values'']"
  by code_simp+

lemma operator_section:
  "refused_to operator_verbs operator_policy =
     [''GET /api/admin/audit'', ''GET /api/admin/audit/stat'', ''GET /api/admin/audit/status'', ''GET /api/admin/token-usage'']"
  "open_to maintainer_verbs (filter (\<lambda>(k, p). p \<noteq> Auth) operator_policy) = []"
  by code_simp+

lemma admin_section: "open_to operator_verbs admin_policy = []"
  by code_simp

text \<open>The table read as the sections of its comments.  Each section is reached by the built-in role
  it is named after and by nothing below that role, with these exceptions: one template route listed
  for viewers is refused to them, the inspection routes listed for maintainers are open to viewers,
  and the audit routes listed for operators are refused to them; a route that needs no verb is open
  to every session.\<close>

theorem role_sections:
  "refused_to viewer_verbs viewer_policy = [''GET /api/admin/templates/:name/i18n/:locale''] \<and>
   refused_to maintainer_verbs maintainer_policy = [] \<and>
   open_to viewer_verbs maintainer_policy =
     [''GET /api/inspect/metrics'', ''GET /api/inspect/catalog'', ''GET /api/inspect/server-time'',
      ''POST /api/inspect/exec'', ''GET /api/inspect/entities'', ''POST /api/inspect/values''] \<and>
   refused_to operator_verbs operator_policy =
     [''GET /api/admin/audit'', ''GET /api/admin/audit/stat'', ''GET /api/admin/audit/status'', ''GET /api/admin/token-usage''] \<and>
   open_to maintainer_verbs (filter (\<lambda>(k, p). p \<noteq> Auth) operator_policy) = [] \<and>
   open_to operator_verbs admin_policy = []"
  using viewer_section maintainer_section operator_section admin_section by blast

text \<open>C36: which registrations of an API route fail, whatever its method, URL and own pre-handlers.  A
  route fails for want of a policy exactly when neither it nor, for HEAD, its GET sibling is listed,
  and for want of a scope rule exactly when it is one of two listed keys: every other route that reads
  per-service data has a rule.\<close>

theorem registration_outcome:
  assumes "prefix ''/api/'' url"
  shows "(route_auth_hook \<lparr>ro_methods = [m], ro_url = url, ro_handlers = hs\<rparr> = Inl NoPolicy \<longleftrightarrow>
      lookup_key m url \<notin> set (map fst route_policies)) \<and>
    (route_auth_hook \<lparr>ro_methods = [m], ro_url = url, ro_handlers = hs\<rparr> = Inl NoScope \<longleftrightarrow>
      lookup_key m url \<in> {''GET /api/ebpf/network/tasks'', ''POST /api/layer/:key/ebpf/network/tasks''})"
proof -
  let ?r = "\<lparr>ro_methods = [m], ro_url = url, ro_handlers = hs\<rparr>" and ?k = "lookup_key m url"
  have url: "url \<noteq> ''*''" "\<not> prefix ''/metrics'' url" using assms by (auto simp: prefix_def)
  show ?thesis
  proof (cases "map_of route_policies ?k")
    case None
    then have "route_auth_hook ?r = Inl NoPolicy"
      using assms url by (simp add: route_auth_hook_def policy_for_lookup)
    moreover have "?k \<notin> set (map fst route_policies)" using None by (simp add: map_of_eq_None_iff)
    moreover have "?k \<notin> set unscoped_keys" using None unscoped_entries by (auto simp: list_all_iff)
    ultimately show ?thesis by (simp add: unscoped_keys_def)
  next
    case (Some p)
    have hook: "route_auth_hook ?r = Inl NoScope \<longleftrightarrow> needs_scope p \<and> map_of route_scope ?k = None"
      "route_auth_hook ?r \<noteq> Inl NoPolicy"
      using Some assms scope_for_lookup [OF Some]
      by (auto simp: route_auth_hook_def policy_for_lookup Let_def needs_scope_def)
    have "needs_scope p \<and> map_of route_scope ?k = None \<longleftrightarrow> ?k \<in> set unscoped_keys"
      using needs_scope_listed [OF map_of_SomeD [OF Some]] unscoped_entries Some
      by (auto simp: list_all_iff map_of_eq_None_iff)
    moreover have "?k \<in> set (map fst route_policies)"
      using map_of_SomeD [OF Some] by force
    ultimately show ?thesis using hook by (simp add: unscoped_keys_def)
  qed
qed

theorem registration_outcome_witness:
  "route_auth_hook \<lparr>ro_methods = [''POST''], ro_url = ''/api/layer/:key/ebpf/network/tasks'', ro_handlers = []\<rparr> = Inl NoScope"
  using registration_outcome [of "''/api/layer/:key/ebpf/network/tasks''" "''POST''" "[]"]
  by (simp add: lookup_key_def method_key_def to_upper_def upper_char_def is_lower_def)

end
