(* ===== verification/JsonText.thy ===== *)
theory JsonText
  imports Json Base64
begin

text \<open>
  JSON through bytes: a value all of whose strings are well-formed Unicode is written as well-formed
  text, so encoding it, decoding it and parsing it gives the value back.
\<close>

subsection \<open>Well-formed text, piece by piece\<close>

lemma take_continuation_append:
  "take_continuation n lo hi s = (a, r) \<Longrightarrow> length a = n \<Longrightarrow> take_continuation n lo hi (s @ x) = (a, r @ x)"
proof (induction n lo hi s arbitrary: a r rule: take_continuation.induct)
  case (3 n lo hi c s)
  then show ?case by (auto split: if_splits prod.splits)
qed auto

lemma take_continuation_exact:
  "take_continuation n lo hi s = (a, r) \<Longrightarrow> length a = n \<Longrightarrow> take_continuation n lo hi a = (a, [])"
proof (induction n lo hi s arbitrary: a r rule: take_continuation.induct)
  case (3 n lo hi c s)
  then show ?case by (auto split: if_splits prod.splits)
qed auto

lemma well_formed_Cons_iff:
  "well_formed (b # s) \<longleftrightarrow>
   (\<exists>n lo hi a r. utf8_lead b = Some (n, lo, hi) \<and> take_continuation n lo hi s = (a, r) \<and> length a = n \<and> well_formed r)"
proof
  assume wf: "well_formed (b # s)"
  then obtain a' r' n lo hi where lead: "utf8_lead b = Some (n, lo, hi)" and s: "s = a' @ r'" "length a' = n" "well_formed r'"
    by (auto elim: well_formed_Cons)
  obtain a r where t: "take_continuation n lo hi s = (a, r)" by (cases "take_continuation n lo hi s")
  have repl: "utf8_lead CHR 0xEF = Some (2, 128, 191)" by (simp add: utf8_lead_def)
  have "length a = n"
  proof (rule ccontr)
    assume "length a \<noteq> n"
    with wf lead t have "b = CHR 0xEF" "s = CHR 0xBF # CHR 0xBD # utf8_decode r"
      by (auto simp: well_formed_def replacement_char_def)
    with repl lead t \<open>length a \<noteq> n\<close> show False by (auto simp: byte_in_def numeral_2_eq_2)
  qed
  moreover have "r = r'" using take_continuation_spec [OF t] s \<open>length a = n\<close> by auto
  ultimately show "\<exists>n lo hi a r. utf8_lead b = Some (n, lo, hi) \<and> take_continuation n lo hi s = (a, r) \<and> length a = n \<and> well_formed r"
    using lead t s by blast
next
  assume "\<exists>n lo hi a r. utf8_lead b = Some (n, lo, hi) \<and> take_continuation n lo hi s = (a, r) \<and> length a = n \<and> well_formed r"
  then show "well_formed (b # s)"
    using take_continuation_spec by (fastforce simp: well_formed_def)
qed

lemma well_formed_append: "well_formed a \<Longrightarrow> well_formed b \<Longrightarrow> well_formed (a @ b)"
proof (induction a rule: length_induct)
  case (1 a)
  show ?case
  proof (cases a)
    case (Cons c s)
    then obtain n lo hi x r where c: "utf8_lead c = Some (n, lo, hi)" "take_continuation n lo hi s = (x, r)"
        "length x = n" "well_formed r"
      using 1(2) by (auto simp: well_formed_Cons_iff)
    have "length r < length a" using take_continuation_length [OF c(2)] Cons by simp
    then have "well_formed (r @ b)" using 1(1, 3) c(4) by blast
    then show ?thesis using c take_continuation_append [OF c(2, 3), of b] Cons by (auto simp: well_formed_Cons_iff)
  qed (use 1 in simp)
qed

lemma well_formed_byte: "(of_char c :: nat) < 128 \<Longrightarrow> well_formed s \<Longrightarrow> well_formed (c # s)"
  using well_formed_append [OF well_formed_ascii [of "[c]"]] by simp

lemma well_formed_Nil [simp]: "well_formed []"
  by (simp add: well_formed_def)

lemma well_formed_join: "well_formed sep \<Longrightarrow> \<forall>x \<in> set xs. well_formed x \<Longrightarrow> well_formed (join_with sep xs)"
  by (induction sep xs rule: join_with.induct) (auto intro: well_formed_append)

lemma lead_ascii: "utf8_lead b = Some (0, lo, hi) \<Longrightarrow> (of_char b :: nat) < 128"
  by (auto simp: utf8_lead_def Let_def split: if_splits)

lemma lead_high: "utf8_lead b = Some (n, lo, hi) \<Longrightarrow> 0 < n \<Longrightarrow> 194 \<le> (of_char b :: nat)"
  by (auto simp: utf8_lead_def Let_def split: if_splits)

lemma hex_digit_ascii: "n < 16 \<Longrightarrow> (of_char (hex_digit n) :: nat) < 128"
  by (auto simp: hex_digit_def)

lemma hex4_ascii: "list_all (\<lambda>c. (of_char c :: nat) < 128) (hex4 n)"
  by (simp add: hex4_def hex_digit_ascii)

lemma short_escape_low: "short_escape c = Some e \<Longrightarrow> (of_char c :: nat) < 128 \<and> (of_char e :: nat) < 128"
  by (auto simp: short_escape_def split: if_splits)

lemma escape_high: "\<forall>c \<in> set a. 128 \<le> (of_char c :: nat) \<and> c \<noteq> CHR 0xED \<Longrightarrow> escape_string (a @ r) = a @ escape_string r"
proof (induction a)
  case (Cons c a)
  have "128 \<le> (of_char c :: nat)" using Cons.prems by simp
  then have "short_escape c = None" using short_escape_low [of c] by (cases "short_escape c") force+
  moreover have "\<not> at_surrogate (c # a @ r)" using Cons.prems by (cases "(c # a @ r)" rule: at_surrogate.cases) auto
  ultimately show ?case using Cons by simp
qed simp

lemma escape_lead:
  assumes "utf8_lead b = Some (n, lo, hi)" and "take_continuation n lo hi s = (a, r)" and "length a = n" and "0 < n"
  shows "escape_string (b # s) = b # a @ escape_string r"
proof -
  note spec = take_continuation_spec [OF assms(2)]
  have s: "s = a @ r" and lo: "a \<noteq> [] \<longrightarrow> byte_in lo hi (hd a)" using spec by auto
  have bytes: "\<forall>c \<in> set a. byte_in 128 191 c"
    using spec utf8_lead_facts [OF assms(1, 4)] by (cases a) (auto simp: byte_in_def)
  then have "\<forall>c \<in> set a. 128 \<le> (of_char c :: nat) \<and> c \<noteq> CHR 0xED" by (auto simp: byte_in_def)
  from escape_high [OF this] have "escape_string (a @ r) = a @ escape_string r" .
  moreover have "short_escape b = None" "\<not> (of_char b :: nat) < 32"
    using lead_high [OF assms(1, 4)] short_escape_low [of b] by (cases "short_escape b", force+)
  moreover have "\<not> at_surrogate (b # s)"
  proof
    assume "at_surrogate (b # s)"
    then have "b = CHR 0xED" "160 \<le> (of_char (hd s) :: nat)" "s \<noteq> []"
      by (cases "b # s" rule: at_surrogate.cases; simp)+
    then show False using utf8_lead_facts [OF assms(1, 4)] lo s assms(3, 4) by (cases a) (auto simp: byte_in_def)
  qed
  ultimately show ?thesis using s by simp
qed

lemma well_formed_escape: "well_formed s \<Longrightarrow> well_formed (escape_string s)"
proof (induction s rule: length_induct)
  case (1 s)
  show ?case
  proof (cases s)
    case (Cons b t)
    then obtain n lo hi a r where b: "utf8_lead b = Some (n, lo, hi)" "take_continuation n lo hi t = (a, r)"
        "length a = n" "well_formed r"
      using 1(2) by (auto simp: well_formed_Cons_iff)
    have "length r < length s" using take_continuation_length [OF b(2)] Cons by simp
    then have r: "well_formed (escape_string r)" using 1(1) b(4) by blast
    show ?thesis
    proof (cases "n = 0")
      case True
      then have t: "t = r" and low: "(of_char b :: nat) < 128" using b lead_ascii by auto
      then have "\<not> at_surrogate (b # t)" by (cases "b # t" rule: at_surrogate.cases) auto
      moreover have "well_formed (hex4 k @ escape_string r)" for k
        by (intro well_formed_append well_formed_ascii hex4_ascii r)
      ultimately show ?thesis using low r Cons t
        by (auto simp: dest: short_escape_low intro!: well_formed_byte split: option.split)
    next
      case False
      then have "escape_string s = (b # a) @ escape_string r" using escape_lead b Cons by simp
      moreover have "well_formed (b # a)"
        using b(1, 3) take_continuation_exact [OF b(2, 3)] by (auto simp: well_formed_Cons_iff)
      ultimately show ?thesis using r well_formed_append by metis
    qed
  qed simp
qed

lemma no_surrogate_high: "\<forall>c \<in> set a. 128 \<le> (of_char c :: nat) \<and> c \<noteq> CHR 0xED \<Longrightarrow> no_surrogate (a @ r) \<longleftrightarrow> no_surrogate r"
proof (induction a)
  case (Cons c a)
  have "\<not> at_surrogate (c # a @ r)" using Cons.prems by (cases "(c # a @ r)" rule: at_surrogate.cases) auto
  then show ?case using Cons by simp
qed simp

lemma well_formed_no_surrogate: "well_formed s \<Longrightarrow> no_surrogate s"
proof (induction s rule: length_induct)
  case (1 s)
  show ?case
  proof (cases s)
    case (Cons b t)
    then obtain a r n lo hi where b: "utf8_lead b = Some (n, lo, hi)" "t = a @ r" "well_formed r"
        "\<forall>c \<in> set a. byte_in 128 191 c" "b = CHR 0xED \<longrightarrow> (\<forall>c t. a = c # t \<longrightarrow> \<not> 160 \<le> (of_char c :: nat)) \<and> a \<noteq> []"
      using 1(2) by (auto elim: well_formed_Cons)
    have "no_surrogate r" using 1(1) b Cons by simp
    moreover have "\<forall>c \<in> set a. 128 \<le> (of_char c :: nat) \<and> c \<noteq> CHR 0xED" using b(4) by (auto simp: byte_in_def)
    moreover have "\<not> at_surrogate (b # t)" using b(2, 5) by (cases "b # t" rule: at_surrogate.cases; cases a) auto
    ultimately show ?thesis using Cons b(2) no_surrogate_high by simp
  qed simp
qed

subsection \<open>Values of well-formed strings\<close>

fun text_json :: "json \<Rightarrow> bool" where
  "text_json (JStr s) \<longleftrightarrow> well_formed s"
| "text_json (JArr vs) \<longleftrightarrow> (\<forall>v \<in> set vs. text_json v)"
| "text_json (JObj ms) \<longleftrightarrow> distinct (map fst ms) \<and> (\<forall>m \<in> set ms. well_formed (fst m) \<and> text_json (snd m))"
| "text_json _ \<longleftrightarrow> True"

lemma text_json_wf: "text_json v \<Longrightarrow> wf_json v"
  by (induction v rule: text_json.induct) (auto simp: well_formed_no_surrogate)

lemma show_int_ascii: "list_all (\<lambda>c. (of_char c :: nat) < 128) (show_int i)"
proof -
  have "\<forall>c \<in> set (nat_digits n). (of_char c :: nat) < 128" for n
    using nat_digits_digits [of n] by (auto simp: is_digit_def char_le_of_char)
  then show ?thesis by (auto simp: show_int_def list_all_iff)
qed

lemma well_formed_marks:
  "well_formed [CHR 0x22]" "well_formed '',''" "well_formed '':''" "well_formed ''[''" "well_formed '']''"
  "well_formed ''{''" "well_formed ''}''"
  by (simp_all add: well_formed_ascii)

lemma well_formed_quote: "well_formed s \<Longrightarrow> well_formed (quote_string s)"
  using well_formed_append [OF well_formed_marks(1) well_formed_append [OF well_formed_escape well_formed_marks(1)]]
  by (simp add: quote_string_def)

lemma text_json_text: "text_json v \<Longrightarrow> well_formed (json_stringify v)"
proof (induction v rule: text_json.induct)
  case (2 vs)
  then have "well_formed (join_with '','' (map json_stringify vs))"
    by (intro well_formed_join well_formed_marks) auto
  then show ?case
    using well_formed_append [OF well_formed_marks(4) well_formed_append [OF _ well_formed_marks(5)]] by simp
next
  case (3 ms)
  have "well_formed (quote_string (fst m) @ '':'' @ json_stringify (snd m))" if "m \<in> set ms" for m
    using 3 that by (intro well_formed_append well_formed_quote well_formed_marks) auto
  then have "well_formed (join_with '','' (map (\<lambda>m. quote_string (fst m) @ '':'' @ json_stringify (snd m)) ms))"
    by (intro well_formed_join well_formed_marks) auto
  then show ?case
    using well_formed_append [OF well_formed_marks(6) well_formed_append [OF _ well_formed_marks(7)]] by simp
qed (auto intro: well_formed_quote well_formed_ascii show_int_ascii)

lemma json_bytes_roundtrip: "text_json v \<Longrightarrow> json_parse (utf8_decode (utf8_encode (json_stringify v))) = Some v"
  by (simp add: text_json_text utf8_encode_id utf8_decode_id json_roundtrip text_json_wf)

end
