(* ===== verification/Sha256.thy ===== *)
theory Sha256
  imports Base64 "HOL-Library.Word"
begin

unbundle bit_operations_syntax

text \<open>
  SHA-256 and HMAC-SHA-256, the two digests of the platform's \<open>node:crypto\<close> the credentials are built
  on (FIPS 180-4, RFC 2104).  A message is a string of bytes, a digest is 32 bytes.
\<close>

type_synonym word32 = "32 word"

text \<open>The constants are the first 32 bits of the fractional parts of the cube and square roots of the
  first primes: an integer root of the prime scaled by \<open>2 ^ 32\<close>, read modulo \<open>2 ^ 32\<close>.\<close>

definition int_root :: "nat \<Rightarrow> nat \<Rightarrow> nat" where
  "int_root k n = foldl (\<lambda>r b. if (r + 2 ^ b) ^ k \<le> n then r + 2 ^ b else r) 0 (rev [0..<36])"

definition small_primes :: "nat \<Rightarrow> nat list" where
  "small_primes n = filter (\<lambda>p. list_all (\<lambda>d. p mod d \<noteq> 0) [2..<p]) [2..<n]"

definition root_bits :: "nat \<Rightarrow> nat \<Rightarrow> word32" where
  "root_bits k p = of_nat (int_root k (p * (2 ^ 32) ^ k))"

definition round_constants :: "word32 list" where
  "round_constants = map (root_bits 3) (small_primes 312)"

definition initial_hash :: "word32 list" where
  "initial_hash = map (root_bits 2) (small_primes 20)"

definition rotr :: "nat \<Rightarrow> word32 \<Rightarrow> word32" where
  "rotr n x = drop_bit n x OR push_bit (32 - n) x"

definition choice :: "word32 \<Rightarrow> word32 \<Rightarrow> word32 \<Rightarrow> word32" where
  "choice x y z = (x AND y) XOR (NOT x AND z)"

definition majority :: "word32 \<Rightarrow> word32 \<Rightarrow> word32 \<Rightarrow> word32" where
  "majority x y z = (x AND y) XOR (x AND z) XOR (y AND z)"

definition big_sigma0 :: "word32 \<Rightarrow> word32" where "big_sigma0 x = rotr 2 x XOR rotr 13 x XOR rotr 22 x"
definition big_sigma1 :: "word32 \<Rightarrow> word32" where "big_sigma1 x = rotr 6 x XOR rotr 11 x XOR rotr 25 x"
definition small_sigma0 :: "word32 \<Rightarrow> word32" where "small_sigma0 x = rotr 7 x XOR rotr 18 x XOR drop_bit 3 x"
definition small_sigma1 :: "word32 \<Rightarrow> word32" where "small_sigma1 x = rotr 17 x XOR rotr 19 x XOR drop_bit 10 x"

text \<open>The message followed by a one bit, zeros and its length in bits, in whole blocks of 64 bytes.\<close>

definition be_bytes :: "nat \<Rightarrow> nat \<Rightarrow> nat list" where
  "be_bytes n x = map (\<lambda>i. x div 256 ^ (n - 1 - i) mod 256) [0..<n]"

definition padded :: "nat list \<Rightarrow> nat list" where
  "padded m =
     m @ [128] @ replicate ((119 - length m mod 64) mod 64) 0 @ be_bytes 8 (8 * length m)"

fun words_of_bytes :: "nat list \<Rightarrow> word32 list" where
  "words_of_bytes (a # b # c # d # r) = of_nat (((a * 256 + b) * 256 + c) * 256 + d) # words_of_bytes r"
| "words_of_bytes _ = []"

text \<open>The schedule, grown from the sixteen words of a block, the latest word first.\<close>

fun extend_schedule :: "nat \<Rightarrow> word32 list \<Rightarrow> word32 list" where
  "extend_schedule 0 w = w"
| "extend_schedule (Suc n) w =
     extend_schedule n ((small_sigma1 (w ! 1) + w ! 6 + small_sigma0 (w ! 14) + w ! 15) # w)"

fun sha_round :: "word32 list \<Rightarrow> word32 \<times> word32 \<Rightarrow> word32 list" where
  "sha_round [a, b, c, d, e, f, g, h] (k, w) =
     (let t1 = h + big_sigma1 e + choice e f g + k + w; t2 = big_sigma0 a + majority a b c in
      [t1 + t2, a, b, c, d + t1, e, f, g])"
| "sha_round st kw = st"

definition sha_block :: "word32 list \<Rightarrow> word32 list \<Rightarrow> word32 list" where
  "sha_block st block =
     map2 (+) st (foldl sha_round st (zip round_constants (rev (extend_schedule 48 (rev block)))))"

function sha_blocks :: "word32 list \<Rightarrow> word32 list \<Rightarrow> word32 list" where
  "sha_blocks st ws = (if ws = [] then st else sha_blocks (sha_block st (take 16 ws)) (drop 16 ws))"
  by pat_completeness auto
termination
  by (relation "measure (\<lambda>(st, ws). length ws)") auto

declare sha_blocks.simps [simp del]

definition sha256 :: "string \<Rightarrow> string" where
  "sha256 m =
     concat (map (\<lambda>w. map char_of (be_bytes 4 (unat w)))
       (sha_blocks initial_hash (words_of_bytes (padded (map of_char m)))))"

definition hex_digits :: string where
  "hex_digits = ''0123456789abcdef''"

definition hex_string :: "string \<Rightarrow> string" where
  "hex_string s = concat (map (\<lambda>c. [hex_digits ! (of_char c div 16), hex_digits ! (of_char c mod 16)]) s)"

definition hmac_key :: "string \<Rightarrow> nat list" where
  "hmac_key key =
     (let k = map of_char (if 64 < length key then sha256 key else key) in k @ replicate (64 - length k) 0)"

definition xor_bytes :: "nat \<Rightarrow> nat list \<Rightarrow> string" where
  "xor_bytes p ks = map (\<lambda>k. char_of (k XOR p)) ks"

definition hmac_sha256 :: "string \<Rightarrow> string \<Rightarrow> string" where
  "hmac_sha256 key m =
     (let k = hmac_key key in sha256 (xor_bytes 92 k @ sha256 (xor_bytes 54 k @ m)))"

subsection \<open>Length\<close>

lemma length_sha_round: "length st = 8 \<Longrightarrow> length (sha_round st kw) = 8"
  by (cases "(st, kw)" rule: sha_round.cases) (simp_all add: Let_def)

lemma length_sha_block: "length st = 8 \<Longrightarrow> length (sha_block st b) = 8"
proof -
  assume st: "length st = 8"
  have "length (foldl sha_round st kws) = 8" for kws
    using st by (induction kws arbitrary: st) (simp_all add: length_sha_round)
  then show ?thesis using st by (simp add: sha_block_def)
qed

lemma length_sha_blocks: "length st = 8 \<Longrightarrow> length (sha_blocks st ws) = 8"
proof (induction st ws rule: sha_blocks.induct)
  case (1 st ws)
  then show ?case by (subst sha_blocks.simps) (simp add: length_sha_block)
qed

lemma length_sha256: "length (sha256 m) = 32"
proof -
  have "length (small_primes 20) = 8" by code_simp
  then have eight: "length (sha_blocks initial_hash ws) = 8" for ws
    by (intro length_sha_blocks) (simp add: initial_hash_def)
  have "length (concat (map (\<lambda>w. map char_of (be_bytes 4 (unat w)) :: string) ws)) = 4 * length ws" for ws :: "word32 list"
    by (induction ws) (simp_all add: be_bytes_def)
  then show ?thesis by (simp add: sha256_def eight)
qed

end
