(* ===== verification/Signing.thy ===== *)
theory Signing
  imports JsonText Sha256 Policy
begin

text \<open>
  The signed values the authorization server hands out: \<open>apps/bff/src/oauth/signing.ts\<close>, and its access
  and refresh tokens: the issuing half of \<open>apps/bff/src/oauth/tokens.ts\<close>.  A value is
  \<open>payload.mac\<close>, the payload the base64url text of a JSON envelope.  A signed \<open>null\<close>, which only a holder
  of the key can make, raises in the code and is refused here; an \<open>exp\<close> the signer writes is a number, and
  another value never expires here.
\<close>

subsection \<open>Signing and verifying\<close>

datatype signed_kind = ClientKind | CodeKind | AccessKind | RefreshKind | RequestKind

fun signed_kind_name :: "signed_kind \<Rightarrow> string" where
  "signed_kind_name ClientKind = ''client''"
| "signed_kind_name CodeKind = ''code''"
| "signed_kind_name AccessKind = ''access''"
| "signed_kind_name RefreshKind = ''refresh''"
| "signed_kind_name RequestKind = ''request''"

definition mac :: "string \<Rightarrow> string \<Rightarrow> string" where
  "mac key payload = b64url_encode (hmac_sha256 (utf8_encode key) (utf8_encode payload))"

definition envelope_json :: "signed_kind \<Rightarrow> json \<Rightarrow> int option \<Rightarrow> json" where
  "envelope_json kind data exp =
     JObj ((''kind'', JStr (signed_kind_name kind)) #
           (case exp of None \<Rightarrow> [] | Some e \<Rightarrow> [(''exp'', JNum e)]) @ [(''data'', data)])"

definition sign :: "string \<Rightarrow> signed_kind \<Rightarrow> json \<Rightarrow> nat option \<Rightarrow> nat \<Rightarrow> string" where
  "sign key kind data ttl now =
     (let payload = b64url_encode (utf8_encode (json_stringify
            (envelope_json kind data (map_option (\<lambda>t. int now + int t) ttl)))) in
      payload @ ''.'' @ mac key payload)"

definition exp_passed :: "json option \<Rightarrow> nat \<Rightarrow> bool" where
  "exp_passed v now =
     (case v of Some (JNum e) \<Rightarrow> e \<le> int now | Some JNull \<Rightarrow> True | _ \<Rightarrow> False)"

definition verify_signed :: "string \<Rightarrow> signed_kind \<Rightarrow> string \<Rightarrow> nat \<Rightarrow> json option" where
  "verify_signed key kind raw now =
     (case last_index_of CHR ''.'' raw of
        None \<Rightarrow> None
      | Some dot \<Rightarrow>
          if dot = 0 then None
          else (let payload = take dot raw; given = utf8_encode (drop (Suc dot) raw); want = utf8_encode (mac key payload) in
            if length given \<noteq> length want \<or> given \<noteq> want then None
            else (case json_parse (utf8_decode (b64_decode payload)) of
                    None \<Rightarrow> None
                  | Some env \<Rightarrow>
                      if get_field ''kind'' env \<noteq> Some (JStr (signed_kind_name kind)) then None
                      else if exp_passed (get_field ''exp'' env) now then None
                      else get_field ''data'' env)))"

definition new_id :: "string \<Rightarrow> string" where
  "new_id entropy = b64url_encode entropy"

subsection \<open>Tokens\<close>

definition access_prefix :: string where "access_prefix = ''hzo_''"
definition refresh_prefix :: string where "refresh_prefix = ''hzr_''"

record token_claims =
  tc_sub :: string
  tc_scope :: string
  tc_aud :: "string option"
  tc_jti :: string

definition claims_json :: "token_claims \<Rightarrow> json" where
  "claims_json c =
     JObj ([(''sub'', JStr (tc_sub c)), (''scope'', JStr (tc_scope c))] @
           (case tc_aud c of None \<Rightarrow> [] | Some a \<Rightarrow> [(''aud'', JStr a)]) @ [(''jti'', JStr (tc_jti c))])"

text \<open>The claims of a verified value; the server signs no value of these kinds without its strings.\<close>

definition claims_of :: "json \<Rightarrow> token_claims option" where
  "claims_of v =
     (case (as_string (get_field ''sub'' v), as_string (get_field ''scope'' v), as_string (get_field ''jti'' v)) of
        (Some s, Some sc, Some j) \<Rightarrow>
          Some \<lparr>tc_sub = s, tc_scope = sc, tc_aud = as_string (get_field ''aud'' v), tc_jti = j\<rparr>
      | _ \<Rightarrow> None)"

definition issue_access_token :: "string \<Rightarrow> token_claims \<Rightarrow> nat \<Rightarrow> nat \<Rightarrow> string" where
  "issue_access_token key claims ttl now = access_prefix @ sign key AccessKind (claims_json claims) (Some ttl) now"

definition issue_refresh_token :: "string \<Rightarrow> token_claims \<Rightarrow> nat \<Rightarrow> nat \<Rightarrow> string" where
  "issue_refresh_token key claims ttl now = refresh_prefix @ sign key RefreshKind (claims_json claims) (Some ttl) now"

definition read_refresh_token :: "string \<Rightarrow> string \<Rightarrow> nat \<Rightarrow> token_claims option" where
  "read_refresh_token key raw now =
     (if \<not> prefix refresh_prefix raw then None
      else (case verify_signed key RefreshKind (drop (length refresh_prefix) raw) now of
              None \<Rightarrow> None
            | Some v \<Rightarrow> claims_of v))"

subsection \<open>Lemmas\<close>

lemma mac_no_dot: "CHR ''.'' \<notin> set (mac key payload)"
  by (simp add: mac_def b64url_encode_plain)

lemma last_dot: "last_index_of CHR ''.'' (p @ ''.'' @ mac key q) = Some (length p)"
  using last_index_of_append [of "CHR ''.''" "mac key q" p] mac_no_dot by simp

lemma b64url_Nil_iff: "b64url_encode s = [] \<longleftrightarrow> s = []"
  using b64url_encode_inject [of s "[]"] by (simp add: b64url_encode_def sextets_Nil_iff)

lemma signed_kind_name_inject [simp]: "signed_kind_name k = signed_kind_name k' \<longleftrightarrow> k = k'"
  by (cases k; cases k') simp_all

lemma signed_kind_name_text: "well_formed (signed_kind_name k)"
  by (cases k) (simp_all add: well_formed_ascii)

lemma envelope_text: "text_json data \<Longrightarrow> text_json (envelope_json kind data exp)"
  by (auto simp: envelope_json_def signed_kind_name_text well_formed_ascii split: option.split)

lemma envelope_fields:
  "get_field ''kind'' (envelope_json kind data exp) = Some (JStr (signed_kind_name kind))"
  "get_field ''exp'' (envelope_json kind data exp) = map_option JNum exp"
  "get_field ''data'' (envelope_json kind data exp) = Some data"
  by (simp_all add: envelope_json_def split: option.split)

lemma claims_text: "well_formed (tc_sub c) \<Longrightarrow> well_formed (tc_scope c) \<Longrightarrow> \<forall>a. tc_aud c = Some a \<longrightarrow> well_formed a \<Longrightarrow>
   well_formed (tc_jti c) \<Longrightarrow> text_json (claims_json c)"
  by (auto simp: claims_json_def well_formed_ascii split: option.split)

lemma claims_of_json [simp]: "claims_of (claims_json c) = Some c"
  by (simp add: claims_of_def claims_json_def split: option.split)

text \<open>What a signer wrote, read by a verifier: the payload in front of the last dot, its MAC after it.\<close>

lemma verify_signed_text:
  "verify_signed key kind (p @ ''.'' @ mac key p) now =
     (if p = [] then None
      else (case json_parse (utf8_decode (b64_decode p)) of
              None \<Rightarrow> None
            | Some env \<Rightarrow>
                if get_field ''kind'' env \<noteq> Some (JStr (signed_kind_name kind)) then None
                else if exp_passed (get_field ''exp'' env) now then None
                else get_field ''data'' env))"
  unfolding verify_signed_def last_dot by simp

lemma payload_not_Nil: "b64url_encode (utf8_encode (json_stringify (envelope_json kind data exp))) \<noteq> []"
  by (simp add: b64url_Nil_iff envelope_json_def)

text \<open>A signed value reads back as itself, as its own kind and in its own time only.  Whatever the key
  and the data, verifying what was signed gives the data exactly when the kind asked for is the kind it
  was signed as and the clock has not reached its expiry; every other kind is refused.\<close>

lemma verify_sign:
  assumes "text_json data"
  shows "verify_signed key kind (sign key kind' data ttl now) now' =
    (if kind = kind' \<and> (\<forall>t. ttl = Some t \<longrightarrow> now' < now + t) then Some data else None)"
proof -
  let ?env = "envelope_json kind' data (map_option (\<lambda>t. int now + int t) ttl)"
  have parse: "json_parse (utf8_decode (b64_decode (b64url_encode (utf8_encode (json_stringify ?env))))) = Some ?env"
    by (simp add: json_bytes_roundtrip envelope_text assms)
  show ?thesis
    unfolding sign_def Let_def verify_signed_text parse
    by (auto simp: payload_not_Nil envelope_fields exp_passed_def split: option.split)
qed

subsection \<open>Properties\<close>

text \<open>Nothing is accepted without the key's MAC.  A value that verifies is a payload, a dot and text
  equal to the MAC of that payload under the key, the payload decodes to an envelope of the kind asked
  for that has not expired, and what is returned is that envelope's data.\<close>

theorem verified_is_signed:
  assumes "verify_signed key kind raw now = Some d"
  shows "\<exists>payload rest env. raw = payload @ CHR ''.'' # rest \<and> CHR ''.'' \<notin> set rest \<and> payload \<noteq> [] \<and>
    utf8_encode rest = utf8_encode (mac key payload) \<and>
    json_parse (utf8_decode (b64_decode payload)) = Some env \<and>
    get_field ''kind'' env = Some (JStr (signed_kind_name kind)) \<and> \<not> exp_passed (get_field ''exp'' env) now \<and>
    get_field ''data'' env = Some d"
proof -
  have "CHR ''.'' \<in> set raw"
    using assms last_index_of_None_iff [of "CHR ''.''" raw] by (cases "CHR ''.'' \<in> set raw") (simp_all add: verify_signed_def)
  then obtain payload rest where raw: "raw = payload @ CHR ''.'' # rest" "CHR ''.'' \<notin> set rest"
    by (auto dest: split_list_last)
  have dot: "last_index_of CHR ''.'' raw = Some (length payload)" using last_index_of_append [OF raw(2)] raw(1) by simp
  have "payload \<noteq> []" "utf8_encode rest = utf8_encode (mac key payload)"
    using assms dot raw(1) by (auto simp: verify_signed_def Let_def split: if_splits)
  moreover obtain env where "json_parse (utf8_decode (b64_decode payload)) = Some env"
      "get_field ''kind'' env = Some (JStr (signed_kind_name kind))" "\<not> exp_passed (get_field ''exp'' env) now"
      "get_field ''data'' env = Some d"
    using assms dot raw(1) by (auto simp: verify_signed_def Let_def split: if_splits option.splits)
  ultimately show ?thesis using raw by blast
qed

theorem verified_is_signed_witness:
  "\<exists>payload rest. sign ''k'' CodeKind (JStr ''ann'') None 0 = payload @ CHR ''.'' # rest \<and> utf8_encode rest = utf8_encode (mac ''k'' payload)"
proof -
  have "verify_signed ''k'' CodeKind (sign ''k'' CodeKind (JStr ''ann'') None 0) 5 \<noteq> None"
  proof -
    have "text_json (JStr ''ann'')" by (simp add: well_formed_ascii)
    then show ?thesis
      unfolding sign_def Let_def verify_signed_text
      by (simp add: json_bytes_roundtrip envelope_text payload_not_Nil envelope_fields exp_passed_def)
  qed
  then obtain d where "verify_signed ''k'' CodeKind (sign ''k'' CodeKind (JStr ''ann'') None 0) 5 = Some d" by blast
  from verified_is_signed [OF this] show ?thesis by blast
qed

end
