(* ===== verification/OAuthClients.thy ===== *)
theory OAuthClients
  imports Signing
begin

text \<open>
  The clients of the authorization server: \<open>apps/bff/src/oauth/clients.ts\<close>.  The platform's URL parser is
  a parameter; a text it rejects, where the constructor raises, is \<open>None\<close>.
\<close>

record url =
  u_protocol :: string
  u_hostname :: string
  u_pathname :: string
  u_search :: string
  u_hash :: string

type_synonym url_parser = "string \<Rightarrow> url option"

record registered_client =
  rc_redirect_uris :: "string list"
  rc_client_name :: "string option"
  rc_created_at :: int

definition client_prefix :: string where "client_prefix = ''hzc_''"

definition client_json :: "registered_client \<Rightarrow> json" where
  "client_json c =
     JObj ([(''redirectUris'', JArr (map JStr (rc_redirect_uris c)))] @
           (case rc_client_name c of None \<Rightarrow> [] | Some n \<Rightarrow> [(''clientName'', JStr n)]) @
           [(''createdAt'', JNum (rc_created_at c))])"

definition strings_of :: "json option \<Rightarrow> string list" where
  "strings_of v =
     (case v of Some (JArr vs) \<Rightarrow> List.map_filter (\<lambda>x. as_string (Some x)) vs | _ \<Rightarrow> [])"

definition client_of_json :: "json \<Rightarrow> registered_client" where
  "client_of_json v =
     \<lparr>rc_redirect_uris = strings_of (get_field ''redirectUris'' v),
      rc_client_name = as_string (get_field ''clientName'' v),
      rc_created_at = (case get_field ''createdAt'' v of Some (JNum n) \<Rightarrow> n | _ \<Rightarrow> 0)\<rparr>"

definition register_client :: "string \<Rightarrow> string list \<Rightarrow> string option \<Rightarrow> nat \<Rightarrow> string" where
  "register_client key uris name now =
     client_prefix @ sign key ClientKind
       (client_json \<lparr>rc_redirect_uris = uris, rc_client_name = name, rc_created_at = int now\<rparr>) None now"

definition read_client :: "string \<Rightarrow> string \<Rightarrow> nat \<Rightarrow> registered_client option" where
  "read_client key client_id now =
     (if \<not> prefix client_prefix client_id then None
      else map_option client_of_json (verify_signed key ClientKind (drop 4 client_id) now))"

subsection \<open>Redirects\<close>

definition loopback_host :: "string \<Rightarrow> bool" where
  "loopback_host h \<longleftrightarrow> h = ''localhost'' \<or> h = ''127.0.0.1'' \<or> h = ''[::1]'' \<or> h = ''::1''"

definition is_loopback_redirect :: "url_parser \<Rightarrow> string \<Rightarrow> bool" where
  "is_loopback_redirect parse raw = (case parse raw of Some u \<Rightarrow> loopback_host (u_hostname u) | None \<Rightarrow> False)"

definition same_loopback :: "url \<Rightarrow> url \<Rightarrow> bool" where
  "same_loopback have_url want \<longleftrightarrow>
     u_protocol have_url = ''http:'' \<and> loopback_host (u_hostname have_url) \<and>
     u_hostname have_url = u_hostname want \<and> u_pathname have_url = u_pathname want \<and> u_search have_url = u_search want"

definition redirect_allowed :: "url_parser \<Rightarrow> string list \<Rightarrow> string \<Rightarrow> bool" where
  "redirect_allowed parse registered requested =
     (if requested \<in> set registered then True
      else (case parse requested of
              None \<Rightarrow> False
            | Some want \<Rightarrow>
                if u_protocol want \<noteq> ''http:'' \<or> \<not> loopback_host (u_hostname want) then False
                else list_ex (\<lambda>r. case parse r of Some h \<Rightarrow> same_loopback h want | None \<Rightarrow> False) registered))"

text \<open>\<open>/^[a-z][a-z0-9+.-]*:$/\<close>, where \<open>$\<close> is the end of the text.\<close>

definition custom_scheme :: "string \<Rightarrow> bool" where
  "custom_scheme p \<longleftrightarrow>
     2 \<le> length p \<and> is_lower (hd p) \<and> last p = CHR '':'' \<and>
     list_all (\<lambda>c. is_lower c \<or> is_digit c \<or> c \<in> {CHR ''+'', CHR ''.'', CHR ''-''}) (butlast p)"

definition redirect_uri_acceptable :: "url_parser \<Rightarrow> string \<Rightarrow> bool" where
  "redirect_uri_acceptable parse raw =
     (case parse raw of
        None \<Rightarrow> False
      | Some u \<Rightarrow>
          if u_hash u \<noteq> [] then False
          else if u_protocol u = ''https:'' then True
          else if u_protocol u = ''http:'' then loopback_host (u_hostname u)
          else custom_scheme (u_protocol u) \<and> u_protocol u \<noteq> ''javascript:'' \<and> u_protocol u \<noteq> ''data:'')"

subsection \<open>Lemmas\<close>

lemma client_of_client_json [simp]: "client_of_json (client_json c) = c"
  by (cases c) (simp add: client_of_json_def client_json_def strings_of_def map_filter_def comp_def split: option.split)

lemma client_text: "\<forall>u \<in> set (rc_redirect_uris c). well_formed u \<Longrightarrow> \<forall>n. rc_client_name c = Some n \<longrightarrow> well_formed n \<Longrightarrow>
   text_json (client_json c)"
  by (auto simp: client_json_def well_formed_ascii split: option.split)

subsection \<open>Properties\<close>

lemma registered_reads_back:
  assumes "\<forall>u \<in> set uris. well_formed u" and "\<forall>n. name = Some n \<longrightarrow> well_formed n"
  shows "read_client key (register_client key uris name now) now' =
    Some \<lparr>rc_redirect_uris = uris, rc_client_name = name, rc_created_at = int now\<rparr>"
proof -
  have "text_json (client_json \<lparr>rc_redirect_uris = uris, rc_client_name = name, rc_created_at = int now\<rparr>)"
    using assms by (intro client_text) simp_all
  from verify_sign [OF this] show ?thesis
    by (simp add: read_client_def register_client_def client_prefix_def)
qed

text \<open>A registration is what its id says, for as long as the key stands.  The id of a client reads back
  to the redirects and name it was registered with at any later time, and under a key that makes
  another MAC for it to nothing.\<close>

theorem registration_roundtrip:
  assumes "\<forall>u \<in> set uris. well_formed u" and "\<forall>n. name = Some n \<longrightarrow> well_formed n"
  shows "read_client key (register_client key uris name now) now' =
    Some \<lparr>rc_redirect_uris = uris, rc_client_name = name, rc_created_at = int now\<rparr>"
  by (rule registered_reads_back [OF assms])

theorem registration_roundtrip_witness:
  "read_client ''k'' (register_client ''k'' [''http://localhost/cb''] None 7) 9 =
     Some \<lparr>rc_redirect_uris = [''http://localhost/cb''], rc_client_name = None, rc_created_at = 7\<rparr>"
  using registration_roundtrip [of "[''http://localhost/cb'']" None "''k''" 7 9] by (simp add: well_formed_ascii)

text \<open>A code goes nowhere the client did not register.  A redirect that is let through is a registered
  one letter for letter, or plain HTTP to the operator's own machine with the host, path and query of a
  registered redirect to that machine, so only its port can differ.\<close>

theorem redirect_stays:
  assumes "redirect_allowed parse registered requested"
  shows "requested \<in> set registered \<or>
    (\<exists>want r u. parse requested = Some want \<and> r \<in> set registered \<and> parse r = Some u \<and>
       loopback_host (u_hostname want) \<and> u_protocol want = ''http:'' \<and> u_protocol u = ''http:'' \<and>
       u_hostname u = u_hostname want \<and> u_pathname u = u_pathname want \<and> u_search u = u_search want)"
  using assms by (auto simp: redirect_allowed_def list_ex_iff same_loopback_def split: if_splits option.splits)

text \<open>A parser of two texts, for the witnesses.\<close>

definition sample_parser :: url_parser where
  "sample_parser raw =
     (if raw \<in> {''http://localhost:1/cb'', ''http://localhost:2/cb''}
      then Some \<lparr>u_protocol = ''http:'', u_hostname = ''localhost'', u_pathname = ''/cb'', u_search = [], u_hash = []\<rparr>
      else None)"

theorem redirect_stays_witness:
  "\<exists>want. sample_parser ''http://localhost:2/cb'' = Some want \<and> loopback_host (u_hostname want)"
proof -
  have "redirect_allowed sample_parser [''http://localhost:1/cb''] ''http://localhost:2/cb''" by code_simp
  from redirect_stays [OF this] show ?thesis by auto
qed

end
