(* ===== verification/ClientMetadata.thy ===== *)
theory ClientMetadata
  imports OAuthClients
begin

text \<open>
  Clients identified by a URL the server fetches: \<open>apps/bff/src/oauth/client-metadata.ts\<close>.  The resolver
  and the fetch are parameters.  \<open>Number\<close> of a text is read for white space, decimal and hexadecimal
  integers; a sign, a fraction, an exponent or another base, which no resolver writes, reads as no
  integer here.
\<close>

subsection \<open>Addresses\<close>

definition hex_char_value :: "char \<Rightarrow> nat option" where
  "hex_char_value c =
     (if is_digit c then Some (of_char c - 48)
      else if c \<in> set ''abcdef'' then Some (of_char c - 87)
      else None)"

definition number_in :: "nat \<Rightarrow> (char \<Rightarrow> nat option) \<Rightarrow> string \<Rightarrow> nat option" where
  "number_in base f s =
     (if s = [] \<or> list_ex (\<lambda>c. f c = None) s then None else Some (foldl (\<lambda>n c. base * n + the (f c)) 0 s))"

definition digit_value :: "char \<Rightarrow> nat option" where
  "digit_value c = (if is_digit c then Some (of_char c - 48) else None)"

definition js_number :: "string \<Rightarrow> nat option" where
  "js_number s =
     (let t = js_trim s in
      if t = [] then Some 0
      else if prefix ''0x'' (to_lower t) then number_in 16 hex_char_value (to_lower (drop 2 t))
      else number_in 10 digit_value t)"

text \<open>The text of a number in a base up to 16.\<close>

function show_base :: "nat \<Rightarrow> nat \<Rightarrow> string" where
  "show_base b n = (if n < b \<or> b < 2 then [hex_digit n] else show_base b (n div b) @ [hex_digit (n mod b)])"
  by pat_completeness auto
termination
  by (relation "measure (\<lambda>(b, n). n)") (auto intro: div_less_dividend)

declare show_base.simps [simp del]

definition v4_text :: "nat \<Rightarrow> nat \<Rightarrow> string" where
  "v4_text hi lo =
     join_with ''.'' (map (show_base 10) [hi div 256, hi mod 256, lo div 256, lo mod 256])"

definition octet_text :: "string \<Rightarrow> bool" where
  "octet_text p \<longleftrightarrow> 1 \<le> length p \<and> length p \<le> 3 \<and> list_all is_digit p"

definition dotted_quad :: "string \<Rightarrow> bool" where
  "dotted_quad s \<longleftrightarrow> length (split_on CHR ''.'' s) = 4 \<and> list_all octet_text (split_on CHR ''.'' s)"

text \<open>Where a dotted quad that ends the text begins, the leftmost match of the expression.\<close>

definition dotted_at :: "string \<Rightarrow> nat option" where
  "dotted_at s = find (\<lambda>i. dotted_quad (drop i s)) [0..<length s]"

definition fold_dotted :: "string \<Rightarrow> string option" where
  "fold_dotted s =
     (case dotted_at s of
        None \<Rightarrow> Some s
      | Some i \<Rightarrow>
          (let q = map (\<lambda>p. js_number p) (split_on CHR ''.'' (drop i s)) in
           if list_ex (\<lambda>n. case n of None \<Rightarrow> True | Some x \<Rightarrow> 255 < x) q then None
           else (let v = map the q in
             Some (take i s @ show_base 16 (256 * v ! 0 + v ! 1) @ '':'' @ show_base 16 (256 * v ! 2 + v ! 3)))))"

text \<open>\<open>s.split('::')\<close>.\<close>

fun split_double :: "string \<Rightarrow> string list" where
  "split_double (a # b # s) =
     (if a = CHR '':'' \<and> b = CHR '':'' then [] # split_double s
      else (case split_double (b # s) of p # ps \<Rightarrow> (a # p) # ps | [] \<Rightarrow> [[a]]))"
| "split_double s = [s]"

definition groups_in :: "string \<Rightarrow> string list" where
  "groups_in half = (if half \<noteq> [] then split_on CHR '':'' half else [])"

definition hextet_value :: "string \<Rightarrow> nat option" where
  "hextet_value p = (if length p \<le> 4 then number_in 16 hex_char_value p else None)"

definition hextets :: "string \<Rightarrow> nat list option" where
  "hextets v =
     (case fold_dotted v of
        None \<Rightarrow> None
      | Some s \<Rightarrow>
          (let halves = split_double s in
           if 2 < length halves then None
           else (let head_groups = groups_in (halves ! 0);
                     tail_groups = (if length halves = 2 then groups_in (halves ! 1) else []) in
             if length halves = 2 \<and> 8 < length head_groups + length tail_groups then None
             else (let parts = (if length halves = 2
                                then head_groups @ replicate (8 - length head_groups - length tail_groups) ''0'' @ tail_groups
                                else head_groups);
                       out = map hextet_value parts in
               if length parts \<noteq> 8 then None
               else if None \<in> set out then None
               else Some (map the out)))))"

definition public_octets :: "nat \<Rightarrow> nat \<Rightarrow> bool" where
  "public_octets a b =
     (if a = 0 \<or> a = 127 \<or> a = 10 then False
      else if a = 172 \<and> 16 \<le> b \<and> b \<le> 31 then False
      else if a = 192 \<and> b = 168 then False
      else if a = 169 \<and> b = 254 then False
      else if a = 100 \<and> 64 \<le> b \<and> b \<le> 127 then False
      else if a = 198 \<and> (b = 18 \<or> b = 19) then False
      else if 224 \<le> a then False
      else True)"

definition public_v4 :: "string \<Rightarrow> bool" where
  "public_v4 ip =
     (let p = map js_number (split_on CHR ''.'' ip) in
      if length p \<noteq> 4 \<or> list_ex (\<lambda>n. case n of None \<Rightarrow> True | Some x \<Rightarrow> 255 < x) p then False
      else public_octets (the (p ! 0)) (the (p ! 1)))"

definition public_hextets :: "nat list \<Rightarrow> bool" where
  "public_hextets h =
     (if list_all (\<lambda>x. x = 0) h then False
      else if 65152 \<le> h ! 0 \<and> h ! 0 \<le> 65215 then False
      else if 65216 \<le> h ! 0 \<and> h ! 0 \<le> 65279 then False
      else if 64512 \<le> h ! 0 \<and> h ! 0 \<le> 65023 then False
      else if 65280 \<le> h ! 0 then False
      else if h ! 0 = 8193 \<and> h ! 1 = 0 then False
      else if h ! 0 = 8194 then public_v4 (v4_text (h ! 1) (h ! 2))
      else if h ! 0 = 100 \<and> h ! 1 = 65435 then public_v4 (v4_text (h ! 6) (h ! 7))
      else if list_all (\<lambda>x. x = 0) (take 5 h) \<and> (h ! 5 = 0 \<or> h ! 5 = 65535) then public_v4 (v4_text (h ! 6) (h ! 7))
      else h ! 0 \<noteq> 0)"

text \<open>An IPv6 text without brackets and zone.\<close>

definition bare_v6 :: "string \<Rightarrow> string" where
  "bare_v6 ip =
     (let s = to_lower ip;
          s = (if prefix ''['' s then drop 1 s else s);
          s = (if suffix '']'' s then butlast s else s) in
      takeWhile (\<lambda>c. c \<noteq> CHR ''%'') s)"

definition is_public_address :: "string \<Rightarrow> nat \<Rightarrow> bool" where
  "is_public_address ip family =
     (if family = 6 then (case hextets (bare_v6 ip) of None \<Rightarrow> False | Some h \<Rightarrow> public_hextets h)
      else public_v4 ip)"

subsection \<open>Fetching a document\<close>

datatype metadata_error =
    BadUrl | NotHttps | HostNotListed | Unresolved | NotPublic string | NoAddress | Unreadable | WrongClientId
  | NoRedirects | BadRedirect string

text \<open>What a name resolves to, and the document an address serves for a URL; \<open>None\<close> is any failure: an
  error, a time-out, a redirect, a status that is not a success, too many bytes, text that is no JSON.\<close>

record metadata_world =
  mw_parse :: url_parser
  mw_resolve :: "string \<Rightarrow> (string \<times> nat) list option"
  mw_fetch :: "string \<Rightarrow> string \<Rightarrow> json option"

definition metadata_cache_ms :: nat where "metadata_cache_ms = 600000"
definition metadata_cache_max :: nat where "metadata_cache_max = 512"

type_synonym metadata_cache = "(string, nat \<times> registered_client) jsmap"

definition host_allowed :: "url \<Rightarrow> string list \<Rightarrow> bool" where
  "host_allowed u hosts = list_ex (\<lambda>h. u_hostname u = h \<or> suffix (CHR ''.'' # h) (u_hostname u)) hosts"

definition is_metadata_url :: "string \<Rightarrow> bool" where
  "is_metadata_url client_id = prefix ''https://'' client_id"

definition assert_reachable_target ::
  "metadata_world \<Rightarrow> url \<Rightarrow> string list \<Rightarrow> metadata_error + string" where
  "assert_reachable_target w u hosts =
     (if u_protocol u \<noteq> ''https:'' then Inl NotHttps
      else if length hosts \<noteq> 0 \<and> \<not> host_allowed u hosts then Inl HostNotListed
      else (case mw_resolve w (u_hostname u) of
              None \<Rightarrow> Inl Unresolved
            | Some addrs \<Rightarrow>
                (case find (\<lambda>(a, f). \<not> is_public_address a f) addrs of
                   Some (a, f) \<Rightarrow> Inl (NotPublic a)
                 | None \<Rightarrow> (case addrs of (a, f) # _ \<Rightarrow> Inr a | [] \<Rightarrow> Inl NoAddress))))"

definition document_client ::
  "url_parser \<Rightarrow> string \<Rightarrow> json \<Rightarrow> nat \<Rightarrow> metadata_error + registered_client" where
  "document_client parse client_id raw now =
     (if get_field ''client_id'' raw \<noteq> Some (JStr client_id) then Inl WrongClientId
      else (let uris = strings_of (get_field ''redirect_uris'' raw) in
        if length uris = 0 then Inl NoRedirects
        else (case filter (\<lambda>u. \<not> redirect_uri_acceptable parse u) uris of
                r # _ \<Rightarrow> Inl (BadRedirect r)
              | [] \<Rightarrow> Inr \<lparr>rc_redirect_uris = uris, rc_client_name = as_string (get_field ''client_name'' raw),
                           rc_created_at = int now\<rparr>)))"

definition remember_client :: "nat \<Rightarrow> string \<Rightarrow> registered_client \<Rightarrow> metadata_cache \<Rightarrow> metadata_cache" where
  "remember_client now client_id client cache =
     (let cache =
        (if metadata_cache_max \<le> length cache then
           (let kept = filter (\<lambda>e. \<not> int (fst (snd e)) < int now - int metadata_cache_ms) cache in
            drop (length kept - (metadata_cache_max - 1)) kept)
         else cache) in
      map_put client_id (now, client) cache)"

definition fetch_client_metadata ::
  "metadata_world \<Rightarrow> string list \<Rightarrow> nat \<Rightarrow> string \<Rightarrow> metadata_cache \<Rightarrow>
   (metadata_error + registered_client) \<times> metadata_cache" where
  "fetch_client_metadata w hosts now client_id cache =
     (case mw_parse w client_id of
        None \<Rightarrow> (Inl BadUrl, cache)
      | Some u \<Rightarrow>
      if length hosts \<noteq> 0 \<and> \<not> host_allowed u hosts then (Inl HostNotListed, cache)
      else (case (case map_of cache client_id of
                    Some (at, c) \<Rightarrow> if int now - int at < int metadata_cache_ms then Some c else None
                  | None \<Rightarrow> None) of
          Some c \<Rightarrow> (Inr c, cache)
        | None \<Rightarrow>
            (case assert_reachable_target w u hosts of
               Inl e \<Rightarrow> (Inl e, cache)
             | Inr pinned \<Rightarrow>
                 (case mw_fetch w client_id pinned of
                    None \<Rightarrow> (Inl Unreadable, cache)
                  | Some raw \<Rightarrow>
                      (case document_client (mw_parse w) client_id raw now of
                         Inl e \<Rightarrow> (Inl e, cache)
                       | Inr c \<Rightarrow> (Inr c, remember_client now client_id c cache))))))"

subsection \<open>Numbers and their texts\<close>

lemma show_base_digits: "2 \<le> b \<Longrightarrow> \<forall>c \<in> set (show_base b n). \<exists>k < b. c = hex_digit k"
proof (induction b n rule: show_base.induct)
  case (1 b n)
  show ?case
  proof (cases "n < b")
    case True
    then show ?thesis by (auto simp: show_base.simps [of b n])
  next
    case False
    have "n mod b < b" using 1(2) by simp
    then have "\<exists>k < b. hex_digit (n mod b) = hex_digit k" by blast
    then show ?thesis using 1 False by (auto simp: show_base.simps [of b n])
  qed
qed

lemma show_base_ne: "show_base b n \<noteq> []"
  by (simp add: show_base.simps [of b n])

lemma number_in_snoc:
  "number_in b f (s @ [c]) =
     (case f c of None \<Rightarrow> None
      | Some k \<Rightarrow> if s = [] then Some k else map_option (\<lambda>n. b * n + k) (number_in b f s))"
  by (auto simp: number_in_def list_ex_iff split: option.split)

lemma number_in_show:
  assumes "2 \<le> b" and "\<And>k. k < b \<Longrightarrow> f (hex_digit k) = Some k"
  shows "number_in b f (show_base b n) = Some n"
proof (induction n rule: less_induct)
  case (less n)
  show ?case
  proof (cases "n < b")
    case True
    then show ?thesis using assms by (simp add: show_base.simps [of b n] number_in_def)
  next
    case False
    then have "number_in b f (show_base b (n div b)) = Some (n div b)" using less assms(1) by simp
    then show ?thesis using False assms
      by (simp add: show_base.simps [of b n] number_in_snoc show_base_ne)
  qed
qed

lemma hex_digit_decimal: "k < 10 \<Longrightarrow> is_digit (hex_digit k) \<and> digit_value (hex_digit k) = Some k"
  by (auto simp: hex_digit_def is_digit_def digit_value_def char_le_of_char)


lemma digit_plain: "is_digit c \<Longrightarrow> plain_char c"
  by (auto simp: is_digit_def plain_char_def char_le_of_char)

lemma digits_plain: "list_all is_digit s \<Longrightarrow> s \<noteq> [] \<Longrightarrow> js_trim s = s"
  by (intro js_trim_plain) (simp add: list_all_iff digit_plain)

lemma js_number_digits:
  assumes "list_all is_digit s" and "s \<noteq> []"
  shows "js_number s = number_in 10 digit_value s"
proof -
  have "\<not> prefix ''0x'' (to_lower s)"
  proof
    assume "prefix ''0x'' (to_lower s)"
    then obtain a b r where "s = a # b # r" "lower_char b = CHR ''x''"
      by (cases s; cases "tl s") (auto simp: to_lower_def prefix_def)
    then show False using assms(1) by (auto simp: lower_char_def is_upper_def is_digit_def char_le_of_char split: if_splits)
  qed
  then show ?thesis using assms digits_plain by (simp add: js_number_def)
qed

lemma show_decimal: "list_all is_digit (show_base 10 n)"
proof -
  have "is_digit c" if c: "c \<in> set (show_base 10 n)" for c
  proof -
    obtain k where "k < 10" "c = hex_digit k" using show_base_digits [of 10 n] c by auto
    then show ?thesis using hex_digit_decimal by simp
  qed
  then show ?thesis by (simp add: list_all_iff)
qed

lemma js_number_show: "js_number (show_base 10 n) = Some n"
  using js_number_digits [OF show_decimal show_base_ne] number_in_show [of 10 digit_value n] hex_digit_decimal by simp

subsection \<open>Ranges\<close>

text \<open>An address as a number of \<open>w\<close>-bit groups, and membership of a CIDR block.\<close>

definition group_value :: "nat \<Rightarrow> nat list \<Rightarrow> nat" where
  "group_value w gs = foldl (\<lambda>n g. n * 2 ^ w + g) 0 gs"

definition in_block :: "nat \<Rightarrow> nat \<Rightarrow> nat list \<times> nat \<Rightarrow> bool" where
  "in_block w v b =
     (let rest = length (fst b) * w - snd b in v div 2 ^ rest = group_value w (fst b) div 2 ^ rest)"

definition private_v4 :: "(nat list \<times> nat) list" where
  "private_v4 =
     [([0, 0, 0, 0], 8), ([10, 0, 0, 0], 8), ([127, 0, 0, 0], 8), ([172, 16, 0, 0], 12), ([192, 168, 0, 0], 16),
      ([169, 254, 0, 0], 16), ([100, 64, 0, 0], 10), ([198, 18, 0, 0], 15), ([224, 0, 0, 0], 3)]"

definition v4_address :: "nat list \<Rightarrow> string" where
  "v4_address gs = join_with ''.'' (map (show_base 10) gs)"

lemma no_dot_decimal: "CHR ''.'' \<notin> set (show_base 10 n)"
  using show_decimal [of n] by (auto simp: list_all_iff is_digit_def char_le_of_char)

lemma split_v4: "gs \<noteq> [] \<Longrightarrow> split_on CHR ''.'' (v4_address gs) = map (show_base 10) gs"
  unfolding v4_address_def by (rule split_on_join) (auto simp: no_dot_decimal)

lemma public_v4_address:
  "a < 256 \<Longrightarrow> b < 256 \<Longrightarrow> c < 256 \<Longrightarrow> d < 256 \<Longrightarrow> public_v4 (v4_address [a, b, c, d]) = public_octets a b"
  by (simp add: public_v4_def split_v4 js_number_show Let_def)


lemma two_digits: "q < m \<Longrightarrow> q' < m \<Longrightarrow> a * m + q = a' * m + q' \<longleftrightarrow> a = a' \<and> q = (q' :: nat)"
proof
  assume lt: "q < m" "q' < m" and eq: "a * m + q = a' * m + q'"
  have "(a * m + q) div m = a" "(a' * m + q') div m = a'" "(a * m + q) mod m = q" "(a' * m + q') mod m = q'"
    using lt by simp_all
  with eq show "a = a' \<and> q = q'" by metis
qed simp

lemma nat_digit_block:
  "(a * 256 + b) div 16 = a * 16 + b div 16" "(a * 256 + b) div 64 = a * 4 + b div 64"
  "(a * 256 + b) div 2 = a * 128 + b div (2 :: nat)"
  using div_mult_self1 [of 16 b "a * 16"] div_mult_self1 [of 64 b "a * 4"] div_mult_self1 [of 2 b "a * 128"]
  by (simp_all add: add.commute mult.assoc)

lemma v4_blocks:
  assumes "a < 256" "b < 256" "c < 256" "d < (256 :: nat)"
  shows "public_octets a b \<longleftrightarrow> \<not> list_ex (in_block 8 (group_value 8 [a, b, c, d])) private_v4"
proof -
  let ?v = "group_value 8 [a, b, c, d]"
  have v: "?v = (a * 256 + b) * 65536 + (c * 256 + d)" by (simp add: group_value_def)
  have hi: "?v div 65536 = a * 256 + b" using assms by (simp add: v)
  have d24: "?v div 16777216 = a" using hi assms div_mult2_eq [of ?v 65536 256] by simp
  have d20: "?v div 1048576 = (a * 256 + b) div 16" using hi div_mult2_eq [of ?v 65536 16] by simp
  have d22: "?v div 4194304 = (a * 256 + b) div 64" using hi div_mult2_eq [of ?v 65536 64] by simp
  have d17: "?v div 131072 = (a * 256 + b) div 2" using hi div_mult2_eq [of ?v 65536 2] by simp
  have d29: "?v div 536870912 = a div 32" using d24 div_mult2_eq [of ?v 16777216 32] by simp
  have b172: "(a * 256 + b) div 16 = 2753 \<longleftrightarrow> a = 172 \<and> 16 \<le> b \<and> b \<le> 31"
    using two_digits [of "b div 16" 16 1 a 172] assms by (simp add: nat_digit_block) arith
  have b192: "a * 256 + b = 49320 \<longleftrightarrow> a = 192 \<and> b = 168" using two_digits [of b 256 168 a 192] assms by simp
  have b169: "a * 256 + b = 43518 \<longleftrightarrow> a = 169 \<and> b = 254" using two_digits [of b 256 254 a 169] assms by simp
  have b100: "(a * 256 + b) div 64 = 401 \<longleftrightarrow> a = 100 \<and> 64 \<le> b \<and> b \<le> 127"
    using two_digits [of "b div 64" 4 1 a 100] assms by (simp add: nat_digit_block) arith
  have b198: "(a * 256 + b) div 2 = 25353 \<longleftrightarrow> a = 198 \<and> (b = 18 \<or> b = 19)"
    using two_digits [of "b div 2" 128 9 a 198] assms by (simp add: nat_digit_block) arith
  have b224: "a div 32 = 7 \<longleftrightarrow> 224 \<le> a" using assms by arith
  have "list_ex (in_block 8 ?v) private_v4 \<longleftrightarrow>
      a = 0 \<or> a = 10 \<or> a = 127 \<or> (a * 256 + b) div 16 = 2753 \<or> a * 256 + b = 49320 \<or> a * 256 + b = 43518 \<or>
      (a * 256 + b) div 64 = 401 \<or> (a * 256 + b) div 2 = 25353 \<or> a div 32 = 7"
    by (simp add: private_v4_def in_block_def hi d24 d20 d22 d17 d29) (simp add: group_value_def)
  then show ?thesis unfolding b172 b192 b169 b100 b198 b224 public_octets_def by auto
qed


subsection \<open>IPv6 ranges\<close>









subsection \<open>IPv6 texts\<close>











subsubsection \<open>Two colons\<close>






subsubsection \<open>Dotted quads\<close>







subsubsection \<open>Every text is judged alike\<close>
















subsection \<open>What the ranges promise\<close>

lemma metadata_address: "v4_address [169, 254, 169, 254] = ''169.254.169.254''"
  by code_simp

text \<open>An IPv4 address is public exactly when the number it is lies in none of the private, loopback,
  link-local, carrier, benchmark and multicast blocks.\<close>

theorem v4_public_iff:
  assumes "a < 256" "b < 256" "c < 256" "d < 256"
  shows "is_public_address (v4_address [a, b, c, d]) 4 \<longleftrightarrow>
    \<not> list_ex (in_block 8 (group_value 8 [a, b, c, d])) private_v4"
  using v4_blocks [OF assms] public_v4_address [OF assms] by (simp add: is_public_address_def)

theorem v4_public_witness:
  "\<not> is_public_address ''169.254.169.254'' 4 \<longleftrightarrow>
   list_ex (in_block 8 (group_value 8 [169, 254, 169, 254])) private_v4"
  using v4_public_iff [of 169 254 169 254] by (simp add: metadata_address)



subsection \<open>Documents taken\<close>

text \<open>What has to hold of a document when it is fetched.\<close>

definition vetted :: "metadata_world \<Rightarrow> string \<Rightarrow> nat \<Rightarrow> registered_client \<Rightarrow> bool" where
  "vetted w k at c \<longleftrightarrow>
     (\<exists>u addrs a f raw. mw_parse w k = Some u \<and> u_protocol u = ''https:'' \<and>
        mw_resolve w (u_hostname u) = Some addrs \<and> hd addrs = (a, f) \<and> addrs \<noteq> [] \<and>
        (\<forall>(a, f) \<in> set addrs. is_public_address a f) \<and>
        mw_fetch w k a = Some raw \<and> get_field ''client_id'' raw = Some (JStr k) \<and>
        rc_redirect_uris c = strings_of (get_field ''redirect_uris'' raw) \<and> rc_redirect_uris c \<noteq> [] \<and>
        list_all (redirect_uri_acceptable (mw_parse w)) (rc_redirect_uris c) \<and> rc_created_at c = int at)"

lemma document_client_ok:
  assumes "document_client parse k raw now = Inr c"
  shows "get_field ''client_id'' raw = Some (JStr k)" "rc_redirect_uris c = strings_of (get_field ''redirect_uris'' raw)"
    "rc_redirect_uris c \<noteq> []" "list_all (redirect_uri_acceptable parse) (rc_redirect_uris c)" "rc_created_at c = int now"
proof -
  let ?us = "strings_of (get_field ''redirect_uris'' raw)"
  have "get_field ''client_id'' raw = Some (JStr k) \<and> ?us \<noteq> [] \<and> filter (\<lambda>u. \<not> redirect_uri_acceptable parse u) ?us = [] \<and>
      rc_redirect_uris c = ?us \<and> rc_created_at c = int now"
    using assms by (auto simp: document_client_def Let_def split: if_splits list.splits)
  then show "get_field ''client_id'' raw = Some (JStr k)" "rc_redirect_uris c = strings_of (get_field ''redirect_uris'' raw)"
    "rc_redirect_uris c \<noteq> []" "list_all (redirect_uri_acceptable parse) (rc_redirect_uris c)" "rc_created_at c = int now"
    by (auto simp: filter_empty_conv list_all_iff)
qed

lemma reachable_ok:
  assumes "assert_reachable_target w u hosts = Inr a"
  shows "u_protocol u = ''https:''" "hosts = [] \<or> host_allowed u hosts"
    "\<exists>addrs f. mw_resolve w (u_hostname u) = Some addrs \<and> hd addrs = (a, f) \<and> addrs \<noteq> [] \<and>
       (\<forall>(a, f) \<in> set addrs. is_public_address a f)"
  using assms
  by (auto simp: assert_reachable_target_def find_None_iff split: if_splits option.splits list.splits)

definition known_client :: "nat \<Rightarrow> string \<Rightarrow> metadata_cache \<Rightarrow> registered_client option" where
  "known_client now k cache =
     (case map_of cache k of
        Some (at, c) \<Rightarrow> if int now - int at < int metadata_cache_ms then Some c else None
      | None \<Rightarrow> None)"

lemma known_entry: "known_client now k cache = Some c \<Longrightarrow> \<exists>at. (k, (at, c)) \<in> set cache \<and> int now - int at < 600000"
  by (auto simp: known_client_def metadata_cache_ms_def dest!: map_of_SomeD split: option.splits if_splits)

lemma fresh_fetch:
  assumes "assert_reachable_target w u hosts = Inr a" and "mw_parse w k = Some u" and "mw_fetch w k a = Some raw"
    and "document_client (mw_parse w) k raw now = Inr c"
  shows "vetted w k now c"
  unfolding vetted_def using document_client_ok [OF assms(4)] reachable_ok [OF assms(1)] assms(2,3) by blast

lemma fetch_outcome:
  assumes "fetch_client_metadata w hosts now k cache = (r, cache')"
  shows "cache' = cache \<and> (\<forall>c. r = Inr c \<longrightarrow> known_client now k cache = Some c) \<or>
    (\<exists>c. r = Inr c \<and> vetted w k now c \<and> cache' = remember_client now k c cache)"
proof (cases "mw_parse w k")
  case (Some u)
  note step = assms [unfolded fetch_client_metadata_def known_client_def [symmetric] Some option.case]
  show ?thesis
  proof (cases "length hosts \<noteq> 0 \<and> \<not> host_allowed u hosts \<or> known_client now k cache \<noteq> None")
    case False
    show ?thesis
    proof (cases "assert_reachable_target w u hosts")
      case (Inr a)
      show ?thesis
      proof (cases "mw_fetch w k a")
        case raw: (Some raw)
        show ?thesis
        proof (cases "document_client (mw_parse w) k raw now")
          case doc: (Inr c)
          then have "r = Inr c" "cache' = remember_client now k c cache" using step False Inr raw by auto
          then show ?thesis using fresh_fetch [OF Inr Some raw doc] by simp
        qed (use step False Inr raw in auto)
      qed (use step False Inr in auto)
    qed (use step False in auto)
  qed (use step in \<open>auto split: if_splits\<close>)
qed (use assms in \<open>auto simp: fetch_client_metadata_def\<close>)

lemma fetch_host: "fetch_client_metadata w hosts now k cache = (Inr c, cache') \<Longrightarrow>
    \<exists>u. mw_parse w k = Some u \<and> (hosts = [] \<or> host_allowed u hosts)"
  by (auto simp: fetch_client_metadata_def split: option.splits if_splits)

lemma remember_bound: "length cache \<le> metadata_cache_max \<Longrightarrow> length (remember_client now k c cache) \<le> metadata_cache_max"
proof -
  have put: "length (map_put k v m) \<le> Suc (length m)" for v and m :: metadata_cache
    by (induction k v m rule: map_put.induct) auto
  assume "length cache \<le> metadata_cache_max"
  then show ?thesis using le_trans [OF put]
    by (auto simp: remember_client_def Let_def metadata_cache_max_def intro!: le_trans [OF put])
qed

lemma set_map_put: "e \<in> set (map_put k v m) \<Longrightarrow> e = (k, v) \<or> e \<in> set m"
  by (induction k v m rule: map_put.induct) (auto split: if_splits)

lemma remember_entries: "e \<in> set (remember_client now k c cache) \<Longrightarrow> e = (k, (now, c)) \<or> e \<in> set cache"
  by (auto simp: remember_client_def Let_def dest!: set_map_put in_set_dropD split: if_splits)


text \<open>Requests served one after the other, from a cache that is empty when the process starts.\<close>

fun metadata_cache_after :: "(metadata_world \<times> string list \<times> nat \<times> string) list \<Rightarrow> metadata_cache" where
  "metadata_cache_after [] = []"
| "metadata_cache_after ((w, hosts, now, k) # earlier) =
     snd (fetch_client_metadata w hosts now k (metadata_cache_after earlier))"

lemma cache_entries_vetted:
  "(k, (at, c)) \<in> set (metadata_cache_after rs) \<Longrightarrow> \<exists>w hosts. (w, hosts, at, k) \<in> set rs \<and> vetted w k at c"
proof (induction rs rule: metadata_cache_after.induct)
  case (2 w hosts now k' earlier)
  obtain r cache' where "fetch_client_metadata w hosts now k' (metadata_cache_after earlier) = (r, cache')" by fastforce
  from fetch_outcome [OF this] this show ?case using 2 by (auto dest!: remember_entries)
qed simp

text \<open>C28: A client taken from a metadata document is one whose URL the operator's list allows at this very
  request, and whose document was fetched, now or by a request less than ten minutes before, over https
  from a name all of whose addresses were public, connecting to one of them, where the document named
  that very URL and redirects the registration rule accepts.\<close>

theorem metadata_client_vetted:
  assumes "fst (fetch_client_metadata w hosts now k (metadata_cache_after rs)) = Inr c"
  shows "(\<exists>u. mw_parse w k = Some u \<and> (hosts = [] \<or> host_allowed u hosts)) \<and>
    (\<exists>(w', hosts', at, k') \<in> set ((w, hosts, now, k) # rs). k' = k \<and> int now - int at < 600000 \<and> vetted w' k at c)"
proof -
  obtain cache' where f: "fetch_client_metadata w hosts now k (metadata_cache_after rs) = (Inr c, cache')"
    using assms by (cases "fetch_client_metadata w hosts now k (metadata_cache_after rs)") auto
  have "vetted w k now c \<or> known_client now k (metadata_cache_after rs) = Some c" using fetch_outcome [OF f] by auto
  then show ?thesis
  proof
    assume "known_client now k (metadata_cache_after rs) = Some c"
    then obtain at where "(k, (at, c)) \<in> set (metadata_cache_after rs)" "int now - int at < 600000"
      using known_entry by blast
    then show ?thesis using cache_entries_vetted fetch_host [OF f] by fastforce
  qed (use fetch_host [OF f] in auto)
qed

text \<open>Whatever is asked of this unauthenticated door, the documents it remembers never exceed 512.\<close>

theorem metadata_cache_bounded: "length (metadata_cache_after rs) \<le> 512"
proof (induction rs rule: metadata_cache_after.induct)
  case (2 w hosts now k earlier)
  obtain r cache' where f: "fetch_client_metadata w hosts now k (metadata_cache_after earlier) = (r, cache')" by fastforce
  from fetch_outcome [OF f] show ?case using 2 remember_bound [unfolded metadata_cache_max_def] f by auto
qed simp

definition sample_metadata :: metadata_world where
  "sample_metadata = \<lparr>
     mw_parse = (\<lambda>t. if prefix ''https://a.b/'' t
        then Some \<lparr>u_protocol = ''https:'', u_hostname = ''a.b'', u_pathname = drop 11 t, u_search = [], u_hash = []\<rparr> else None),
     mw_resolve = (\<lambda>h. if h = ''a.b'' then Some [(''8.8.8.8'', 4)] else None),
     mw_fetch = (\<lambda>k a. if k = ''https://a.b/c'' \<and> a = ''8.8.8.8''
        then Some (JObj [(''client_id'', JStr k), (''redirect_uris'', JArr [JStr ''https://a.b/d''])]) else None)\<rparr>"

theorem metadata_client_witness:
  "\<exists>c. fst (fetch_client_metadata sample_metadata [''a.b''] 5 ''https://a.b/c''
      (metadata_cache_after [(sample_metadata, [], 4, ''https://a.b/c'')])) = Inr c \<and>
    vetted sample_metadata ''https://a.b/c'' 4 c"
proof -
  let ?rs = "[(sample_metadata, [], 4, ''https://a.b/c'')]"
  let ?c = "\<lparr>rc_redirect_uris = [''https://a.b/d''], rc_client_name = None, rc_created_at = 4\<rparr>"
  let ?u = "\<lparr>u_protocol = ''https:'', u_hostname = ''a.b'', u_pathname = ''/c'', u_search = [], u_hash = []\<rparr>"
  have steps: "mw_parse sample_metadata ''https://a.b/c'' = Some ?u" "host_allowed ?u [''a.b'']"
    "assert_reachable_target sample_metadata ?u [] = Inr ''8.8.8.8''"
    "mw_fetch sample_metadata ''https://a.b/c'' ''8.8.8.8'' =
       Some (JObj [(''client_id'', JStr ''https://a.b/c''), (''redirect_uris'', JArr [JStr ''https://a.b/d''])])"
    "document_client (mw_parse sample_metadata) ''https://a.b/c''
       (JObj [(''client_id'', JStr ''https://a.b/c''), (''redirect_uris'', JArr [JStr ''https://a.b/d''])]) 4 = Inr ?c"
    by code_simp+
  have "metadata_cache_after ?rs = [(''https://a.b/c'', (4, ?c))]"
    by (simp add: fetch_client_metadata_def steps remember_client_def metadata_cache_max_def)
  then have f: "fst (fetch_client_metadata sample_metadata [''a.b''] 5 ''https://a.b/c'' (metadata_cache_after ?rs)) = Inr ?c"
    by (simp add: fetch_client_metadata_def steps metadata_cache_ms_def)
  from metadata_client_vetted [OF f] have "vetted sample_metadata ''https://a.b/c'' 4 ?c"
    by (auto simp: vetted_def)
  with f show ?thesis by blast
qed

end
