(* ===== verification/Directory.thy ===== *)
theory Directory
  imports Config
begin

text \<open>
  How a password is checked: \<open>apps/bff/src/user/outcome.ts\<close>, \<open>ldap.ts\<close>, \<open>ldap-health.ts\<close>, \<open>local.ts\<close>
  and \<open>break-glass.ts\<close>.  The LDAP client library is a parameter: a \<open>directory\<close> answers each bind and
  each search by its position in the sequence of calls, so any interleaving of failures and changes is
  an instance.  The argon2 verifier is a parameter that says yes, says no, or raises.
\<close>

subsection \<open>Outcomes\<close>

datatype audit_reason = NoRoles | ZeroGroupMappings

datatype auth_failure = InvalidCredentials | BackendUnreachable | OtherFailure string

datatype 'a verified = Granted 'a | RefusedOnPolicy audit_reason 'a | Refused auth_failure

definition audit_reason_of :: "'a verified \<Rightarrow> audit_reason option" where
  "audit_reason_of v = (case v of RefusedOnPolicy r _ \<Rightarrow> Some r | _ \<Rightarrow> None)"

record verified_user =
  vu_username :: string
  vu_roles :: "string list"
  vu_display_name :: "string option"
  vu_dn :: "string option"

subsection \<open>Filters\<close>

definition escape_filter_char :: "char \<Rightarrow> string" where
  "escape_filter_char c =
     (if c = CHR 0x5C then CHR 0x5C # ''5c''
      else if c = CHR ''*'' then CHR 0x5C # ''2a''
      else if c = CHR ''('' then CHR 0x5C # ''28''
      else if c = CHR '')'' then CHR 0x5C # ''29''
      else if c = CHR 0x00 then CHR 0x5C # ''00''
      else [c])"

definition escape_filter_value :: "string \<Rightarrow> string" where
  "escape_filter_value s = concat (map escape_filter_char s)"

text \<open>\<open>String.prototype.replaceAll\<close> with a string replacement: the text before and after a match and
  the match itself are at hand in the replacement as \<open>$`\<close>, \<open>$'\<close> and \<open>$&\<close>, and \<open>$$\<close> is a dollar.\<close>

fun expand_replacement :: "string \<Rightarrow> string \<Rightarrow> string \<Rightarrow> string \<Rightarrow> string" where
  "expand_replacement pre m post [] = []"
| "expand_replacement pre m post [c] = [c]"
| "expand_replacement pre m post (c # d # t) =
     (if c = CHR ''$'' \<and> d = CHR ''$'' then CHR ''$'' # expand_replacement pre m post t
      else if c = CHR ''$'' \<and> d = CHR ''&'' then m @ expand_replacement pre m post t
      else if c = CHR ''$'' \<and> d = CHR 0x60 then pre @ expand_replacement pre m post t
      else if c = CHR ''$'' \<and> d = CHR 0x27 then post @ expand_replacement pre m post t
      else c # expand_replacement pre m post (d # t))"

function replace_all_from :: "string \<Rightarrow> string \<Rightarrow> string \<Rightarrow> string \<Rightarrow> string" where
  "replace_all_from search rep before s =
     (if s = [] then []
      else if search \<noteq> [] \<and> prefix search s then
        (let post = drop (length search) s in
         expand_replacement before search post rep @ replace_all_from search rep (before @ search) post)
      else hd s # replace_all_from search rep (before @ [hd s]) (tl s))"
  by pat_completeness auto
termination
  by (relation "measure (\<lambda>(search, rep, before, s). length s)") (auto simp: prefix_def)

declare replace_all_from.simps [simp del]

definition username_placeholder :: string where
  "username_placeholder = ''{username}''"

definition user_filter :: "ldap_config \<Rightarrow> string \<Rightarrow> string" where
  "user_filter cfg username =
     replace_all_from username_placeholder (escape_filter_value username) [] (ld_user_filter cfg)"

subsection \<open>The directory\<close>

record ldap_failure =
  lf_code :: "nat option"
  lf_name :: string
  lf_message :: string

datatype ldap_value = NoValue | OneValue string | Values "string list"

record ldap_entry =
  le_dn :: string
  le_attrs :: "string \<Rightarrow> ldap_value"

record directory =
  dir_bind :: "nat \<Rightarrow> string \<Rightarrow> string \<Rightarrow> ldap_failure option"
  dir_search :: "nat \<Rightarrow> string \<Rightarrow> string \<Rightarrow> string list \<Rightarrow> ldap_failure + ldap_entry list"

record found_user =
  fu_dn :: string
  fu_display_name :: string
  fu_member_of :: "string list"

definition found_user_of :: "ldap_config \<Rightarrow> ldap_entry \<Rightarrow> found_user" where
  "found_user_of cfg e =
     \<lparr>fu_dn = le_dn e,
      fu_display_name =
        (case le_attrs e (ld_display_attr cfg) of
           OneValue s \<Rightarrow> s
         | Values vs \<Rightarrow> (case vs of v # _ \<Rightarrow> v | [] \<Rightarrow> le_dn e)
         | NoValue \<Rightarrow> le_dn e),
      fu_member_of =
        (case le_attrs e ''memberOf'' of Values vs \<Rightarrow> vs | OneValue s \<Rightarrow> [s] | NoValue \<Rightarrow> [])\<rparr>"

definition search_user ::
  "directory \<Rightarrow> ldap_config \<Rightarrow> string \<Rightarrow> nat \<Rightarrow> (ldap_failure + found_user option) \<times> nat" where
  "search_user dir cfg username n =
     (case dir_search dir n (ld_user_base cfg) (user_filter cfg username)
             ([''dn'', ld_display_attr cfg] @ (if ld_strategy cfg = MemberOf then [''memberOf''] else [])) of
        Inl f \<Rightarrow> (Inl f, Suc n)
      | Inr [] \<Rightarrow> (Inr None, Suc n)
      | Inr (e # _) \<Rightarrow> (Inr (Some (found_user_of cfg e)), Suc n))"

definition member_filter :: "ldap_config \<Rightarrow> string \<Rightarrow> string" where
  "member_filter cfg user_dn = ''('' @ ld_member_attr cfg @ ''='' @ escape_filter_value user_dn @ '')''"

definition search_groups_by_member ::
  "directory \<Rightarrow> ldap_config \<Rightarrow> string \<Rightarrow> nat \<Rightarrow> (ldap_failure + string list) \<times> nat" where
  "search_groups_by_member dir cfg user_dn n =
     (if ld_group_base cfg = [] then (Inr [], n)
      else (case dir_search dir n (ld_group_base cfg) (member_filter cfg user_dn) [''dn''] of
              Inl f \<Rightarrow> (Inl f, Suc n)
            | Inr es \<Rightarrow> (Inr (map le_dn es), Suc n)))"

definition map_groups_to_roles :: "ldap_config \<Rightarrow> string list \<Rightarrow> string list" where
  "map_groups_to_roles cfg group_dns =
     (let groups = set (map to_lower group_dns) in
      dedup (map gm_role (filter (\<lambda>g. gm_group g = ''*'' \<or> to_lower (gm_group g) \<in> groups) (ld_mappings cfg))))"

definition service_bind :: "directory \<Rightarrow> ldap_config \<Rightarrow> nat \<Rightarrow> ldap_failure option \<times> nat" where
  "service_bind dir cfg n =
     (if ld_bind_dn cfg \<noteq> [] then (dir_bind dir n (ld_bind_dn cfg) (ld_bind_password cfg), Suc n) else (None, n))"

definition is_invalid_credentials :: "ldap_failure \<Rightarrow> bool" where
  "is_invalid_credentials f \<longleftrightarrow> lf_code f = Some 49 \<or> lf_name f = ''InvalidCredentialsError''"

text \<open>The group memberships of an entry already found.\<close>

definition groups_of_user ::
  "directory \<Rightarrow> ldap_config \<Rightarrow> found_user \<Rightarrow> nat \<Rightarrow> (ldap_failure + string list) \<times> nat" where
  "groups_of_user dir cfg user n =
     (if ld_strategy cfg = MemberOf then (Inr (fu_member_of user), n)
      else search_groups_by_member dir cfg (fu_dn user) n)"

definition verify_ldap_credentials ::
  "directory \<Rightarrow> ldap_config \<Rightarrow> string \<Rightarrow> string \<Rightarrow> nat \<Rightarrow> verified_user verified \<times> nat" where
  "verify_ldap_credentials dir cfg username password n =
     (case service_bind dir cfg n of
        (Some f, n1) \<Rightarrow> (Refused BackendUnreachable, n1)
      | (None, n1) \<Rightarrow>
      (case search_user dir cfg username n1 of
        (Inl f, n2) \<Rightarrow> (Refused BackendUnreachable, n2)
      | (Inr None, n2) \<Rightarrow> (Refused InvalidCredentials, n2)
      | (Inr (Some user), n2) \<Rightarrow>
      (case dir_bind dir n2 (fu_dn user) password of
        Some f \<Rightarrow> (Refused (if is_invalid_credentials f then InvalidCredentials else BackendUnreachable), Suc n2)
      | None \<Rightarrow>
      (case groups_of_user dir cfg user (Suc n2) of
        (Inl f, n3) \<Rightarrow> (Refused BackendUnreachable, n3)
      | (Inr groups, n3) \<Rightarrow>
          (let roles = map_groups_to_roles cfg groups;
               identity = \<lparr>vu_username = username, vu_roles = roles,
                           vu_display_name = Some (fu_display_name user), vu_dn = Some (fu_dn user)\<rparr> in
           if length roles = 0 then (RefusedOnPolicy ZeroGroupMappings identity, n3)
           else (Granted identity, n3))))))"

record ldap_resolution =
  lr_found :: bool
  lr_dn :: "string option"
  lr_groups :: "string list"
  lr_roles :: "string list"
  lr_error :: "string option"

definition failed_resolution :: "ldap_failure \<Rightarrow> ldap_resolution" where
  "failed_resolution f = \<lparr>lr_found = False, lr_dn = None, lr_groups = [], lr_roles = [], lr_error = Some (lf_message f)\<rparr>"

definition resolve_ldap_user :: "directory \<Rightarrow> ldap_config \<Rightarrow> string \<Rightarrow> nat \<Rightarrow> ldap_resolution \<times> nat" where
  "resolve_ldap_user dir cfg username n =
     (case service_bind dir cfg n of
        (Some f, n1) \<Rightarrow> (failed_resolution f, n1)
      | (None, n1) \<Rightarrow>
      (case search_user dir cfg username n1 of
        (Inl f, n2) \<Rightarrow> (failed_resolution f, n2)
      | (Inr None, n2) \<Rightarrow>
          (\<lparr>lr_found = False, lr_dn = None, lr_groups = [], lr_roles = [], lr_error = None\<rparr>, n2)
      | (Inr (Some user), n2) \<Rightarrow>
      (case (if ld_strategy cfg = GroupSearch then search_groups_by_member dir cfg (fu_dn user) n2
             else (Inr (fu_member_of user), n2)) of
        (Inl f, n3) \<Rightarrow> (failed_resolution f, n3)
      | (Inr groups, n3) \<Rightarrow>
          (\<lparr>lr_found = True, lr_dn = Some (fu_dn user), lr_groups = groups,
            lr_roles = map_groups_to_roles cfg groups, lr_error = None\<rparr>, n3))))"

subsection \<open>Health\<close>

record ldap_probe =
  pr_reachable :: bool
  pr_service_bind_ok :: "bool option"
  pr_user_search_ok :: "bool option"
  pr_entries :: "nat option"
  pr_error :: "string option"

definition probe_ldap :: "directory \<Rightarrow> ldap_config \<Rightarrow> nat \<Rightarrow> ldap_probe \<times> nat" where
  "probe_ldap dir cfg n =
     (case service_bind dir cfg n of
        (Some f, n1) \<Rightarrow>
          (\<lparr>pr_reachable = False, pr_service_bind_ok = (if ld_bind_dn cfg \<noteq> [] then Some False else None),
            pr_user_search_ok = None, pr_entries = None, pr_error = Some (lf_message f)\<rparr>, n1)
      | (None, n1) \<Rightarrow>
          (let bound = (if ld_bind_dn cfg \<noteq> [] then Some True else None) in
           case dir_search dir n1 (ld_user_base cfg) ''(objectClass=*)'' [''dn''] of
             Inr es \<Rightarrow>
               (\<lparr>pr_reachable = True, pr_service_bind_ok = bound, pr_user_search_ok = Some True,
                 pr_entries = Some (length es), pr_error = None\<rparr>, Suc n1)
           | Inl f \<Rightarrow>
               (\<lparr>pr_reachable = True, pr_service_bind_ok = bound, pr_user_search_ok = Some False,
                 pr_entries = None, pr_error = Some (lf_message f)\<rparr>, Suc n1)))"

record ldap_health =
  lh_last :: "ldap_probe option"
  lh_last_at :: "nat option"

definition health_probe ::
  "directory \<Rightarrow> ldap_config \<Rightarrow> nat \<Rightarrow> ldap_health \<Rightarrow> nat \<Rightarrow> ldap_probe \<times> ldap_health \<times> nat" where
  "health_probe dir cfg now h n =
     (case probe_ldap dir cfg n of (r, n') \<Rightarrow> (r, h\<lparr>lh_last := Some r, lh_last_at := Some now\<rparr>, n'))"

definition health_get_or_probe ::
  "directory \<Rightarrow> ldap_config \<Rightarrow> nat \<Rightarrow> nat \<Rightarrow> ldap_health \<Rightarrow> nat \<Rightarrow> ldap_probe \<times> ldap_health \<times> nat" where
  "health_get_or_probe dir cfg freshness now h n =
     (case (lh_last h, lh_last_at h) of
        (Some r, Some at) \<Rightarrow>
          if at \<noteq> 0 \<and> int now - int at < int freshness then (r, h, n) else health_probe dir cfg now h n
      | _ \<Rightarrow> health_probe dir cfg now h n)"

definition is_unhealthy :: "ldap_health \<Rightarrow> bool" where
  "is_unhealthy h =
     (case lh_last h of None \<Rightarrow> True | Some r \<Rightarrow> \<not> pr_reachable r \<or> pr_user_search_ok r = Some False)"

subsection \<open>Local accounts and break-glass\<close>

definition dummy_hash :: string where
  "dummy_hash = ''$argon2id$v=19$m=65536,t=3,p=4$dummysaltdummysalt$dummyhashdummyhashdummyhashdummyhash''"

text \<open>A verifier that raises counts as a refusal.\<close>

definition argon_ok :: "(string \<Rightarrow> string \<Rightarrow> bool option) \<Rightarrow> string \<Rightarrow> string \<Rightarrow> bool" where
  "argon_ok argon hash password = (case argon hash password of Some b \<Rightarrow> b | None \<Rightarrow> False)"

definition verify_local_credentials ::
  "(string \<Rightarrow> string \<Rightarrow> bool option) \<Rightarrow> horizon_config \<Rightarrow> string \<Rightarrow> string \<Rightarrow> verified_user verified" where
  "verify_local_credentials argon cfg username password =
     (let user = find (\<lambda>u. lu_username u = username) (local_users (cfg_auth cfg));
          hash = (case user of Some u \<Rightarrow> lu_password_hash u | None \<Rightarrow> dummy_hash);
          ok = argon_ok argon hash password in
      case user of
        None \<Rightarrow> Refused InvalidCredentials
      | Some u \<Rightarrow>
          if \<not> ok then Refused InvalidCredentials
          else Granted \<lparr>vu_username = lu_username u, vu_roles = lu_roles u, vu_display_name = None, vu_dn = None\<rparr>)"

definition verify_break_glass ::
  "(string \<Rightarrow> string \<Rightarrow> bool option) \<Rightarrow> break_glass_account \<Rightarrow> string \<Rightarrow> string \<Rightarrow> verified_user option" where
  "verify_break_glass argon acc username password =
     (let target = (if username = bg_username acc then bg_password_hash acc else dummy_hash);
          ok = argon_ok argon target password in
      if \<not> ok \<or> username \<noteq> bg_username acc then None
      else Some \<lparr>vu_username = bg_username acc, vu_roles = bg_roles acc, vu_display_name = None, vu_dn = None\<rparr>)"

subsection \<open>Lemmas\<close>

definition hex_digit_value :: "char \<Rightarrow> nat option" where
  "hex_digit_value c =
     (if is_digit c then Some (of_char c - 48)
      else if c \<in> {CHR ''a'', CHR ''b'', CHR ''c'', CHR ''d'', CHR ''e'', CHR ''f''} then Some (of_char c - 87)
      else None)"

text \<open>The assertion value a filter's text denotes (RFC 4515), \<open>None\<close> where a character that has to be
  escaped stands for itself.\<close>

fun filter_value_of :: "string \<Rightarrow> string option" where
  "filter_value_of [] = Some []"
| "filter_value_of (c # t) =
     (if c = CHR 0x5C then
        (case t of
           a # b # r \<Rightarrow>
             (case (hex_digit_value a, hex_digit_value b, filter_value_of r) of
                (Some x, Some y, Some v) \<Rightarrow> Some (char_of (16 * x + y) # v)
              | _ \<Rightarrow> None)
         | _ \<Rightarrow> None)
      else if c \<in> {CHR ''*'', CHR ''('', CHR '')'', CHR 0x00} then None
      else map_option ((#) c) (filter_value_of t))"

lemma filter_value_escape: "filter_value_of (escape_filter_value u) = Some u"
proof (induction u)
  case (Cons c u)
  have "escape_filter_value (c # u) = escape_filter_char c @ escape_filter_value u"
    by (simp add: escape_filter_value_def)
  then show ?case using Cons
    by (simp add: escape_filter_char_def hex_digit_value_def is_digit_def char_le_of_char char_of_eq_lit)
qed (simp add: escape_filter_value_def)

lemma escape_no_special:
  "c \<in> {CHR ''*'', CHR ''('', CHR '')'', CHR 0x00} \<Longrightarrow> c \<notin> set (escape_filter_value u)"
  by (auto simp: escape_filter_value_def escape_filter_char_def split: if_splits)

lemma escape_no_dollar: "CHR ''$'' \<notin> set u \<Longrightarrow> CHR ''$'' \<notin> set (escape_filter_value u)"
  by (auto simp: escape_filter_value_def escape_filter_char_def split: if_splits)

lemma expand_no_dollar: "CHR ''$'' \<notin> set rep \<Longrightarrow> expand_replacement pre m post rep = rep"
  by (induction pre m post rep rule: expand_replacement.induct) auto

lemma replace_all_skip:
  "CHR ''{'' \<notin> set a \<Longrightarrow>
   replace_all_from username_placeholder rep before (a @ s) = a @ replace_all_from username_placeholder rep (before @ a) s"
proof (induction a arbitrary: before)
  case (Cons c a)
  then show ?case
    by (simp add: replace_all_from.simps [of _ _ _ "c # a @ s"] username_placeholder_def)
qed simp

lemma replace_all_hit:
  "replace_all_from username_placeholder rep before (username_placeholder @ s) =
   expand_replacement before username_placeholder s rep @
   replace_all_from username_placeholder rep (before @ username_placeholder) s"
  by (subst replace_all_from.simps) (simp add: username_placeholder_def Let_def)

lemma replace_all_nil [simp]: "replace_all_from search rep before [] = []"
  by (simp add: replace_all_from.simps)

lemma user_filter_one:
  assumes "ld_user_filter cfg = a @ username_placeholder @ b" and "CHR ''{'' \<notin> set a" and "CHR ''{'' \<notin> set b"
  shows "user_filter cfg u = a @ expand_replacement a username_placeholder b (escape_filter_value u) @ b"
  using replace_all_skip [OF assms(3), of "escape_filter_value u" "a @ username_placeholder" "[]"]
  by (simp add: user_filter_def assms(1) replace_all_skip [OF assms(2)] replace_all_hit)

lemma set_map_groups:
  "set (map_groups_to_roles cfg gs) =
     {gm_role g | g. g \<in> set (ld_mappings cfg) \<and> (gm_group g = ''*'' \<or> to_lower (gm_group g) \<in> to_lower ` set gs)}"
  by (auto simp: map_groups_to_roles_def)

lemma distinct_map_groups: "distinct (map_groups_to_roles cfg gs)"
  by (simp add: map_groups_to_roles_def)







subsection \<open>Properties\<close>

text \<open>C39: a username without a dollar sign reaches the directory as itself.  The filter is the
  configured one with the escaped name in place of its placeholder, the escaped text holds none of the
  characters a filter is built from, and reading it back by RFC 4515 gives the typed name.\<close>

theorem ldap_filter_literal:
  assumes "ld_user_filter cfg = a @ username_placeholder @ b" and "CHR ''{'' \<notin> set (a @ b)" and "CHR ''$'' \<notin> set u"
  shows "user_filter cfg u = a @ escape_filter_value u @ b \<and>
    filter_value_of (escape_filter_value u) = Some u \<and>
    set (escape_filter_value u) \<inter> {CHR ''*'', CHR ''('', CHR '')'', CHR 0x00} = {}"
  using user_filter_one [OF assms(1)] assms(2, 3) escape_no_special filter_value_escape
    expand_no_dollar [OF escape_no_dollar [OF assms(3)]] by auto

definition sample_ldap :: ldap_config where
  "sample_ldap =
     \<lparr>ld_bind_dn = [], ld_bind_password = [], ld_user_base = ''ou=people'', ld_user_filter = ''(uid={username})'',
      ld_display_attr = ''cn'', ld_strategy = MemberOf, ld_group_base = [], ld_member_attr = ''member'',
      ld_mappings = [\<lparr>gm_group = ''*'', gm_role = ''viewer''\<rparr>]\<rparr>"

lemma sample_filter: "ld_user_filter sample_ldap = ''(uid='' @ username_placeholder @ '')''"
  by (simp add: sample_ldap_def username_placeholder_def)

theorem ldap_filter_literal_witness: "user_filter sample_ldap ''a*b'' = ''(uid=a'' @ CHR 0x5C # ''2ab)''"
  using ldap_filter_literal [OF sample_filter, of "''a*b''"]
  by (simp add: escape_filter_value_def escape_filter_char_def)

text \<open>A dollar sign in a username is read by \<open>replaceAll\<close>.  Two different names make one filter, and
  a name without any character the escape covers puts a bare parenthesis into it.\<close>

theorem dollar_username_rewrites:
  "user_filter sample_ldap ''svc$$'' = user_filter sample_ldap ''svc$'' \<and>
   user_filter sample_ldap (''x$'' @ [CHR 0x27]) = ''(uid=x))'' \<and>
   escape_filter_value (''x$'' @ [CHR 0x27]) = ''x$'' @ [CHR 0x27]"
  by (simp add: user_filter_one [OF sample_filter])
    (simp add: escape_filter_value_def escape_filter_char_def username_placeholder_def)


text \<open>Signing in and looking a user up agree.  Against a directory whose answers do not change
  between the two, a sign-in that is granted, or refused on policy, is about the entry the lookup
  finds and carries the roles the lookup reports.\<close>

theorem login_agrees_with_resolver:
  assumes "\<And>k. dir_bind dir k = bind" and "\<And>k. dir_search dir k = search"
    and "fst (verify_ldap_credentials dir cfg username password n) = Granted v \<or>
         fst (verify_ldap_credentials dir cfg username password n) = RefusedOnPolicy reason v"
  shows "lr_found (fst (resolve_ldap_user dir cfg username m)) \<and>
    lr_error (fst (resolve_ldap_user dir cfg username m)) = None \<and>
    lr_dn (fst (resolve_ldap_user dir cfg username m)) = vu_dn v \<and>
    lr_roles (fst (resolve_ldap_user dir cfg username m)) = vu_roles v"
proof -
  obtain b n1 where b: "service_bind dir cfg n = (b, n1)" by (cases "service_bind dir cfg n")
  obtain m1 where b': "service_bind dir cfg m = (b, m1)"
    using b by (cases "service_bind dir cfg m") (auto simp: service_bind_def assms(1) split: if_splits)
  have "b = None" using assms(3) b by (cases b) (auto simp: verify_ldap_credentials_def)
  obtain r n2 where r: "search_user dir cfg username n1 = (r, n2)" by (cases "search_user dir cfg username n1")
  obtain m2 where r': "search_user dir cfg username m1 = (r, m2)"
    using r by (cases "search_user dir cfg username m1")
      (auto simp: search_user_def assms(2) split: sum.splits list.splits)
  obtain user where user: "r = Inr (Some user)"
    using assms(3) b r \<open>b = None\<close> by (auto simp: verify_ldap_credentials_def split: sum.splits option.splits)
  have bound: "dir_bind dir n2 (fu_dn user) password = None"
    using assms(3) b r user \<open>b = None\<close> by (auto simp: verify_ldap_credentials_def split: option.splits)
  obtain g n3 where g: "groups_of_user dir cfg user (Suc n2) = (g, n3)" by (cases "groups_of_user dir cfg user (Suc n2)")
  have "fst (groups_of_user dir cfg user k) = g" for k
    using g by (auto simp: groups_of_user_def search_groups_by_member_def assms(2) split: if_splits sum.splits)
  then obtain m3 where g': "groups_of_user dir cfg user m2 = (g, m3)" by (metis prod.collapse)
  obtain gs where gs: "g = Inr gs"
    using assms(3) b r user bound g \<open>b = None\<close> by (cases g) (auto simp: verify_ldap_credentials_def)
  have "fst (resolve_ldap_user dir cfg username m) =
      \<lparr>lr_found = True, lr_dn = Some (fu_dn user), lr_groups = gs, lr_roles = map_groups_to_roles cfg gs, lr_error = None\<rparr>"
    using b' r' user g' gs \<open>b = None\<close>
    by (cases "ld_strategy cfg") (auto simp: resolve_ldap_user_def groups_of_user_def)
  moreover have "vu_dn v = Some (fu_dn user)" "vu_roles v = map_groups_to_roles cfg gs"
    using assms(3) b r user bound g gs \<open>b = None\<close>
    by (auto simp: verify_ldap_credentials_def Let_def split: if_splits)
  ultimately show ?thesis by simp
qed

text \<open>A directory with one account, \<open>cn=ann\<close>, whose password is \<open>pw\<close>.\<close>

definition sample_directory :: directory where
  "sample_directory =
     \<lparr>dir_bind = (\<lambda>k dn pw. if dn = ''cn=ann'' \<and> pw = ''pw'' then None
        else Some \<lparr>lf_code = Some 49, lf_name = ''InvalidCredentialsError'', lf_message = ''no''\<rparr>),
      dir_search = (\<lambda>k base flt attrs.
        Inr (if flt = ''(uid=ann)'' then [\<lparr>le_dn = ''cn=ann'', le_attrs = (\<lambda>_. NoValue)\<rparr>] else []))\<rparr>"

lemma sample_login:
  "fst (verify_ldap_credentials sample_directory sample_ldap ''ann'' ''pw'' 0) =
     Granted \<lparr>vu_username = ''ann'', vu_roles = [''viewer''], vu_display_name = Some ''cn=ann'', vu_dn = Some ''cn=ann''\<rparr>"
proof -
  have "user_filter sample_ldap ''ann'' = ''(uid=ann)''"
    by (simp add: user_filter_one [OF sample_filter]) (simp add: escape_filter_value_def escape_filter_char_def)
  moreover have "map_groups_to_roles sample_ldap [] = [''viewer'']" by code_simp
  ultimately show ?thesis
    by (simp add: verify_ldap_credentials_def service_bind_def search_user_def sample_directory_def groups_of_user_def
        found_user_of_def Let_def) (simp add: sample_ldap_def)
qed

theorem login_agrees_with_resolver_witness:
  "lr_roles (fst (resolve_ldap_user sample_directory sample_ldap ''ann'' 7)) = [''viewer'']"
  using login_agrees_with_resolver [OF _ _ disjI1 [OF sample_login], where m = 7]
  by (simp add: sample_directory_def)

end
