(* ===== verification/Roles.thy ===== *)
theory Roles
  imports Directory
begin

text \<open>
  A username's current roles, for the credentials that hold none: \<open>apps/bff/src/user/roles.ts\<close>.  The
  state is the resolver's cache and the number of calls the directory has answered.
\<close>

definition role_cache_ms :: nat where
  "role_cache_ms = 30000"

record resolution =
  rs_roles :: "string list"
  rs_known :: bool

record role_state =
  rl_cache :: "(string, resolution \<times> nat) jsmap"
  rl_calls :: nat

definition sso_resolution :: "horizon_config \<Rightarrow> string \<Rightarrow> resolution" where
  "sso_resolution cfg username = \<lparr>rs_roles = oidc_roles_for cfg username, rs_known = oidc_admits cfg username\<rparr>"

definition no_resolution :: resolution where
  "no_resolution = \<lparr>rs_roles = [], rs_known = False\<rparr>"

definition ask_directory ::
  "directory \<Rightarrow> horizon_config \<Rightarrow> ldap_config \<Rightarrow> nat \<Rightarrow> string \<Rightarrow> role_state \<Rightarrow> resolution \<times> role_state" where
  "ask_directory dir cfg ldap now username st =
     (case resolve_ldap_user dir ldap username (rl_calls st) of
        (res, n) \<Rightarrow>
          if truthy (lr_error res) then (no_resolution, st\<lparr>rl_calls := n\<rparr>)
          else (let out = (if lr_found res then \<lparr>rs_roles = lr_roles res, rs_known = True\<rparr>
                           else sso_resolution cfg username) in
                (out, st\<lparr>rl_calls := n, rl_cache := map_put username (out, now) (rl_cache st)\<rparr>)))"

definition cached_role :: "nat \<Rightarrow> string \<Rightarrow> role_state \<Rightarrow> resolution option" where
  "cached_role now username st =
     (case map_of (rl_cache st) username of
        Some (res, at) \<Rightarrow> if int now - int at < int role_cache_ms then Some res else None
      | None \<Rightarrow> None)"

definition resolve_role ::
  "directory \<Rightarrow> horizon_config \<Rightarrow> nat \<Rightarrow> string \<Rightarrow> role_state \<Rightarrow> resolution \<times> role_state" where
  "resolve_role dir cfg now username st =
     (case (auth_backend_kind (cfg_auth cfg), auth_ldap (cfg_auth cfg)) of
        (LdapBackend, Some ldap) \<Rightarrow>
          if oidc_admits cfg username then (\<lparr>rs_roles = oidc_roles_for cfg username, rs_known = True\<rparr>, st)
          else (case cached_role now username st of
                  Some res \<Rightarrow> (res, st)
                | None \<Rightarrow> ask_directory dir cfg ldap now username st)
      | _ \<Rightarrow>
          (case find (\<lambda>u. lu_username u = username) (local_users (cfg_auth cfg)) of
             Some u \<Rightarrow> (\<lparr>rs_roles = lu_roles u, rs_known = True\<rparr>, st)
           | None \<Rightarrow> (sso_resolution cfg username, st)))"

definition roles_for :: "directory \<Rightarrow> horizon_config \<Rightarrow> nat \<Rightarrow> string \<Rightarrow> role_state \<Rightarrow> string list \<times> role_state" where
  "roles_for dir cfg now username st =
     (case resolve_role dir cfg now username st of (r, st') \<Rightarrow> (rs_roles r, st'))"

definition knows_user :: "directory \<Rightarrow> horizon_config \<Rightarrow> nat \<Rightarrow> string \<Rightarrow> role_state \<Rightarrow> bool \<times> role_state" where
  "knows_user dir cfg now username st =
     (case resolve_role dir cfg now username st of (r, st') \<Rightarrow> (rs_known r, st'))"

definition new_role_state :: role_state where
  "new_role_state = \<lparr>rl_cache = [], rl_calls = 0\<rparr>"

subsection \<open>The contract of a resolver\<close>

text \<open>What the credentials rely on: someone who is nobody has no roles, an answer that names somebody is
  given again at the same moment without asking anew, and the resolver's state stays one it can be in.\<close>

locale role_resolver =
  fixes resolve :: "nat \<Rightarrow> string \<Rightarrow> 'st \<Rightarrow> resolution \<times> 'st"
    and ok :: "'st \<Rightarrow> bool"
  assumes nobody: "ok st \<Longrightarrow> \<not> rs_known (fst (resolve now u st)) \<Longrightarrow> rs_roles (fst (resolve now u st)) = []"
    and again: "ok st \<Longrightarrow> rs_known (fst (resolve now u st)) \<Longrightarrow>
      resolve now u (snd (resolve now u st)) = resolve now u st"
    and ok_resolve: "ok st \<Longrightarrow> ok (snd (resolve now u st))"
begin

text \<open>Asking for existence first and for the roles after it, as the credentials do.\<close>

definition both :: "nat \<Rightarrow> string \<Rightarrow> 'st \<Rightarrow> (string list option) \<times> 'st" where
  "both now u st =
     (case resolve now u st of (r, st1) \<Rightarrow>
        if rs_known r then (case resolve now u st1 of (r', st2) \<Rightarrow> (Some (rs_roles r'), st2)) else (None, st1))"

lemma both_is_one:
  "ok st \<Longrightarrow> both now u st =
     (case resolve now u st of (r, st1) \<Rightarrow> (if rs_known r then Some (rs_roles r) else None, st1))"
  using again [of st now u] by (auto simp: both_def split: prod.splits)

lemma both_roles: "ok st \<Longrightarrow> fst (both now u st) = Some rs \<Longrightarrow> rs = rs_roles (fst (resolve now u st)) \<and> rs_known (fst (resolve now u st))"
  by (auto simp: both_is_one split: prod.splits if_splits)

end

definition resolver_ok :: "role_state \<Rightarrow> bool" where
  "resolver_ok st \<longleftrightarrow> (\<forall>u r at. map_of (rl_cache st) u = Some (r, at) \<longrightarrow> \<not> rs_known r \<longrightarrow> rs_roles r = [])"

lemma sso_nobody: "\<not> rs_known (sso_resolution cfg u) \<Longrightarrow> rs_roles (sso_resolution cfg u) = []"
  by (simp add: sso_resolution_def oidc_roles_for_def)

lemma ask_nobody: "\<not> rs_known (fst (ask_directory dir cfg ldap now u st)) \<Longrightarrow> rs_roles (fst (ask_directory dir cfg ldap now u st)) = []"
  using sso_nobody by (auto simp: ask_directory_def no_resolution_def Let_def split: prod.splits if_splits)

lemma ask_ok: "resolver_ok st \<Longrightarrow> resolver_ok (snd (ask_directory dir cfg ldap now u st))"
  using sso_nobody by (auto simp: ask_directory_def resolver_ok_def Let_def split: prod.splits if_splits)

lemma ask_cached:
  "rs_known (fst (ask_directory dir cfg ldap now u st)) \<Longrightarrow>
   cached_role now u (snd (ask_directory dir cfg ldap now u st)) = Some (fst (ask_directory dir cfg ldap now u st))"
  by (auto simp: ask_directory_def no_resolution_def cached_role_def role_cache_ms_def Let_def split: prod.splits if_splits)

lemma resolve_role_cases:
  "resolve_role dir cfg now u st = (r, st') \<Longrightarrow>
   (st' = st \<and> (\<forall>st. resolve_role dir cfg now u st = (r, st)) \<and> (\<not> rs_known r \<longrightarrow> rs_roles r = [])) \<or>
   (\<exists>ldap. auth_backend_kind (cfg_auth cfg) = LdapBackend \<and> auth_ldap (cfg_auth cfg) = Some ldap \<and> \<not> oidc_admits cfg u \<and>
      (cached_role now u st = Some r \<and> st' = st \<or>
       cached_role now u st = None \<and> ask_directory dir cfg ldap now u st = (r, st')))"
  using sso_nobody
  by (cases "auth_backend_kind (cfg_auth cfg)"; cases "auth_ldap (cfg_auth cfg)")
    (auto simp: resolve_role_def split: option.splits if_splits)

lemma resolve_from_cache:
  "auth_backend_kind (cfg_auth cfg) = LdapBackend \<Longrightarrow> auth_ldap (cfg_auth cfg) = Some ldap \<Longrightarrow> \<not> oidc_admits cfg u \<Longrightarrow>
   cached_role now u st = Some r \<Longrightarrow> resolve_role dir cfg now u st = (r, st)"
  by (simp add: resolve_role_def)

lemma cached_ok: "resolver_ok st \<Longrightarrow> cached_role now u st = Some r \<Longrightarrow> \<not> rs_known r \<Longrightarrow> rs_roles r = []"
  unfolding resolver_ok_def cached_role_def by (fastforce split: option.splits if_splits)

interpretation live_roles: role_resolver "resolve_role dir cfg" resolver_ok for dir cfg
proof unfold_locales
  fix st now u
  assume ok: "resolver_ok st"
  obtain r st' where r: "resolve_role dir cfg now u st = (r, st')" by (cases "resolve_role dir cfg now u st")
  note cases = resolve_role_cases [OF r]
  show "\<not> rs_known (fst (resolve_role dir cfg now u st)) \<Longrightarrow> rs_roles (fst (resolve_role dir cfg now u st)) = []"
    using cases ok cached_ok ask_nobody unfolding r fst_conv by (metis fst_conv)
  show "rs_known (fst (resolve_role dir cfg now u st)) \<Longrightarrow>
      resolve_role dir cfg now u (snd (resolve_role dir cfg now u st)) = resolve_role dir cfg now u st"
    using cases ask_cached resolve_from_cache unfolding r fst_conv snd_conv by (metis fst_conv snd_conv)
  show "resolver_ok (snd (resolve_role dir cfg now u st))"
    using cases ok ask_ok unfolding r snd_conv by (metis snd_conv)
qed

subsection \<open>How old an answer may be\<close>

text \<open>A run of lookups, the latest first, each a time and a username; the answers the directory gave in it
  are the lookups that reached it and were not errors.\<close>

primrec role_run :: "directory \<Rightarrow> horizon_config \<Rightarrow> (nat \<times> string) list \<Rightarrow> role_state" where
  "role_run dir cfg [] = new_role_state"
| "role_run dir cfg (c # cs) = snd (resolve_role dir cfg (fst c) (snd c) (role_run dir cfg cs))"

definition asked_live :: "directory \<Rightarrow> horizon_config \<Rightarrow> nat \<Rightarrow> string \<Rightarrow> role_state \<Rightarrow> resolution \<Rightarrow> bool" where
  "asked_live dir cfg t u st r \<longleftrightarrow>
     (\<exists>ldap. auth_ldap (cfg_auth cfg) = Some ldap \<and> cached_role t u st = None \<and>
        fst (ask_directory dir cfg ldap t u st) = r)"

definition answered_in :: "directory \<Rightarrow> horizon_config \<Rightarrow> (nat \<times> string) list \<Rightarrow> nat \<Rightarrow> string \<Rightarrow> resolution \<Rightarrow> bool" where
  "answered_in dir cfg cs t u r \<longleftrightarrow>
     (\<exists>pre post. cs = pre @ (t, u) # post \<and> asked_live dir cfg t u (role_run dir cfg post) r)"

lemma answered_in_Cons: "answered_in dir cfg cs t u r \<Longrightarrow> answered_in dir cfg (c # cs) t u r"
  unfolding answered_in_def by (metis append_Cons)

lemma answered_in_head: "asked_live dir cfg t u (role_run dir cfg cs) r \<Longrightarrow> answered_in dir cfg ((t, u) # cs) t u r"
  unfolding answered_in_def by (metis append_Nil)

lemma ask_cache:
  "ask_directory dir cfg ldap now u st = (r, st') \<Longrightarrow>
   rl_cache st' = rl_cache st \<or> rl_cache st' = map_put u (r, now) (rl_cache st)"
  by (auto simp: ask_directory_def Let_def split: prod.splits if_splits)

lemma cache_answered:
  "map_of (rl_cache (role_run dir cfg cs)) u = Some (r, at) \<Longrightarrow> answered_in dir cfg cs at u r"
proof (induction cs arbitrary: u r at)
  case (Cons c cs)
  obtain t k where c: "c = (t, k)" by (cases c)
  obtain x st' where x: "resolve_role dir cfg t k (role_run dir cfg cs) = (x, st')"
    by (cases "resolve_role dir cfg t k (role_run dir cfg cs)")
  have st': "role_run dir cfg (c # cs) = st'" using c x by simp
  show ?case
  proof (cases "rl_cache st' = rl_cache (role_run dir cfg cs)")
    case True
    then show ?thesis using Cons.prems Cons.IH st' answered_in_Cons by metis
  next
    case False
    obtain ldap where ldap: "auth_ldap (cfg_auth cfg) = Some ldap" "cached_role t k (role_run dir cfg cs) = None"
        "ask_directory dir cfg ldap t k (role_run dir cfg cs) = (x, st')"
      using resolve_role_cases [OF x] False by blast
    then have put: "rl_cache st' = map_put k (x, t) (rl_cache (role_run dir cfg cs))" using ask_cache False by blast
    have "asked_live dir cfg t k (role_run dir cfg cs) x" using ldap by (auto simp: asked_live_def)
    then show ?thesis using Cons.prems Cons.IH st' put c answered_in_head answered_in_Cons
      by (auto split: if_splits)
  qed
qed (simp add: new_role_state_def)

subsection \<open>Properties\<close>

text \<open>A demotion in the directory is at most half a minute away.  With a directory behind it, whatever
  roles the resolver reports for a person single sign-on does not own come from an answer the directory
  gave for that person within the last thirty seconds, or from asking it now.\<close>

theorem roles_are_recent:
  assumes "auth_backend_kind (cfg_auth cfg) = LdapBackend" and "auth_ldap (cfg_auth cfg) = Some ldap"
    and "\<not> oidc_admits cfg u"
    and "fst (resolve_role dir cfg now u (role_run dir cfg cs)) = r"
  shows "(\<exists>t. answered_in dir cfg cs t u r \<and> int now - int t < 30000) \<or>
    asked_live dir cfg now u (role_run dir cfg cs) r"
proof (cases "cached_role now u (role_run dir cfg cs)")
  case (Some x)
  then obtain at where "map_of (rl_cache (role_run dir cfg cs)) u = Some (x, at)" "int now - int at < 30000"
    by (auto simp: cached_role_def role_cache_ms_def split: option.splits if_splits)
  moreover have "r = x" using resolve_from_cache [OF assms(1-3) Some] assms(4) by simp
  ultimately show ?thesis using cache_answered by blast
next
  case None
  then show ?thesis using assms by (auto simp: asked_live_def resolve_role_def)
qed

definition ldap_config_of :: "ldap_config \<Rightarrow> horizon_config" where
  "ldap_config_of ldap =
     (let cfg = sample_config (sample_rbac []) no_sso in
      cfg\<lparr>cfg_auth := (cfg_auth cfg)\<lparr>auth_backend_kind := LdapBackend, auth_ldap := Some ldap\<rparr>\<rparr>)"

theorem roles_are_recent_witness:
  "(\<exists>t. answered_in sample_directory (ldap_config_of sample_ldap) [] t ''ann''
        (fst (resolve_role sample_directory (ldap_config_of sample_ldap) 5 ''ann'' new_role_state)) \<and> int 5 - int t < 30000) \<or>
   asked_live sample_directory (ldap_config_of sample_ldap) 5 ''ann'' new_role_state
     (fst (resolve_role sample_directory (ldap_config_of sample_ldap) 5 ''ann'' new_role_state))"
  using roles_are_recent [of "ldap_config_of sample_ldap" sample_ldap "''ann''" sample_directory 5 "[]", OF _ _ _ refl]
  by (simp add: ldap_config_of_def sample_config_def no_sso_def oidc_admits_def Let_def)

lemma knows_then_roles:
  assumes "resolver_ok st" and "knows_user dir cfg now u st = (k, st')"
  shows "(k \<longrightarrow> fst (roles_for dir cfg now u st') = rs_roles (fst (resolve_role dir cfg now u st)) \<and>
        snd (roles_for dir cfg now u st') = st') \<and>
    (\<not> k \<longrightarrow> rs_roles (fst (resolve_role dir cfg now u st)) = []) \<and> resolver_ok st'"
  using assms(2) live_roles.again [OF assms(1), where now = now and u = u and dir = dir and cfg = cfg]
    live_roles.nobody [OF assms(1), where now = now and u = u and dir = dir and cfg = cfg]
    live_roles.ok_resolve [OF assms(1), where now = now and u = u and dir = dir and cfg = cfg]
  by (auto simp: knows_user_def roles_for_def split: prod.splits)

text \<open>An answer survives being asked for twice.  The credentials ask whether a person exists and then
  for their roles; whatever the backend, a person found to exist has the roles that same answer gave,
  even if the directory would answer the second question differently, and nobody has no roles.\<close>

theorem existence_and_roles_agree:
  assumes "resolver_ok st" and "knows_user dir cfg now u st = (k, st')"
  shows "(k \<longrightarrow> fst (roles_for dir cfg now u st') = rs_roles (fst (resolve_role dir cfg now u st)) \<and>
        snd (roles_for dir cfg now u st') = st') \<and>
    (\<not> k \<longrightarrow> rs_roles (fst (resolve_role dir cfg now u st)) = []) \<and> resolver_ok st'"
  by (rule knows_then_roles [OF assms])

theorem existence_and_roles_agree_witness:
  "resolver_ok (snd (knows_user sample_directory (ldap_config_of sample_ldap) 5 ''ann'' new_role_state))"
  using existence_and_roles_agree [of new_role_state sample_directory "ldap_config_of sample_ldap" 5 "''ann''", OF _ prod.collapse [symmetric]]
  by (simp add: resolver_ok_def new_role_state_def)

end
