(* ===== verification/Tokens.thy ===== *)
theory Tokens
  imports Roles Json Sha256
begin

text \<open>
  API tokens, the credential of scripts and MCP clients: \<open>apps/bff/src/user/tokens.ts\<close>.  The file system
  is a parameter that answers a read of a path at a time; \<open>Date.parse\<close>, whose reading of texts outside
  the ISO format the language leaves open, is another.  Concurrent callers share one read of the file,
  which is one step here.
\<close>

subsection \<open>Entries and their file\<close>

definition token_prefix :: string where "token_prefix = ''hzn_''"
definition reload_ms :: nat where "reload_ms = 30000"
definition stale_grace_ms :: nat where "stale_grace_ms = 300000"

record token_entry =
  te_id :: string
  te_username :: string
  te_hash :: string
  te_label :: "json option"
  te_roles :: "string list option"
  te_expires :: "json option"

record token_identity =
  ti_username :: string
  ti_roles :: "string list"
  ti_token_id :: string
  ti_label :: "json option"

definition hash_token_secret :: "string \<Rightarrow> string" where
  "hash_token_secret secret = ''sha256:'' @ hex_string (sha256 (utf8_encode secret))"

definition parse_token :: "string \<Rightarrow> (string \<times> string) option" where
  "parse_token raw =
     (if \<not> prefix token_prefix raw then None
      else (let rest = drop (length token_prefix) raw in
            case index_of CHR ''_'' rest of
              None \<Rightarrow> None
            | Some sep \<Rightarrow> if sep = 0 \<or> sep = length rest - 1 then None else Some (take sep rest, drop (Suc sep) rest)))"

definition secret_matches :: "string \<Rightarrow> string \<Rightarrow> bool" where
  "secret_matches expect actual =
     (let a = utf8_encode expect; b = utf8_encode actual in if length a \<noteq> length b then False else a = b)"

definition js_truthy :: "json option \<Rightarrow> bool" where
  "js_truthy v = (case v of None \<Rightarrow> False | Some x \<Rightarrow> x \<notin> {JNull, JBool False, JNum 0, JStr []})"

definition is_expired :: "(json \<Rightarrow> int option) \<Rightarrow> token_entry \<Rightarrow> nat \<Rightarrow> bool" where
  "is_expired date_parse e now =
     (if \<not> js_truthy (te_expires e) then False
      else (case date_parse (the (te_expires e)) of None \<Rightarrow> True | Some at \<Rightarrow> at \<le> int now))"

text \<open>The roles cap of an entry: absent, a list of strings, or something else.\<close>

definition roles_cap :: "json option \<Rightarrow> string list option option" where
  "roles_cap v =
     (case v of
        None \<Rightarrow> Some None
      | Some (JArr vs) \<Rightarrow>
          if list_all (\<lambda>x. as_string (Some x) \<noteq> None) vs then Some (Some (map (\<lambda>x. the (as_string (Some x))) vs)) else None
      | Some _ \<Rightarrow> None)"

definition entry_of_json :: "json \<Rightarrow> token_entry option" where
  "entry_of_json e =
     (case (as_string (get_field ''id'' e), as_string (get_field ''username'' e), as_string (get_field ''hash'' e)) of
        (Some i, Some u, Some h) \<Rightarrow>
          (case roles_cap (get_field ''roles'' e) of
             None \<Rightarrow> None
           | Some cap \<Rightarrow>
               Some \<lparr>te_id = i, te_username = u, te_hash = h, te_label = get_field ''label'' e, te_roles = cap,
                     te_expires = get_field ''expires'' e\<rparr>)
      | _ \<Rightarrow> None)"

definition read_entries :: "json list \<Rightarrow> (string, token_entry) jsmap" where
  "read_entries vs =
     fold (\<lambda>v m. case entry_of_json v of Some e \<Rightarrow> map_put (te_id e) e m | None \<Rightarrow> m) vs []"

definition parse_tokens :: "string \<Rightarrow> (string, token_entry) jsmap option" where
  "parse_tokens text = (case json_parse text of Some (JArr vs) \<Rightarrow> Some (read_entries vs) | _ \<Rightarrow> None)"

datatype file_reply = FileText string | FileMissing | FileUnreadable

type_synonym file_system = "nat \<Rightarrow> string \<Rightarrow> file_reply"

definition tokens_at :: "file_system \<Rightarrow> nat \<Rightarrow> string \<Rightarrow> (string, token_entry) jsmap option" where
  "tokens_at files now path = (case files now path of FileText t \<Rightarrow> parse_tokens t | _ \<Rightarrow> None)"

subsection \<open>The store\<close>

record token_state =
  tk_entries :: "(string, token_entry) jsmap"
  tk_loaded_at :: nat
  tk_good_at :: nat
  tk_loaded_path :: string

definition new_token_state :: token_state where
  "new_token_state = \<lparr>tk_entries = [], tk_loaded_at = 0, tk_good_at = 0, tk_loaded_path = []\<rparr>"

definition load_tokens :: "file_system \<Rightarrow> nat \<Rightarrow> string \<Rightarrow> token_state \<Rightarrow> token_state" where
  "load_tokens files now path st =
     (if int now - int (tk_loaded_at st) < int reload_ms \<and> path = tk_loaded_path st then st
      else (case (if path \<noteq> [] then tokens_at files now path else Some []) of
              Some next_entries \<Rightarrow>
                \<lparr>tk_entries = next_entries, tk_loaded_at = now, tk_good_at = now, tk_loaded_path = path\<rparr>
            | None \<Rightarrow>
                (let missing = (files now path = FileMissing); stale_for = int now - int (tk_good_at st) in
                 st\<lparr>tk_entries := (if missing \<or> stale_for > int stale_grace_ms then [] else tk_entries st),
                    tk_loaded_path := path, tk_loaded_at := now\<rparr>)))"

definition bearer_value :: "string option \<Rightarrow> string option" where
  "bearer_value authorization =
     (case authorization of
        None \<Rightarrow> None
      | Some a \<Rightarrow> if a = [] \<or> to_lower (take 7 a) \<noteq> ''bearer '' then None else Some (js_trim (drop 7 a)))"

record credential_world =
  cw_directory :: directory
  cw_files :: file_system
  cw_date_parse :: "json \<Rightarrow> int option"

definition resolve_token ::
  "credential_world \<Rightarrow> horizon_config \<Rightarrow> nat \<Rightarrow> string option \<Rightarrow> token_state \<Rightarrow> role_state \<Rightarrow>
   token_identity option \<times> token_state \<times> role_state" where
  "resolve_token w cfg now authorization st rl =
     (let path = tokens_file (cfg_auth cfg) in
      if path = [] then (None, st, rl)
      else (case (case bearer_value authorization of Some v \<Rightarrow> parse_token v | None \<Rightarrow> None) of
        None \<Rightarrow> (None, st, rl)
      | Some (tid, secret) \<Rightarrow>
          (let st1 = load_tokens (cw_files w) now path st in
           case map_of (tk_entries st1) tid of
             None \<Rightarrow> (None, st1, rl)
           | Some e \<Rightarrow>
               if is_expired (cw_date_parse w) e now then (None, st1, rl)
               else if \<not> secret_matches (te_hash e) (hash_token_secret secret) then (None, st1, rl)
               else (case knows_user (cw_directory w) cfg now (te_username e) rl of
                  (known, rl1) \<Rightarrow>
                    if \<not> known then (None, st1, rl1)
                    else (case roles_for (cw_directory w) cfg now (te_username e) rl1 of
                       (live, rl2) \<Rightarrow>
                         (let roles = (case te_roles e of Some cap \<Rightarrow> filter (\<lambda>r. r \<in> set cap) live | None \<Rightarrow> live) in
                          if length roles = 0 \<and> rbac_enabled (cfg_rbac cfg) then (None, st1, rl2)
                          else (Some \<lparr>ti_username = te_username e, ti_roles = roles, ti_token_id = te_id e,
                                      ti_label = te_label e\<rparr>, st1, rl2)))))))"

subsection \<open>Lemmas\<close>

lemma secret_matches_iff: "secret_matches a b \<longleftrightarrow> utf8_encode a = utf8_encode b"
  by (auto simp: secret_matches_def Let_def)

definition ids_right :: "(string, token_entry) jsmap \<Rightarrow> bool" where
  "ids_right m \<longleftrightarrow> (\<forall>i e. map_of m i = Some e \<longrightarrow> te_id e = i)"

lemma ids_right_put: "ids_right m \<Longrightarrow> ids_right (map_put (te_id e) e m)"
  by (simp add: ids_right_def)

lemma ids_right_fold:
  "ids_right m \<Longrightarrow>
   ids_right (fold (\<lambda>v m. case entry_of_json v of Some e \<Rightarrow> map_put (te_id e) e m | None \<Rightarrow> m) vs m)"
proof (induction vs arbitrary: m)
  case (Cons v vs)
  then show ?case by (cases "entry_of_json v") (simp_all add: ids_right_put)
qed simp

lemma read_entries_ids: "map_of (read_entries vs) i = Some e \<Longrightarrow> te_id e = i"
  using ids_right_fold [of "[]" vs] by (simp add: read_entries_def ids_right_def)

lemma tokens_at_read: "tokens_at files t path = Some m \<Longrightarrow> \<exists>vs. m = read_entries vs"
proof -
  assume a: "tokens_at files t path = Some m"
  then obtain s where "files t path = FileText s" "parse_tokens s = Some m"
    by (cases "files t path") (auto simp: tokens_at_def)
  then show ?thesis
    by (cases "json_parse s") (auto simp: parse_tokens_def split: json.splits)
qed

lemma tokens_at_ids: "tokens_at files t path = Some m \<Longrightarrow> map_of m i = Some e \<Longrightarrow> te_id e = i"
  using tokens_at_read read_entries_ids by metis

text \<open>The store's contract with its file: what is held was read at the last good reading, and the last
  attempt came at most the grace window after that.\<close>

definition token_state_ok :: "file_system \<Rightarrow> string \<Rightarrow> token_state \<Rightarrow> bool" where
  "token_state_ok files path st \<longleftrightarrow>
     tk_entries st = [] \<or>
     tk_loaded_path st = path \<and> tokens_at files (tk_good_at st) path = Some (tk_entries st) \<and>
     tk_good_at st \<le> tk_loaded_at st \<and> tk_loaded_at st \<le> tk_good_at st + stale_grace_ms \<and>
     files (tk_loaded_at st) path \<noteq> FileMissing"

lemma load_keeps_ok:
  assumes "token_state_ok files path st" and "path \<noteq> []" and "tk_loaded_at st \<le> now"
  shows "token_state_ok files path (load_tokens files now path st)"
proof (cases "tokens_at files now path")
  case (Some m)
  then show ?thesis using assms
    by (auto simp: load_tokens_def token_state_ok_def stale_grace_ms_def tokens_at_def)
next
  case None
  then show ?thesis using assms
    by (auto simp: load_tokens_def token_state_ok_def stale_grace_ms_def Let_def)
qed

lemma load_fresh:
  assumes "tk_loaded_at st \<le> now"
  shows "tk_loaded_at (load_tokens files now path st) \<le> now \<and> now < tk_loaded_at (load_tokens files now path st) + reload_ms"
  using assms by (auto simp: load_tokens_def reload_ms_def Let_def split: option.split)

primrec token_run :: "file_system \<Rightarrow> string \<Rightarrow> nat list \<Rightarrow> token_state" where
  "token_run files path [] = new_token_state"
| "token_run files path (t # ts) = load_tokens files t path (token_run files path ts)"

lemma token_run_ok:
  "path \<noteq> [] \<Longrightarrow> sorted_wrt (\<ge>) ts \<Longrightarrow> \<forall>t \<in> set ts. t \<le> now \<Longrightarrow>
   token_state_ok files path (token_run files path ts) \<and> tk_loaded_at (token_run files path ts) \<le> now"
proof (induction ts arbitrary: now)
  case (Cons t ts)
  then have IH: "token_state_ok files path (token_run files path ts)" "tk_loaded_at (token_run files path ts) \<le> t" by auto
  then show ?case using Cons.prems load_keeps_ok [OF IH(1) Cons.prems(1) IH(2)] load_fresh [OF IH(2), of files path]
    by auto
qed (simp add: new_token_state_def token_state_ok_def)

subsection \<open>Properties\<close>

text \<open>C33: a revoked token stops working.  However the file is read over time, every entry the store
  answers with was in the file at some reading less than thirty seconds and the grace window ago, and a
  file found missing at the last attempt leaves no entry at all.\<close>

theorem tokens_are_recent:
  assumes "path \<noteq> []" and "sorted_wrt (\<ge>) ts" and "\<forall>t \<in> set ts. t \<le> now"
    and "map_of (tk_entries (load_tokens files now path (token_run files path ts))) i = Some e"
  shows "\<exists>t m. t \<le> now \<and> now < t + 330000 \<and> tokens_at files t path = Some m \<and> map_of m i = Some e \<and>
    files (tk_loaded_at (load_tokens files now path (token_run files path ts))) path \<noteq> FileMissing"
proof -
  let ?st = "load_tokens files now path (token_run files path ts)"
  have ok: "token_state_ok files path ?st" and fresh: "tk_loaded_at ?st \<le> now" "now < tk_loaded_at ?st + reload_ms"
    using token_run_ok [OF assms(1-3)] load_keeps_ok [OF _ assms(1)] load_fresh by blast+
  have "tk_entries ?st \<noteq> []" using assms(4) by auto
  then have "tokens_at files (tk_good_at ?st) path = Some (tk_entries ?st)" "tk_good_at ?st \<le> tk_loaded_at ?st"
    "tk_loaded_at ?st \<le> tk_good_at ?st + stale_grace_ms" "files (tk_loaded_at ?st) path \<noteq> FileMissing"
    using ok by (auto simp: token_state_ok_def)
  then show ?thesis using fresh assms(4)
    by (intro exI [of _ "tk_good_at ?st"] exI [of _ "tk_entries ?st"]) (simp add: reload_ms_def stale_grace_ms_def)
qed

text \<open>C10: a token carries no more than its owner.  What a token resolves to is the user its entry names,
  with an entry in the file that is not expired and whose hash is that of the presented secret; the user
  exists, and the token's roles are among the roles the user has now and, where the entry has a cap,
  within the cap.\<close>

theorem token_narrows:
  assumes "resolve_token w cfg now authorization st rl = (Some who, st', rl')" and "resolver_ok rl"
  shows "\<exists>raw tid secret e live.
    bearer_value authorization = Some raw \<and> parse_token raw = Some (tid, secret) \<and>
    st' = load_tokens (cw_files w) now (tokens_file (cfg_auth cfg)) st \<and> map_of (tk_entries st') tid = Some e \<and>
    \<not> is_expired (cw_date_parse w) e now \<and> utf8_encode (te_hash e) = utf8_encode (hash_token_secret secret) \<and>
    ti_username who = te_username e \<and>
    fst (resolve_role (cw_directory w) cfg now (te_username e) rl) = \<lparr>rs_roles = live, rs_known = True\<rparr> \<and>
    ti_roles who = (case te_roles e of Some cap \<Rightarrow> filter (\<lambda>r. r \<in> set cap) live | None \<Rightarrow> live) \<and>
    set (ti_roles who) \<subseteq> set live \<and> (rbac_enabled (cfg_rbac cfg) \<longrightarrow> ti_roles who \<noteq> [])"
proof -
  have path: "tokens_file (cfg_auth cfg) \<noteq> []" using assms(1) by (auto simp: resolve_token_def)
  obtain raw tid secret where raw: "bearer_value authorization = Some raw" "parse_token raw = Some (tid, secret)"
    using assms(1) path by (auto simp: resolve_token_def Let_def split: option.splits)
  let ?st = "load_tokens (cw_files w) now (tokens_file (cfg_auth cfg)) st"
  obtain e where e: "map_of (tk_entries ?st) tid = Some e"
    using assms(1) path raw by (auto simp: resolve_token_def Let_def split: option.splits)
  have check: "\<not> is_expired (cw_date_parse w) e now" "secret_matches (te_hash e) (hash_token_secret secret)"
    using assms(1) path raw e by (auto simp: resolve_token_def Let_def split: if_splits)
  obtain k rl1 where k: "knows_user (cw_directory w) cfg now (te_username e) rl = (k, rl1)"
    by (cases "knows_user (cw_directory w) cfg now (te_username e) rl")
  obtain live rl2 where live: "roles_for (cw_directory w) cfg now (te_username e) rl1 = (live, rl2)"
    by (cases "roles_for (cw_directory w) cfg now (te_username e) rl1")
  have known: "k" using assms(1) path raw e check k by (auto simp: resolve_token_def Let_def split: if_splits)
  have "fst (resolve_role (cw_directory w) cfg now (te_username e) rl) = \<lparr>rs_roles = live, rs_known = True\<rparr>"
    using knows_then_roles [OF assms(2) k] known live k
    by (auto simp: knows_user_def split: prod.splits)
  moreover have "st' = ?st" "ti_username who = te_username e"
    "ti_roles who = (case te_roles e of Some cap \<Rightarrow> filter (\<lambda>r. r \<in> set cap) live | None \<Rightarrow> live)"
    "rbac_enabled (cfg_rbac cfg) \<longrightarrow> ti_roles who \<noteq> []"
    using assms(1) path raw e check k live known
    by (auto simp: resolve_token_def Let_def split: if_splits)
  moreover have "set (case te_roles e of Some cap \<Rightarrow> filter (\<lambda>r. r \<in> set cap) live | None \<Rightarrow> live) \<subseteq> set live"
    by (auto split: option.split)
  ultimately show ?thesis using raw e check by (auto simp: secret_matches_iff)
qed

text \<open>A world whose token file always holds one entry, and a configuration with that file and one user.\<close>

definition sample_entry :: token_entry where
  "sample_entry =
     \<lparr>te_id = ''ci'', te_username = ''ann'', te_hash = hash_token_secret ''pw'', te_label = None,
      te_roles = Some [''viewer''], te_expires = None\<rparr>"

definition sample_files :: file_system where
  "sample_files =
     (\<lambda>t path. FileText (json_stringify (JArr
        [JObj [(''id'', JStr ''ci''), (''username'', JStr ''ann''), (''hash'', JStr ''sha256:00'')]])))"

definition token_config :: horizon_config where
  "token_config =
     (let cfg = sample_config (sample_rbac []) no_sso in
      cfg\<lparr>cfg_auth := (cfg_auth cfg)\<lparr>tokens_file := ''t'',
        local_users := [\<lparr>lu_username = ''ann'', lu_password_hash = [], lu_roles = [''viewer'', ''admin'']\<rparr>]\<rparr>\<rparr>)"

definition sample_world :: credential_world where
  "sample_world = \<lparr>cw_directory = sample_directory, cw_files = sample_files, cw_date_parse = (\<lambda>_. None)\<rparr>"

lemma sample_tokens:
  "tokens_at sample_files t path =
     Some [(''ci'', \<lparr>te_id = ''ci'', te_username = ''ann'', te_hash = ''sha256:00'', te_label = None, te_roles = None,
                    te_expires = None\<rparr>)]"
proof -
  let ?v = "JArr [JObj [(''id'', JStr ''ci''), (''username'', JStr ''ann''), (''hash'', JStr ''sha256:00'')]]"
  have "wf_json ?v" by code_simp
  then have "json_parse (json_stringify ?v) = Some ?v" by (rule json_roundtrip)
  then show ?thesis
    by (simp only: tokens_at_def sample_files_def file_reply.case parse_tokens_def option.case json.case)
      (simp add: read_entries_def entry_of_json_def roles_cap_def)
qed

theorem tokens_are_recent_witness:
  "\<exists>t m. t \<le> 20000 \<and> 20000 < t + 330000 \<and> tokens_at sample_files t ''t'' = Some m \<and> map_of m ''ci'' \<noteq> None"
proof -
  have "map_of (tk_entries (load_tokens sample_files 20000 ''t'' (token_run sample_files ''t'' [1000]))) ''ci'' \<noteq> None"
    by (simp add: load_tokens_def new_token_state_def reload_ms_def sample_tokens)
  then obtain e where e: "map_of (tk_entries (load_tokens sample_files 20000 ''t'' (token_run sample_files ''t'' [1000]))) ''ci'' = Some e"
    by blast
  obtain t m where "t \<le> 20000" "20000 < t + 330000" "tokens_at sample_files t ''t'' = Some m" "map_of m ''ci'' = Some e"
    using tokens_are_recent [OF _ _ _ e] by auto
  then show ?thesis by (metis option.distinct(1))
qed

lemma sample_token_resolves:
  "fst (resolve_token sample_world token_config 5 (Some ''Bearer hzn_ci_pw'')
     \<lparr>tk_entries = [(''ci'', sample_entry)], tk_loaded_at = 1, tk_good_at = 1, tk_loaded_path = ''t''\<rparr> new_role_state) =
   Some \<lparr>ti_username = ''ann'', ti_roles = [''viewer''], ti_token_id = ''ci'', ti_label = None\<rparr>"
proof -
  have "bearer_value (Some ''Bearer hzn_ci_pw'') = Some ''hzn_ci_pw''" by code_simp
  moreover have "parse_token ''hzn_ci_pw'' = Some (''ci'', ''pw'')" by code_simp
  ultimately show ?thesis
    by (simp add: resolve_token_def token_config_def sample_config_def Let_def load_tokens_def reload_ms_def
        sample_entry_def is_expired_def js_truthy_def secret_matches_iff knows_user_def roles_for_def resolve_role_def
        sample_rbac_def)
qed

theorem token_narrows_witness:
  "\<exists>live. fst (resolve_role sample_directory token_config 5 ''ann'' new_role_state) = \<lparr>rs_roles = live, rs_known = True\<rparr> \<and>
     set [''viewer''] \<subseteq> set live"
proof -
  obtain st' rl' where "resolve_token sample_world token_config 5 (Some ''Bearer hzn_ci_pw'')
     \<lparr>tk_entries = [(''ci'', sample_entry)], tk_loaded_at = 1, tk_good_at = 1, tk_loaded_path = ''t''\<rparr> new_role_state =
     (Some \<lparr>ti_username = ''ann'', ti_roles = [''viewer''], ti_token_id = ''ci'', ti_label = None\<rparr>, st', rl')"
    using sample_token_resolves by (metis prod.collapse)
  from token_narrows [OF this]
  have "\<exists>(e :: token_entry) live. ''ann'' = te_username e \<and> ''viewer'' \<in> set live \<and>
      fst (resolve_role (cw_directory sample_world) token_config 5 (te_username e) new_role_state) = \<lparr>rs_roles = live, rs_known = True\<rparr>"
    by (simp add: resolver_ok_def new_role_state_def) blast
  then show ?thesis by (auto simp: sample_world_def)
qed

end
