(* ===== verification/Sessions.thy ===== *)
theory Sessions
  imports Base64 Config
begin

text \<open>
  The browser sessions: \<open>apps/bff/src/user/sessions.ts\<close>, and the record of who has signed in:
  \<open>apps/bff/src/user/seen-cache.ts\<close>.  The clock is an argument in milliseconds, one reading per
  operation; the random bytes of a session id are an argument too.  The time-to-live is read from the
  configuration at each operation, as the getter the code passes does.
\<close>

subsection \<open>The store\<close>

datatype auth_source = FromLocal | FromLdap | FromBreakGlass | FromSso | FromApiToken | FromOauthToken

record session =
  ss_auth_source :: "auth_source option"
  ss_provider :: "string option"
  ss_display_name :: "string option"
  ss_sid :: string
  ss_username :: string
  ss_roles :: "string list"
  ss_verb_cap :: "verb list option"
  ss_created_at :: nat
  ss_last_seen :: nat

type_synonym session_store = "(string, session) jsmap"

record sign_in =
  sg_username :: string
  sg_roles :: "string list"
  sg_display_name :: "string option"
  sg_source :: auth_source
  sg_provider :: "string option"

definition ttl_ms :: "nat \<Rightarrow> nat" where
  "ttl_ms ttl_minutes = ttl_minutes * 60000"

definition new_session :: "string \<Rightarrow> nat \<Rightarrow> sign_in \<Rightarrow> session" where
  "new_session sid now who =
     \<lparr>ss_auth_source = Some (sg_source who), ss_provider = sg_provider who, ss_display_name = sg_display_name who,
      ss_sid = sid, ss_username = sg_username who, ss_roles = sg_roles who, ss_verb_cap = None,
      ss_created_at = now, ss_last_seen = now\<rparr>"

definition create_session :: "string \<Rightarrow> nat \<Rightarrow> sign_in \<Rightarrow> session_store \<Rightarrow> session \<times> session_store" where
  "create_session entropy now who st =
     (let sid = b64url_encode entropy; s = new_session sid now who in (s, map_put sid s st))"

definition expired :: "nat \<Rightarrow> nat \<Rightarrow> session \<Rightarrow> bool" where
  "expired ttl now s \<longleftrightarrow> int now - int (ss_last_seen s) > int (ttl_ms ttl)"

definition touch_session :: "nat \<Rightarrow> nat \<Rightarrow> string \<Rightarrow> session_store \<Rightarrow> session option \<times> session_store" where
  "touch_session ttl now sid st =
     (case map_of st sid of
        None \<Rightarrow> (None, st)
      | Some s \<Rightarrow>
          if expired ttl now s then (None, map_del sid st)
          else (let s' = s\<lparr>ss_last_seen := now\<rparr> in (Some s', map_put sid s' st)))"

definition get_session :: "nat \<Rightarrow> nat \<Rightarrow> string \<Rightarrow> session_store \<Rightarrow> session option \<times> session_store" where
  "get_session ttl now sid st =
     (case map_of st sid of
        None \<Rightarrow> (None, st)
      | Some s \<Rightarrow> if expired ttl now s then (None, map_del sid st) else (Some s, st))"

definition destroy_session :: "string \<Rightarrow> session_store \<Rightarrow> session_store" where
  "destroy_session sid st = map_del sid st"

definition session_count :: "session_store \<Rightarrow> nat" where
  "session_count st = length st"

definition reap_sessions :: "nat \<Rightarrow> nat \<Rightarrow> session_store \<Rightarrow> session_store" where
  "reap_sessions ttl now st = filter (\<lambda>e. \<not> expired ttl now (snd e)) st"

definition close_sessions :: "session_store \<Rightarrow> session_store" where
  "close_sessions st = []"

subsection \<open>Who has signed in\<close>

record seen_user =
  sn_username :: string
  sn_source :: auth_source
  sn_roles :: "string list"
  sn_last_seen :: nat
  sn_last_ip :: "string option"

type_synonym seen_cache = "(string, seen_user) jsmap"

definition record_seen ::
  "nat \<Rightarrow> string \<Rightarrow> auth_source \<Rightarrow> string list \<Rightarrow> string option \<Rightarrow> seen_cache \<Rightarrow> seen_cache" where
  "record_seen now username source roles ip c =
     map_put username
       \<lparr>sn_username = username, sn_source = source, sn_roles = roles, sn_last_seen = now, sn_last_ip = ip\<rparr> c"

definition list_seen :: "seen_cache \<Rightarrow> seen_user list" where
  "list_seen c = sort_key (\<lambda>u. - int (sn_last_seen u)) (map snd c)"

definition get_seen :: "string \<Rightarrow> seen_cache \<Rightarrow> seen_user option" where
  "get_seen username c = map_of c username"

subsection \<open>A store run through a sequence of calls\<close>

datatype session_call =
    CreateCall string sign_in nat
  | TouchCall string nat
  | GetCall string nat
  | DestroyCall string nat
  | ReapCall nat
  | CloseCall nat

fun call_time :: "session_call \<Rightarrow> nat" where
  "call_time (CreateCall e who t) = t"
| "call_time (TouchCall sid t) = t"
| "call_time (GetCall sid t) = t"
| "call_time (DestroyCall sid t) = t"
| "call_time (ReapCall t) = t"
| "call_time (CloseCall t) = t"

fun session_step :: "nat \<Rightarrow> session_call \<Rightarrow> session_store \<Rightarrow> session_store" where
  "session_step ttl (CreateCall e who t) st = snd (create_session e t who st)"
| "session_step ttl (TouchCall sid t) st = snd (touch_session ttl t sid st)"
| "session_step ttl (GetCall sid t) st = snd (get_session ttl t sid st)"
| "session_step ttl (DestroyCall sid t) st = destroy_session sid st"
| "session_step ttl (ReapCall t) st = reap_sessions ttl t st"
| "session_step ttl (CloseCall t) st = close_sessions st"

text \<open>The calls so far, the latest first.\<close>

primrec session_run :: "nat \<Rightarrow> session_call list \<Rightarrow> session_store" where
  "session_run ttl [] = []"
| "session_run ttl (c # cs) = session_step ttl c (session_run ttl cs)"

text \<open>The contract: a session is what its sign-in made it, its last activity the last touch that came in
  time, and it ends at a logout or at the first touch that came too late.  Reading and reaping do not
  appear in it.\<close>

primrec session_view :: "nat \<Rightarrow> session_call list \<Rightarrow> string \<Rightarrow> session option" where
  "session_view ttl [] sid = None"
| "session_view ttl (c # cs) sid =
     (case c of
        CreateCall e who t \<Rightarrow> if b64url_encode e = sid then Some (new_session sid t who) else session_view ttl cs sid
      | TouchCall k t \<Rightarrow>
          if k = sid then
            (case session_view ttl cs sid of
               Some s \<Rightarrow> if expired ttl t s then None else Some (s\<lparr>ss_last_seen := t\<rparr>)
             | None \<Rightarrow> None)
          else session_view ttl cs sid
      | DestroyCall k t \<Rightarrow> if k = sid then None else session_view ttl cs sid
      | CloseCall t \<Rightarrow> None
      | _ \<Rightarrow> session_view ttl cs sid)"

definition alive :: "nat \<Rightarrow> nat \<Rightarrow> session option \<Rightarrow> session option" where
  "alive ttl now s = (case s of Some x \<Rightarrow> if expired ttl now x then None else Some x | None \<Rightarrow> None)"

subsection \<open>Lemmas\<close>

lemma expired_mono: "expired ttl t s \<Longrightarrow> t \<le> t' \<Longrightarrow> expired ttl t' s"
  by (simp add: expired_def)

lemma not_expired_now: "ss_last_seen s = t \<Longrightarrow> \<not> expired ttl t s"
  by (simp add: expired_def)

lemma alive_mono: "alive ttl t x = alive ttl t y \<Longrightarrow> t \<le> t' \<Longrightarrow> alive ttl t' x = alive ttl t' y"
  by (auto simp: alive_def dest: expired_mono split: option.splits if_splits)

lemma distinct_filter_keys: "distinct (map fst m) \<Longrightarrow> distinct (map fst (filter P m))"
  by (simp add: distinct_map_filter)

lemma session_run_distinct: "distinct (map fst (session_run ttl cs))"
proof (induction cs)
  case (Cons c cs)
  then show ?case
    by (cases c) (auto simp: create_session_def touch_session_def get_session_def destroy_session_def
        reap_sessions_def close_sessions_def Let_def distinct_map_put distinct_map_del distinct_filter_keys
        simp del: map_map split: option.split)
qed simp

lemma lookup_reap:
  "distinct (map fst st) \<Longrightarrow> map_of (reap_sessions ttl now st) sid = alive ttl now (map_of st sid)"
  using map_of_filter_distinct [of st "\<lambda>s. \<not> expired ttl now s" sid]
  by (auto simp: reap_sessions_def alive_def split: option.split)

lemma lookup_touch:
  "map_of (snd (touch_session ttl now k st)) sid =
     (if k = sid then map_option (\<lambda>s. s\<lparr>ss_last_seen := now\<rparr>) (alive ttl now (map_of st sid)) else map_of st sid)"
  by (auto simp: touch_session_def alive_def Let_def split: option.split)

lemma lookup_get:
  "map_of (snd (get_session ttl now k st)) sid =
     (if k = sid then alive ttl now (map_of st sid) else map_of st sid)"
  by (auto simp: get_session_def alive_def split: option.split)

lemma lookup_create:
  "map_of (snd (create_session e now who st)) sid =
     (if b64url_encode e = sid then Some (new_session sid now who) else map_of st sid)"
  by (auto simp: create_session_def Let_def)

lemma touch_result:
  "fst (touch_session ttl now sid st) = map_option (\<lambda>s. s\<lparr>ss_last_seen := now\<rparr>) (alive ttl now (map_of st sid))"
  by (auto simp: touch_session_def alive_def Let_def split: option.split)

lemma get_result: "fst (get_session ttl now sid st) = alive ttl now (map_of st sid)"
  by (auto simp: get_session_def alive_def split: option.split)

lemma alive_alive: "t \<le> t' \<Longrightarrow> alive ttl t' (alive ttl t x) = alive ttl t' x"
  by (auto simp: alive_def dest: expired_mono split: option.splits)

lemmas session_lookups = lookup_reap lookup_touch lookup_get lookup_create

text \<open>The calls happen in the order of their clock readings.\<close>

definition in_order :: "session_call list \<Rightarrow> bool" where
  "in_order cs = sorted_wrt (\<ge>) (map call_time cs)"

lemma run_refines_view:
  "in_order cs \<Longrightarrow> \<forall>c \<in> set cs. call_time c \<le> now \<Longrightarrow>
   alive ttl now (map_of (session_run ttl cs) sid) = alive ttl now (session_view ttl cs sid)"
proof (induction cs arbitrary: now)
  case (Cons c cs)
  have order: "in_order cs" and le: "call_time c \<le> now" and before: "\<forall>x \<in> set cs. call_time x \<le> call_time c"
    using Cons.prems by (auto simp: in_order_def)
  note IH = Cons.IH [OF order before]
  have IHnow: "alive ttl now (map_of (session_run ttl cs) sid) = alive ttl now (session_view ttl cs sid)"
    using alive_mono [OF IH le] .
  show ?case
  proof (cases c)
    case (TouchCall k t)
    have "session_view ttl (c # cs) sid =
        (if k = sid then map_option (\<lambda>s. s\<lparr>ss_last_seen := t\<rparr>) (alive ttl t (session_view ttl cs sid))
         else session_view ttl cs sid)"
      by (auto simp: TouchCall alive_def split: option.split)
    then show ?thesis using TouchCall IH IHnow by (simp add: lookup_touch)
  next
    case (ReapCall t)
    then show ?thesis using IHnow le alive_alive [of t now] session_run_distinct [of ttl cs]
      by (simp add: lookup_reap)
  next
    case (GetCall k t)
    then show ?thesis using IHnow le alive_alive [of t now] by (simp add: lookup_get)
  qed (use IHnow in \<open>simp_all add: lookup_create destroy_session_def close_sessions_def\<close>)
qed simp

lemma view_origin:
  "session_view ttl cs sid = Some s \<Longrightarrow>
   \<exists>pre e who t post. cs = pre @ CreateCall e who t # post \<and> b64url_encode e = sid \<and>
     s = (new_session sid t who)\<lparr>ss_last_seen := ss_last_seen s\<rparr> \<and>
     (\<forall>u. DestroyCall sid u \<notin> set pre \<and> CloseCall u \<notin> set pre)"
proof (induction cs arbitrary: s)
  case (Cons c cs)
  show ?case
  proof (cases "\<exists>e who t. c = CreateCall e who t \<and> b64url_encode e = sid")
    case True
    then obtain e who t where c: "c = CreateCall e who t" "b64url_encode e = sid" by blast
    then have "s = (new_session sid t who)\<lparr>ss_last_seen := ss_last_seen s\<rparr>"
      using Cons.prems by (auto simp: new_session_def)
    then show ?thesis using c
      by (intro exI [of _ "[]"] exI [of _ e] exI [of _ who] exI [of _ t] exI [of _ cs]) simp
  next
    case False
    have "\<exists>s'. session_view ttl cs sid = Some s' \<and> s = s'\<lparr>ss_last_seen := ss_last_seen s\<rparr>"
      and no: "\<forall>u. c \<noteq> DestroyCall sid u \<and> c \<noteq> CloseCall u"
      using Cons.prems False by (auto split: session_call.splits option.splits if_splits)
    then obtain s' where s': "session_view ttl cs sid = Some s'" "s = s'\<lparr>ss_last_seen := ss_last_seen s\<rparr>" by blast
    obtain pre e who t post where IH: "cs = pre @ CreateCall e who t # post" "b64url_encode e = sid"
        "s' = (new_session sid t who)\<lparr>ss_last_seen := ss_last_seen s'\<rparr>"
        "\<forall>u. DestroyCall sid u \<notin> set pre \<and> CloseCall u \<notin> set pre"
      using Cons.IH [OF s'(1)] by blast
    have "s = (new_session sid t who)\<lparr>ss_last_seen := ss_last_seen s\<rparr>"
      using trans [OF s'(2) arg_cong [OF IH(3), of "\<lambda>x. x\<lparr>ss_last_seen := ss_last_seen s\<rparr>"]] by simp
    then show ?thesis using IH no by (intro exI [of _ "c # pre"]) auto
  qed
qed simp

subsection \<open>The store as the request handling uses it\<close>

text \<open>What the authentication of a request relies on: a touch answers with a live session and moves its
  last activity, a session that was destroyed is gone, and no call on one id reaches another.\<close>

locale session_registry =
  fixes lookup :: "nat \<Rightarrow> 'st \<Rightarrow> string \<Rightarrow> session option"
    and touch :: "nat \<Rightarrow> string \<Rightarrow> 'st \<Rightarrow> session option \<times> 'st"
    and create :: "string \<Rightarrow> nat \<Rightarrow> sign_in \<Rightarrow> 'st \<Rightarrow> session \<times> 'st"
    and destroy :: "string \<Rightarrow> 'st \<Rightarrow> 'st"
  assumes touch_answer: "fst (touch now sid st) = map_option (\<lambda>s. s\<lparr>ss_last_seen := now\<rparr>) (lookup now st sid)"
    and touch_lookup: "lookup now (snd (touch now sid st)) k =
      (if k = sid then map_option (\<lambda>s. s\<lparr>ss_last_seen := now\<rparr>) (lookup now st k) else lookup now st k)"
    and create_lookup: "lookup now (snd (create entropy now who st)) k =
      (if k = ss_sid (fst (create entropy now who st)) then Some (fst (create entropy now who st)) else lookup now st k)"
    and create_session: "fst (create entropy now who st) = new_session (b64url_encode entropy) now who"
    and destroy_lookup: "lookup now (destroy sid st) k = (if k = sid then None else lookup now st k)"
begin

lemma create_then_touch:
  "fst (touch now (b64url_encode entropy) (snd (create entropy now who st))) = Some (new_session (b64url_encode entropy) now who)"
  by (simp add: touch_answer create_lookup create_session) (simp add: new_session_def)

lemma destroy_then_touch: "fst (touch now sid (destroy sid st)) = None"
  by (simp add: touch_answer destroy_lookup)

lemma touch_idem: "fst (touch now sid (snd (touch now sid st))) = fst (touch now sid st)"
  by (simp add: touch_answer touch_lookup option.map_comp comp_def)

lemma touch_frame: "k \<noteq> sid \<Longrightarrow> fst (touch now k (snd (touch now sid st))) = fst (touch now k st)"
  by (simp add: touch_answer touch_lookup)

end

interpretation browser_sessions: session_registry
  "\<lambda>now st sid. alive ttl now (map_of st sid)" "touch_session ttl" create_session destroy_session for ttl
  by unfold_locales
    (auto simp: touch_result lookup_touch lookup_create create_session_def destroy_session_def Let_def alive_def
      not_expired_now new_session_def expired_def split: option.splits if_splits)

subsection \<open>Properties\<close>

text \<open>C9: the store keeps its contract however reads and reaping fall.  After any sequence of calls in
  clock order, touching an id and reading it answer as the contract does, so an entry the reaper or an
  earlier read removed is one that would have been refused, and one that lingers is refused too.\<close>

theorem session_store_refines:
  assumes "in_order cs" and "\<forall>c \<in> set cs. call_time c \<le> now"
  shows "fst (touch_session ttl now sid (session_run ttl cs)) =
      map_option (\<lambda>s. s\<lparr>ss_last_seen := now\<rparr>) (alive ttl now (session_view ttl cs sid)) \<and>
    fst (get_session ttl now sid (session_run ttl cs)) = alive ttl now (session_view ttl cs sid)"
  by (simp add: touch_result get_result run_refines_view [OF assms])

definition sample_sign_in :: sign_in where
  "sample_sign_in =
     \<lparr>sg_username = ''ann'', sg_roles = [''viewer''], sg_display_name = None, sg_source = FromLocal, sg_provider = None\<rparr>"

theorem session_store_refines_witness:
  "fst (touch_session 1 70000 (b64url_encode ''abc'')
     (session_run 1 [TouchCall (b64url_encode ''abc'') 30000, CreateCall ''abc'' sample_sign_in 0])) \<noteq> None"
  using session_store_refines
    [of "[TouchCall (b64url_encode ''abc'') 30000, CreateCall ''abc'' sample_sign_in 0]" 70000 1 "b64url_encode ''abc''"]
  by (simp add: in_order_def alive_def expired_def new_session_def ttl_ms_def)

lemma traced_session:
  assumes "in_order cs" and "\<forall>c \<in> set cs. call_time c \<le> now"
    and "fst (touch_session ttl now sid (session_run ttl cs)) = Some s"
  shows "\<exists>pre e who t post. cs = pre @ CreateCall e who t # post \<and> b64url_encode e = sid \<and>
      s = (new_session sid t who)\<lparr>ss_last_seen := now\<rparr> \<and>
      (\<forall>u. DestroyCall sid u \<notin> set pre \<and> CloseCall u \<notin> set pre) \<and>
      now - ss_last_seen (the (session_view ttl cs sid)) \<le> ttl_ms ttl"
proof -
  obtain v where v: "session_view ttl cs sid = Some v" "\<not> expired ttl now v" "s = v\<lparr>ss_last_seen := now\<rparr>"
    using assms(3) touch_result [of ttl now sid] run_refines_view [OF assms(1, 2), of ttl sid]
    by (auto simp: alive_def split: option.splits if_splits)
  obtain pre e who t post where o: "cs = pre @ CreateCall e who t # post" "b64url_encode e = sid"
      "v = (new_session sid t who)\<lparr>ss_last_seen := ss_last_seen v\<rparr>"
      "\<forall>u. DestroyCall sid u \<notin> set pre \<and> CloseCall u \<notin> set pre"
    using view_origin [OF v(1)] by blast
  have "s = (new_session sid t who)\<lparr>ss_last_seen := now\<rparr>"
    using trans [OF v(3) arg_cong [OF o(3), of "\<lambda>x. x\<lparr>ss_last_seen := now\<rparr>"]] by simp
  moreover have "now - ss_last_seen v \<le> ttl_ms ttl" using v(2) by (simp add: expired_def)
  ultimately show ?thesis using o(1, 2, 4) v(1) by (simp, blast)
qed

text \<open>A session the store hands out is someone's sign-in.  It carries the username, roles and source
  of a sign-in that drew its id, nothing since has logged that id out or closed the store, and its last
  activity was no longer ago than the time-to-live.\<close>

theorem session_origin:
  assumes "in_order cs" and "\<forall>c \<in> set cs. call_time c \<le> now"
    and "fst (touch_session ttl now sid (session_run ttl cs)) = Some s"
  shows "\<exists>pre e who t post. cs = pre @ CreateCall e who t # post \<and> b64url_encode e = sid \<and>
      s = (new_session sid t who)\<lparr>ss_last_seen := now\<rparr> \<and>
      (\<forall>u. DestroyCall sid u \<notin> set pre \<and> CloseCall u \<notin> set pre) \<and>
      now - ss_last_seen (the (session_view ttl cs sid)) \<le> ttl_ms ttl"
  by (rule traced_session [OF assms])

theorem session_origin_witness:
  "\<exists>pre e who t post. [TouchCall (b64url_encode ''abc'') 30000, CreateCall ''abc'' sample_sign_in 0] =
     pre @ CreateCall e who t # post \<and> b64url_encode e = b64url_encode ''abc''"
proof -
  let ?cs = "[TouchCall (b64url_encode ''abc'') 30000, CreateCall ''abc'' sample_sign_in 0]"
  have o: "in_order ?cs" "\<forall>c \<in> set ?cs. call_time c \<le> 70000" by (simp_all add: in_order_def)
  have "fst (touch_session 1 70000 (b64url_encode ''abc'') (session_run 1 ?cs)) \<noteq> None"
    by (simp add: touch_result lookup_touch lookup_create alive_def expired_def new_session_def ttl_ms_def)
  then obtain s where "fst (touch_session 1 70000 (b64url_encode ''abc'') (session_run 1 ?cs)) = Some s" by blast
  from session_origin [OF o this] show ?thesis by blast
qed

end
