(* ===== verification/Authenticate.thy ===== *)
theory Authenticate
  imports Tokens Signing Sessions
begin

text \<open>
  Who a request comes from: the pre-handler of \<open>apps/bff/src/user/middleware.ts\<close> and the resolver of
  the access tokens this server issued, the other half of \<open>apps/bff/src/oauth/tokens.ts\<close>.  Both resolvers
  are wired, as \<open>apps/bff/src/server.ts\<close> wires them; the counted uses of API tokens are a list.
\<close>

subsection \<open>Access tokens\<close>

record oauth_identity =
  oi_username :: string
  oi_roles :: "string list"
  oi_verb_cap :: "verb list option"
  oi_scope :: string
  oi_token_id :: string

definition strip_slashes :: "string \<Rightarrow> string" where
  "strip_slashes s = rev (dropWhile (\<lambda>c. c = CHR ''/'') (rev s))"

definition audience_is_ours :: "horizon_config \<Rightarrow> string \<Rightarrow> bool" where
  "audience_is_ours cfg aud =
     (let issuer = strip_slashes (oauth_issuer (cfg_oauth cfg)) in
      if issuer = [] then False else aud = issuer \<or> aud = issuer @ ''/api/mcp'')"

definition scope_words :: "string \<Rightarrow> string list" where
  "scope_words scope = filter (\<lambda>w. w \<noteq> []) (split_on CHR '' '' scope)"

definition resolve_oauth ::
  "directory \<Rightarrow> horizon_config \<Rightarrow> nat \<Rightarrow> string option \<Rightarrow> role_state \<Rightarrow> oauth_identity option \<times> role_state" where
  "resolve_oauth dir cfg now authorization rl =
     (let oc = cfg_oauth cfg in
      if \<not> oauth_enabled oc \<or> oauth_signing_key oc = [] then (None, rl)
      else (case bearer_value authorization of
        None \<Rightarrow> (None, rl)
      | Some raw \<Rightarrow>
          if \<not> prefix access_prefix raw then (None, rl)
          else (case (case verify_signed (oauth_signing_key oc) AccessKind (drop (length access_prefix) raw) now of
                        Some v \<Rightarrow> claims_of v | None \<Rightarrow> None) of
            None \<Rightarrow> (None, rl)
          | Some claims \<Rightarrow>
              if (case tc_aud claims of Some a \<Rightarrow> a \<noteq> [] \<and> \<not> audience_is_ours cfg a | None \<Rightarrow> False) then (None, rl)
              else (case knows_user dir cfg now (tc_sub claims) rl of
                 (known, rl1) \<Rightarrow>
                   if \<not> known then (None, rl1)
                   else (case roles_for dir cfg now (tc_sub claims) rl1 of
                      (live, rl2) \<Rightarrow>
                        if length live = 0 \<and> rbac_enabled (cfg_rbac cfg) then (None, rl2)
                        else (Some \<lparr>oi_username = tc_sub claims, oi_roles = live,
                                    oi_verb_cap = verb_cap_for (scope_words (tc_scope claims)),
                                    oi_scope = tc_scope claims, oi_token_id = tc_jti claims\<rparr>, rl2))))))"

subsection \<open>The pre-handler\<close>

datatype auth_kind = SessionKind | ApiTokenKind | OauthTokenKind

record credentials =
  cr_authorization :: "string option"
  cr_cookies :: "(string \<times> string) list"
  cr_url :: string

record stamped_cookie =
  ck_name :: string
  ck_value :: string
  ck_secure :: bool
  ck_max_age :: nat

record token_use =
  us_token_id :: string
  us_username :: string
  us_at :: nat

record auth_state =
  as_sessions :: session_store
  as_tokens :: token_state
  as_roles :: role_state
  as_uses :: "token_use list"

text \<open>What the pre-handler leaves on the request and the reply: either who it is and how it knows, with
  the cookie stamped anew for a browser, or a 401 and perhaps its challenge.\<close>

datatype auth_outcome =
    Admitted session auth_kind "string option" "stamped_cookie option"
  | Unauthenticated401 "string option"

definition unauthenticated :: "horizon_config \<Rightarrow> credentials \<Rightarrow> auth_outcome" where
  "unauthenticated cfg cr =
     (let oc = cfg_oauth cfg in
      Unauthenticated401
        (if oauth_enabled oc \<and> oauth_issuer oc \<noteq> [] \<and> oauth_signing_key oc \<noteq> [] \<and> prefix ''/api/mcp'' (cr_url cr)
         then Some (''Bearer resource_metadata='' @ CHR 0x22 # strip_slashes (oauth_issuer oc) @
                    ''/.well-known/oauth-protected-resource'' @ [CHR 0x22])
         else None))"

definition require_browser_session :: "auth_kind \<Rightarrow> bool" where
  "require_browser_session k = (k = SessionKind)"

definition oauth_session :: "oauth_identity \<Rightarrow> nat \<Rightarrow> session" where
  "oauth_session i now =
     \<lparr>ss_auth_source = Some FromOauthToken, ss_provider = None, ss_display_name = None,
      ss_sid = ''oauth:'' @ oi_token_id i, ss_username = oi_username i, ss_roles = oi_roles i,
      ss_verb_cap = oi_verb_cap i, ss_created_at = now, ss_last_seen = now\<rparr>"

definition token_session :: "token_identity \<Rightarrow> nat \<Rightarrow> session" where
  "token_session t now =
     \<lparr>ss_auth_source = Some FromApiToken, ss_provider = None, ss_display_name = None,
      ss_sid = ''token:'' @ ti_token_id t, ss_username = ti_username t, ss_roles = ti_roles t,
      ss_verb_cap = None, ss_created_at = now, ss_last_seen = now\<rparr>"

definition session_cookie :: "session_config \<Rightarrow> string \<Rightarrow> stamped_cookie" where
  "session_cookie s sid =
     \<lparr>ck_name = session_cookie_name s, ck_value = sid, ck_secure = session_cookie_secure s,
      ck_max_age = session_ttl_minutes s * 60\<rparr>"

definition require_auth ::
  "credential_world \<Rightarrow> horizon_config \<Rightarrow> nat \<Rightarrow> credentials \<Rightarrow> auth_state \<Rightarrow> auth_outcome \<times> auth_state" where
  "require_auth w cfg now cr st =
     (case resolve_oauth (cw_directory w) cfg now (cr_authorization cr) (as_roles st) of
        (Some i, rl) \<Rightarrow>
          (Admitted (oauth_session i now) OauthTokenKind (Some (oi_token_id i)) None, st\<lparr>as_roles := rl\<rparr>)
      | (None, rl) \<Rightarrow>
          (case resolve_token w cfg now (cr_authorization cr) (as_tokens st) rl of
             (Some t, tk, rl') \<Rightarrow>
               (Admitted (token_session t now) ApiTokenKind (Some (ti_token_id t)) None,
                st\<lparr>as_roles := rl', as_tokens := tk,
                   as_uses := as_uses st @ [\<lparr>us_token_id = ti_token_id t, us_username = ti_username t, us_at = now\<rparr>]\<rparr>)
           | (None, tk, rl') \<Rightarrow>
               (let st1 = st\<lparr>as_roles := rl', as_tokens := tk\<rparr>; sc = cfg_session cfg in
                case map_of (cr_cookies cr) (session_cookie_name sc) of
                  None \<Rightarrow> (unauthenticated cfg cr, st1)
                | Some sid \<Rightarrow>
                    if sid = [] then (unauthenticated cfg cr, st1)
                    else (case touch_session (session_ttl_minutes sc) now sid (as_sessions st1) of
                            (None, ss) \<Rightarrow> (unauthenticated cfg cr, st1\<lparr>as_sessions := ss\<rparr>)
                          | (Some s, ss) \<Rightarrow>
                              (Admitted s SessionKind None (Some (session_cookie sc sid)), st1\<lparr>as_sessions := ss\<rparr>)))))"

subsection \<open>Lemmas\<close>

lemma b64url_char_visible: "n < 64 \<Longrightarrow> plain_char (b64url_char n)"
  by (auto simp: b64url_char_def b64_char_def plain_char_def)

lemma b64url_visible: "c \<in> set (b64url_encode s) \<Longrightarrow> plain_char c"
  using sextets_bound [OF char_bytes, of s] b64url_char_visible by (auto simp: b64url_encode_def)

lemma signed_visible: "c \<in> set (sign key kind d ttl now) \<Longrightarrow> plain_char c"
  by (auto simp: sign_def mac_def Let_def plain_char_def dest: b64url_visible [unfolded plain_char_def])

lemma bearer_of_token:
  assumes "\<And>c. c \<in> set t \<Longrightarrow> plain_char c"
  shows "bearer_value (Some (''Bearer '' @ t)) = Some t"
proof -
  have "js_trim t = t" using assms by (intro js_trim_plain) (cases t, auto)
  moreover have "to_lower ''Bearer '' = ''bearer ''" by code_simp
  ultimately show ?thesis by (simp add: bearer_value_def)
qed

lemma access_token_bearer:
  "bearer_value (Some (''Bearer '' @ issue_access_token key c ttl now)) = Some (issue_access_token key c ttl now)"
  by (rule bearer_of_token) (auto simp: issue_access_token_def access_prefix_def plain_char_def dest: signed_visible [unfolded plain_char_def])

text \<open>What the resolver of access tokens answers, with the two questions to the role resolver as one.\<close>

lemma resolve_oauth_claims:
  assumes "bearer_value authorization = Some raw" "prefix access_prefix raw"
    and "oauth_enabled (cfg_oauth cfg)" "oauth_signing_key (cfg_oauth cfg) \<noteq> []"
    and "verify_signed (oauth_signing_key (cfg_oauth cfg)) AccessKind (drop (length access_prefix) raw) now = Some v"
    and "claims_of v = Some c" and "\<forall>a. tc_aud c = Some a \<longrightarrow> a \<noteq> [] \<longrightarrow> audience_is_ours cfg a"
    and "resolver_ok rl" and "resolve_role dir cfg now (tc_sub c) rl = (r, rl')"
  shows "resolve_oauth dir cfg now authorization rl =
    (if rs_known r \<and> \<not> (rs_roles r = [] \<and> rbac_enabled (cfg_rbac cfg))
     then Some \<lparr>oi_username = tc_sub c, oi_roles = rs_roles r, oi_verb_cap = verb_cap_for (scope_words (tc_scope c)),
                oi_scope = tc_scope c, oi_token_id = tc_jti c\<rparr>
     else None, rl')"
proof -
  have k: "knows_user dir cfg now (tc_sub c) rl = (rs_known r, rl')" by (simp add: knows_user_def assms(9))
  have aud: "\<not> (case tc_aud c of Some a \<Rightarrow> a \<noteq> [] \<and> \<not> audience_is_ours cfg a | None \<Rightarrow> False)"
    using assms(7) by (auto split: option.split)
  have "rs_known r \<Longrightarrow> roles_for dir cfg now (tc_sub c) rl' = (rs_roles r, rl')"
    using knows_then_roles [OF assms(8) k] by (simp add: assms(9) prod_eq_iff)
  then show ?thesis using assms(1-6) k aud by (simp add: resolve_oauth_def Let_def)
qed

lemma resolve_oauth_Some:
  assumes "resolve_oauth dir cfg now authorization rl = (Some i, rl')"
  obtains raw v c where "oauth_enabled (cfg_oauth cfg)" "oauth_signing_key (cfg_oauth cfg) \<noteq> []"
    "bearer_value authorization = Some raw" "prefix access_prefix raw"
    "verify_signed (oauth_signing_key (cfg_oauth cfg)) AccessKind (drop (length access_prefix) raw) now = Some v"
    "claims_of v = Some c" "\<forall>a. tc_aud c = Some a \<longrightarrow> a \<noteq> [] \<longrightarrow> audience_is_ours cfg a"
proof -
  have on: "oauth_enabled (cfg_oauth cfg)" "oauth_signing_key (cfg_oauth cfg) \<noteq> []"
    using assms by (auto simp: resolve_oauth_def Let_def split: if_splits)
  obtain raw where raw: "bearer_value authorization = Some raw" "prefix access_prefix raw"
    using assms on by (auto simp: resolve_oauth_def Let_def split: option.splits if_splits)
  obtain v where v: "verify_signed (oauth_signing_key (cfg_oauth cfg)) AccessKind (drop (length access_prefix) raw) now = Some v"
    using assms on raw by (auto simp: resolve_oauth_def Let_def split: option.splits)
  obtain c where c: "claims_of v = Some c" using assms on raw v by (auto simp: resolve_oauth_def Let_def split: option.splits)
  have "\<forall>a. tc_aud c = Some a \<longrightarrow> a \<noteq> [] \<longrightarrow> audience_is_ours cfg a"
    using assms on raw v c by (auto simp: resolve_oauth_def Let_def split: option.splits if_splits)
  then show thesis using that on raw v c by blast
qed

lemma require_auth_cases:
  assumes "require_auth w cfg now cr st = (out, st')"
  obtains (oauth) i where "out = Admitted (oauth_session i now) OauthTokenKind (Some (oi_token_id i)) None"
      "as_sessions st' = as_sessions st" "as_uses st' = as_uses st"
      "fst (resolve_oauth (cw_directory w) cfg now (cr_authorization cr) (as_roles st)) = Some i"
  | (api) i rl where "out = Admitted (token_session i now) ApiTokenKind (Some (ti_token_id i)) None"
      "as_sessions st' = as_sessions st"
      "as_uses st' = as_uses st @ [\<lparr>us_token_id = ti_token_id i, us_username = ti_username i, us_at = now\<rparr>]"
      "snd (resolve_oauth (cw_directory w) cfg now (cr_authorization cr) (as_roles st)) = rl"
      "fst (resolve_token w cfg now (cr_authorization cr) (as_tokens st) rl) = Some i"
  | (browser) sid s where "out = Admitted s SessionKind None (Some (session_cookie (cfg_session cfg) sid))"
      "map_of (cr_cookies cr) (session_cookie_name (cfg_session cfg)) = Some sid" "sid \<noteq> []"
      "touch_session (session_ttl_minutes (cfg_session cfg)) now sid (as_sessions st) = (Some s, as_sessions st')"
      "as_uses st' = as_uses st"
  | (nobody) "out = unauthenticated cfg cr" "as_uses st' = as_uses st"
      "as_sessions st' = as_sessions st \<or>
       (\<exists>sid. map_of (cr_cookies cr) (session_cookie_name (cfg_session cfg)) = Some sid \<and>
          touch_session (session_ttl_minutes (cfg_session cfg)) now sid (as_sessions st) = (None, as_sessions st'))"
proof -
  obtain oi rl where o: "resolve_oauth (cw_directory w) cfg now (cr_authorization cr) (as_roles st) = (oi, rl)" by fastforce
  show thesis
  proof (cases oi)
    case (Some i)
    then show thesis using assms o by (intro oauth [of i]) (auto simp: require_auth_def)
  next
    case noauth: None
    obtain ti tk rl' where t: "resolve_token w cfg now (cr_authorization cr) (as_tokens st) rl = (ti, tk, rl')"
      by (cases "resolve_token w cfg now (cr_authorization cr) (as_tokens st) rl") auto
    show thesis
    proof (cases ti)
      case (Some i)
      then show thesis using assms o noauth t by (intro api [of i rl]) (auto simp: require_auth_def)
    next
      case None
      note step = assms [unfolded require_auth_def] o noauth t None
      show thesis
      proof (cases "map_of (cr_cookies cr) (session_cookie_name (cfg_session cfg))")
        case none: None
        then show thesis using step by (intro nobody) (auto simp: Let_def)
      next
        case sid: (Some sid)
        obtain so ss where touch: "touch_session (session_ttl_minutes (cfg_session cfg)) now sid (as_sessions st) = (so, ss)"
          by fastforce
        show thesis
        proof (cases "sid = [] \<or> so = None")
          case True
          then show thesis using step sid touch by (intro nobody) (auto simp: Let_def split: if_splits)
        next
          case False
          then obtain s where "so = Some s" by blast
          then show thesis using False step sid touch by (intro browser [of s sid]) (auto simp: Let_def)
        qed
      qed
    qed
  qed
qed

text \<open>An access token presented after it was issued.\<close>

lemma issued_token_resolves:
  assumes "oauth_enabled (cfg_oauth cfg)" "oauth_signing_key (cfg_oauth cfg) \<noteq> []"
    and "well_formed (tc_sub c)" "well_formed (tc_scope c)" "\<forall>a. tc_aud c = Some a \<longrightarrow> well_formed a" "well_formed (tc_jti c)"
    and "\<forall>a. tc_aud c = Some a \<longrightarrow> a \<noteq> [] \<longrightarrow> audience_is_ours cfg a"
    and "resolver_ok rl" and "resolve_role dir cfg now (tc_sub c) rl = (r, rl')"
  shows "fst (resolve_oauth dir cfg now
      (Some (''Bearer '' @ issue_access_token (oauth_signing_key (cfg_oauth cfg)) c ttl t)) rl) =
    (if now < t + ttl \<and> rs_known r \<and> \<not> (rs_roles r = [] \<and> rbac_enabled (cfg_rbac cfg))
     then Some \<lparr>oi_username = tc_sub c, oi_roles = rs_roles r, oi_verb_cap = verb_cap_for (scope_words (tc_scope c)),
                oi_scope = tc_scope c, oi_token_id = tc_jti c\<rparr>
     else None)"
proof -
  let ?key = "oauth_signing_key (cfg_oauth cfg)"
  let ?t = "issue_access_token ?key c ttl t"
  note b = access_token_bearer [of ?key c ttl t]
  have p: "prefix access_prefix ?t" "drop (length access_prefix) ?t = sign ?key AccessKind (claims_json c) (Some ttl) t"
    by (simp_all add: issue_access_token_def)
  have "text_json (claims_json c)" by (rule claims_text) (use assms(3-6) in auto)
  from verify_sign [OF this, of ?key AccessKind AccessKind "Some ttl" t now]
  have v: "verify_signed ?key AccessKind (drop (length access_prefix) ?t) now = (if now < t + ttl then Some (claims_json c) else None)"
    unfolding p by simp
  show ?thesis
  proof (cases "now < t + ttl")
    case True
    then have "verify_signed ?key AccessKind (drop (length access_prefix) ?t) now = Some (claims_json c)" using v by simp
    from resolve_oauth_claims [OF b p(1) assms(1,2) this claims_of_json assms(7-9)] True show ?thesis by simp
  next
    case False
    then have none: "verify_signed ?key AccessKind (drop (length access_prefix) ?t) now = None" using v by simp
    show ?thesis
    proof (cases "resolve_oauth dir cfg now (Some (''Bearer '' @ ?t)) rl")
      case (Pair x y)
      show ?thesis
      proof (cases x)
        case (Some i)
        then show ?thesis using resolve_oauth_Some [OF Pair [unfolded Some]] b none by force
      qed (use False Pair in auto)
    qed
  qed
qed

subsection \<open>Properties\<close>

text \<open>C17: A client's access token acts for a living person within what that person agreed to: it was MACed by
  this server as an access token and has not expired, an audience it names is this server, the user
  exists, its roles are exactly those the user has now, and every verb it passes is one the user passes
  in a browser and the consented scope covers.\<close>

theorem access_token_bounded:
  assumes "resolve_oauth dir cfg now authorization rl = (Some i, rl')" and "resolver_ok rl"
  shows "\<exists>raw v c. bearer_value authorization = Some (access_prefix @ raw) \<and>
      verify_signed (oauth_signing_key (cfg_oauth cfg)) AccessKind raw now = Some v \<and> claims_of v = Some c \<and>
      oi_username i = tc_sub c \<and> (\<forall>a. tc_aud c = Some a \<longrightarrow> a \<noteq> [] \<longrightarrow> audience_is_ours cfg a) \<and>
      fst (resolve_role dir cfg now (tc_sub c) rl) = \<lparr>rs_roles = oi_roles i, rs_known = True\<rparr> \<and>
      (rbac_enabled (cfg_rbac cfg) \<longrightarrow> oi_roles i \<noteq> []) \<and>
      (\<forall>verb. session_has_verb cfg \<lparr>subject_roles = oi_roles i, subject_cap = oi_verb_cap i\<rparr> verb \<longrightarrow>
         session_has_verb cfg \<lparr>subject_roles = oi_roles i, subject_cap = None\<rparr> verb \<and>
         (\<forall>cap. verb_cap_for (scope_words (tc_scope c)) = Some cap \<longrightarrow> has_verb cap verb))"
proof -
  obtain raw v c where c: "oauth_enabled (cfg_oauth cfg)" "oauth_signing_key (cfg_oauth cfg) \<noteq> []"
    "bearer_value authorization = Some raw" "prefix access_prefix raw"
    "verify_signed (oauth_signing_key (cfg_oauth cfg)) AccessKind (drop (length access_prefix) raw) now = Some v"
    "claims_of v = Some c" "\<forall>a. tc_aud c = Some a \<longrightarrow> a \<noteq> [] \<longrightarrow> audience_is_ours cfg a"
    using resolve_oauth_Some [OF assms(1)] by blast
  obtain r rl1 where r: "resolve_role dir cfg now (tc_sub c) rl = (r, rl1)" by fastforce
  have i: "rs_known r" "oi_username i = tc_sub c" "oi_roles i = rs_roles r" "rbac_enabled (cfg_rbac cfg) \<longrightarrow> rs_roles r \<noteq> []"
      "oi_verb_cap i = verb_cap_for (scope_words (tc_scope c))"
    using resolve_oauth_claims [OF c(3,4,1,2,5,6,7) assms(2) r] assms(1) by (auto split: if_splits)
  have "raw = access_prefix @ drop (length access_prefix) raw" using c(4) by (auto simp: prefix_def)
  moreover have "r = \<lparr>rs_roles = oi_roles i, rs_known = True\<rparr>" using i by (cases r) simp
  moreover have "session_has_verb cfg \<lparr>subject_roles = R, subject_cap = C\<rparr> verb \<Longrightarrow>
      session_has_verb cfg \<lparr>subject_roles = R, subject_cap = None\<rparr> verb \<and> (\<forall>cap. C = Some cap \<longrightarrow> has_verb cap verb)" for R C verb
    by (auto simp: session_has_verb_def split: if_splits)
  ultimately show ?thesis using c i(2,4,5) r i(3)
    by (intro exI [of _ "drop (length access_prefix) raw"] exI [of _ v] exI [of _ c]) simp
qed

definition oauth_sample :: horizon_config where
  "oauth_sample = token_config\<lparr>cfg_oauth :=
     \<lparr>oauth_enabled = True, oauth_signing_key = ''k'', oauth_issuer = ''https://h/'', oauth_access_minutes = 5,
      oauth_refresh_days = 0, oauth_metadata_hosts = []\<rparr>\<rparr>"

definition sample_claims :: token_claims where
  "sample_claims = \<lparr>tc_sub = ''ann'', tc_scope = ''horizon:read'', tc_aud = Some ''https://h/api/mcp'', tc_jti = ''j''\<rparr>"

lemma sample_audience: "audience_is_ours oauth_sample ''https://h/api/mcp''"
  by code_simp

text \<open>C35: An access token this server issues is good, until its time is up and no longer, for exactly its
  subject and scope, with the roles the subject has when it is presented, provided the subject still
  exists and, under RBAC, still has a role.\<close>

theorem access_token_roundtrip:
  assumes "oauth_enabled (cfg_oauth cfg)" "oauth_signing_key (cfg_oauth cfg) \<noteq> []"
    and "well_formed (tc_sub c)" "well_formed (tc_scope c)" "\<forall>a. tc_aud c = Some a \<longrightarrow> well_formed a" "well_formed (tc_jti c)"
    and "\<forall>a. tc_aud c = Some a \<longrightarrow> a \<noteq> [] \<longrightarrow> audience_is_ours cfg a"
    and "resolver_ok rl" and "resolve_role dir cfg now (tc_sub c) rl = (r, rl')"
  shows "fst (resolve_oauth dir cfg now
      (Some (''Bearer '' @ issue_access_token (oauth_signing_key (cfg_oauth cfg)) c ttl t)) rl) =
    (if now < t + ttl \<and> rs_known r \<and> \<not> (rs_roles r = [] \<and> rbac_enabled (cfg_rbac cfg))
     then Some \<lparr>oi_username = tc_sub c, oi_roles = rs_roles r, oi_verb_cap = verb_cap_for (scope_words (tc_scope c)),
                oi_scope = tc_scope c, oi_token_id = tc_jti c\<rparr>
     else None)"
  by (rule issued_token_resolves [OF assms])

lemma sample_ann: "resolve_role sample_directory oauth_sample 7 ''ann'' new_role_state =
   (\<lparr>rs_roles = [''viewer'', ''admin''], rs_known = True\<rparr>, new_role_state)"
  by (simp add: resolve_role_def oauth_sample_def token_config_def sample_config_def Let_def)

lemma sample_claims_text: "well_formed (tc_sub sample_claims)" "well_formed (tc_scope sample_claims)"
    "\<forall>a. tc_aud sample_claims = Some a \<longrightarrow> well_formed a" "well_formed (tc_jti sample_claims)"
  by (simp_all add: sample_claims_def well_formed_ascii)

theorem access_token_roundtrip_witness:
  "fst (resolve_oauth sample_directory oauth_sample 7
      (Some (''Bearer '' @ issue_access_token ''k'' sample_claims 100 0)) new_role_state) =
    Some \<lparr>oi_username = ''ann'', oi_roles = [''viewer'', ''admin''], oi_verb_cap = verb_cap_for (scope_words ''horizon:read''),
          oi_scope = ''horizon:read'', oi_token_id = ''j''\<rparr>"
proof -
  have "oauth_enabled (cfg_oauth oauth_sample)" "oauth_signing_key (cfg_oauth oauth_sample) = ''k''"
      "tc_sub sample_claims = ''ann''" "tc_scope sample_claims = ''horizon:read''" "tc_jti sample_claims = ''j''"
      "resolver_ok new_role_state"
    by (simp_all add: oauth_sample_def sample_claims_def resolver_ok_def new_role_state_def)
  note facts = this
  have aud: "\<forall>a. tc_aud sample_claims = Some a \<longrightarrow> a \<noteq> [] \<longrightarrow> audience_is_ours oauth_sample a"
    using sample_audience by (simp add: sample_claims_def)
  show ?thesis
    using access_token_roundtrip [OF facts(1) _ sample_claims_text aud facts(6), of sample_directory 7
        "\<lparr>rs_roles = [''viewer'', ''admin''], rs_known = True\<rparr>" new_role_state 100 0] sample_ann facts by simp
qed


lemma sample_token_resolves_7:
  "fst (resolve_oauth sample_directory oauth_sample 7
      (Some (''Bearer '' @ issue_access_token ''k'' sample_claims 100 0)) new_role_state) =
    Some \<lparr>oi_username = ''ann'', oi_roles = [''viewer'', ''admin''], oi_verb_cap = verb_cap_for (scope_words ''horizon:read''),
          oi_scope = ''horizon:read'', oi_token_id = ''j''\<rparr>"
proof -
  have "oauth_enabled (cfg_oauth oauth_sample)" "oauth_signing_key (cfg_oauth oauth_sample) = ''k''"
      "tc_sub sample_claims = ''ann''" "tc_scope sample_claims = ''horizon:read''" "tc_jti sample_claims = ''j''"
      "resolver_ok new_role_state"
    by (simp_all add: oauth_sample_def sample_claims_def resolver_ok_def new_role_state_def)
  note facts = this
  have aud: "\<forall>a. tc_aud sample_claims = Some a \<longrightarrow> a \<noteq> [] \<longrightarrow> audience_is_ours oauth_sample a"
    using sample_audience by (simp add: sample_claims_def)
  show ?thesis
    using issued_token_resolves [OF facts(1) _ sample_claims_text aud facts(6), of sample_directory 7
        "\<lparr>rs_roles = [''viewer'', ''admin''], rs_known = True\<rparr>" new_role_state 100 0] sample_ann facts by simp
qed


theorem access_token_bounded_witness:
  "\<exists>i rl'. resolve_oauth sample_directory oauth_sample 7
      (Some (''Bearer '' @ issue_access_token ''k'' sample_claims 100 0)) new_role_state = (Some i, rl') \<and>
    fst (resolve_role sample_directory oauth_sample 7 ''ann'' new_role_state) = \<lparr>rs_roles = oi_roles i, rs_known = True\<rparr>"
proof -
  have ok: "resolver_ok new_role_state" by (simp add: resolver_ok_def new_role_state_def)
  obtain i rl' where r: "resolve_oauth sample_directory oauth_sample 7
      (Some (''Bearer '' @ issue_access_token ''k'' sample_claims 100 0)) new_role_state = (Some i, rl')"
    using sample_token_resolves_7 by (metis prod.collapse)
  from access_token_bounded [OF r ok] obtain c :: token_claims where c: "oi_username i = tc_sub c"
      "fst (resolve_role sample_directory oauth_sample 7 (tc_sub c) new_role_state) = \<lparr>rs_roles = oi_roles i, rs_known = True\<rparr>"
    by blast
  have "oi_username i = ''ann''" using sample_token_resolves_7 r by simp
  then show ?thesis using r c by auto
qed

end
