(* ===== verification/Provider.thy ===== *)
theory Provider
  imports ClientMetadata Authenticate
begin

text \<open>
  What the server reads from an identity provider: the documents of \<open>apps/bff/src/user/oidc/discovery.ts\<close>
  and \<open>apps/bff/src/user/oidc/userinfo.ts\<close>, and \<open>apps/bff/src/util/loopback.ts\<close>.  The platform's fetch is
  a parameter that answers a request with a response, or fails; every fetch has a time-out, so that the
  reads of a body are finite, the last of them broken when the time ran out.
\<close>

subsection \<open>Reading JSON\<close>

text \<open>\<open>String(v)\<close>.\<close>

fun js_text :: "json \<Rightarrow> string" where
  "js_text JNull = ''null''"
| "js_text (JBool b) = (if b then ''true'' else ''false'')"
| "js_text (JNum i) = show_int i"
| "js_text (JStr s) = s"
| "js_text (JArr vs) = join_with '','' (map (\<lambda>v. if v = JNull then [] else js_text v) vs)"
| "js_text (JObj ms) = ''[object Object]''"

definition js_text_of :: "json option \<Rightarrow> string" where
  "js_text_of v = (case v of Some j \<Rightarrow> js_text j | None \<Rightarrow> ''undefined'')"

definition json_truthy :: "json option \<Rightarrow> bool" where
  "json_truthy v \<longleftrightarrow> v \<notin> {None, Some JNull, Some (JBool False), Some (JNum 0), Some (JStr [])}"

text \<open>\<open>v[key]\<close> of an object or an array.\<close>

definition json_property :: "json \<Rightarrow> string \<Rightarrow> json option" where
  "json_property v key =
     (case v of
        JObj ms \<Rightarrow> map_of ms key
      | JArr vs \<Rightarrow>
          if key = ''length'' then Some (JNum (int (length vs)))
          else map_option (\<lambda>i. vs ! i) (find (\<lambda>i. show_int (int i) = key) [0..<length vs])
      | _ \<Rightarrow> None)"

definition is_object :: "json \<Rightarrow> bool" where
  "is_object v = (case v of JObj ms \<Rightarrow> True | JArr vs \<Rightarrow> True | _ \<Rightarrow> False)"

fun walk_path :: "json option \<Rightarrow> string list \<Rightarrow> json option" where
  "walk_path v [] = v"
| "walk_path v (key # keys) =
     (case v of
        Some j \<Rightarrow> if is_object j then walk_path (json_property j key) keys else None
      | None \<Rightarrow> None)"

definition read_path :: "json \<Rightarrow> string \<Rightarrow> string option" where
  "read_path body path =
     (case walk_path (Some body) (split_on CHR ''.'' path) of
        Some (JStr s) \<Rightarrow> if 0 < length s then Some s else None
      | _ \<Rightarrow> None)"

definition read_any :: "json \<Rightarrow> string \<Rightarrow> json option" where
  "read_any body path = (if path = [] then None else walk_path (Some body) (split_on CHR ''.'' path))"

definition affirms :: "json option \<Rightarrow> string \<Rightarrow> bool" where
  "affirms v want =
     (if want \<noteq> [] then js_text_of v = want else v = Some (JBool True) \<or> v = Some (JStr ''true''))"

definition looks_like_address :: "string \<Rightarrow> bool" where
  "looks_like_address v =
     (case index_of CHR ''@'' v of
        None \<Rightarrow> False
      | Some i \<Rightarrow>
          0 < i \<and> last_index_of CHR ''@'' v = Some i \<and> i < length v - 1 \<and> \<not> list_ex (\<lambda>f. sublist f v) ws_forms)"

subsection \<open>Reading a body\<close>

datatype body_read = Chunk string | BrokenOff

record provider_response =
  rp_ok :: bool
  rp_declared :: "string option"
  rp_body :: "body_read list option"

definition max_provider_body :: nat where "max_provider_body = 262144"

fun read_chunks :: "nat \<Rightarrow> string \<Rightarrow> body_read list \<Rightarrow> string option" where
  "read_chunks so_far kept [] = Some kept"
| "read_chunks so_far kept (BrokenOff # rs) = None"
| "read_chunks so_far kept (Chunk c # rs) =
     (if max_provider_body < so_far + length c then None else read_chunks (so_far + length c) (kept @ c) rs)"

definition read_bounded :: "provider_response \<Rightarrow> json option" where
  "read_bounded res =
     (if (case js_number (or_empty (rp_declared res)) of Some n \<Rightarrow> max_provider_body < n | None \<Rightarrow> False) then None
      else (case rp_body res of
              None \<Rightarrow> json_parse []
            | Some rs \<Rightarrow> (case read_chunks 0 [] rs of None \<Rightarrow> None | Some b \<Rightarrow> json_parse (utf8_decode b))))"

datatype provider_request =
    GetDocument string
  | GetAuthorized string string
  | PostForm string "(string \<times> string) list"

record provider_world =
  pw_parse :: url_parser
  pw_with_params :: "string \<Rightarrow> (string \<times> string) list \<Rightarrow> string"
  pw_public_url :: string
  pw_fetch :: "nat \<Rightarrow> provider_request \<Rightarrow> provider_response option"
  pw_verify :: "nat \<Rightarrow> string \<Rightarrow> string \<Rightarrow> string \<Rightarrow> string \<Rightarrow> json option"

definition get_authorized :: "provider_world \<Rightarrow> nat \<Rightarrow> string \<Rightarrow> string \<Rightarrow> json option" where
  "get_authorized w now url token =
     (case pw_fetch w now (GetAuthorized url token) of
        None \<Rightarrow> None
      | Some res \<Rightarrow> if \<not> rp_ok res then None else read_bounded res)"

subsection \<open>Addresses of a provider\<close>

text \<open>A decimal octet, as \<open>isIP\<close> reads it.\<close>

definition v4_segment :: "string \<Rightarrow> bool" where
  "v4_segment p \<longleftrightarrow> p \<noteq> [] \<and> list_all is_digit p \<and> length p \<le> 3 \<and> (hd p = CHR ''0'' \<longrightarrow> length p = 1) \<and> digits_value p \<le> 255"

definition is_ipv4 :: "string \<Rightarrow> bool" where
  "is_ipv4 s \<longleftrightarrow> length (split_on CHR ''.'' s) = 4 \<and> list_all v4_segment (split_on CHR ''.'' s)"

definition is_loopback_hostname :: "string \<Rightarrow> bool" where
  "is_loopback_hostname raw =
     (let raw = (if prefix ''['' raw then drop 1 raw else raw);
          host = to_lower (if suffix '']'' raw then butlast raw else raw) in
      if host = ''localhost'' then True
      else if is_ipv4 host then prefix ''127.'' host
      else host = ''::1'' \<or> host = ''::ffff:127.0.0.1'')"

definition is_https_or_loopback :: "url_parser \<Rightarrow> string \<Rightarrow> bool" where
  "is_https_or_loopback parse raw =
     (case parse raw of
        None \<Rightarrow> False
      | Some u \<Rightarrow>
          if u_protocol u = ''https:'' then True
          else if u_protocol u \<noteq> ''http:'' then False
          else is_loopback_hostname (u_hostname u))"

text \<open>The issues the schema of a provider raises beyond the shape of its fields, by the field at fault
  (\<open>apps/bff/src/config/schema.ts\<close>).\<close>

definition is_secure_url :: "url_parser \<Rightarrow> string \<Rightarrow> bool" where
  "is_secure_url parse raw =
     (case parse raw of
        None \<Rightarrow> False
      | Some u \<Rightarrow>
          u_protocol u = ''https:'' \<or>
          (u_protocol u = ''http:'' \<and> u_hostname u \<in> {''localhost'', ''127.0.0.1'', ''[::1]'', ''::1''}))"

definition provider_issues :: "url_parser \<Rightarrow> oidc_provider \<Rightarrow> string list" where
  "provider_issues parse p =
     (let issuer = (''issuer'', op_issuer p); auth = (''authorizationEndpoint'', op_authorization_endpoint p);
          tok = (''tokenEndpoint'', op_token_endpoint p); info = (''userinfoEndpoint'', op_userinfo_endpoint p);
          emails = (''emailsEndpoint'', op_emails_endpoint p) in
      map fst (filter (\<lambda>(f, v). v \<noteq> [] \<and> \<not> is_https_or_loopback parse v) [issuer, auth, tok, info, emails]) @
      (if op_kind p = OpenId \<and> op_issuer p = [] then [''issuer''] else []) @
      (if op_kind p = PlainOAuth
       then map fst (filter (\<lambda>(f, v). v = []) [auth, tok, info]) @
            map fst (filter (\<lambda>(f, v). v \<noteq> [] \<and> \<not> is_secure_url parse v) [auth, tok, info, emails]) @
            (if op_emails_endpoint p = [] \<and> op_verified_path p = [] then [''emailVerifiedPath''] else [])
       else []))"

subsection \<open>Discovery\<close>

record provider_metadata =
  pm_issuer :: string
  pm_authorization_endpoint :: string
  pm_token_endpoint :: string
  pm_jwks_uri :: string
  pm_supports_s256 :: bool

text \<open>\<open>CannotDiscover\<close> is the error discovery raises; a document of a shape it does not expect makes it
  fail in the middle of reading it.\<close>

datatype discovery_error = CannotDiscover | DiscoveryFault

definition discovery_cache_ms :: nat where "discovery_cache_ms = 21600000"

type_synonym discovery_cache = "(string, nat \<times> provider_metadata) jsmap"

text \<open>\<open>(methods ?? []).includes('S256')\<close>, which only an array and a text answer.\<close>

definition offers_s256 :: "json option \<Rightarrow> bool option" where
  "offers_s256 methods =
     (case methods of
        None \<Rightarrow> Some False
      | Some JNull \<Rightarrow> Some False
      | Some (JArr vs) \<Rightarrow> Some (JStr ''S256'' \<in> set vs)
      | Some (JStr s) \<Rightarrow> Some (sublist ''S256'' s)
      | _ \<Rightarrow> None)"

definition metadata_of :: "url_parser \<Rightarrow> string \<Rightarrow> json \<Rightarrow> discovery_error + provider_metadata" where
  "metadata_of parse key raw =
     (if raw = JNull then Inl DiscoveryFault
      else (let auth = json_property raw ''authorization_endpoint''; tok = json_property raw ''token_endpoint'';
                jwks = json_property raw ''jwks_uri''; info = json_property raw ''userinfo_endpoint'';
                iss = json_property raw ''issuer'' in
        if \<not> json_truthy auth \<or> \<not> json_truthy tok \<or> \<not> json_truthy jwks then Inl CannotDiscover
        else if list_ex (\<lambda>v. json_truthy v \<and> \<not> is_https_or_loopback parse (js_text_of v)) [auth, tok, jwks, info]
        then Inl CannotDiscover
        else if json_truthy iss \<and> as_string iss = None then Inl DiscoveryFault
        else if json_truthy iss \<and> strip_slashes (or_empty (as_string iss)) \<noteq> key then Inl CannotDiscover
        else (case offers_s256 (json_property raw ''code_challenge_methods_supported'') of
                None \<Rightarrow> Inl DiscoveryFault
              | Some s256 \<Rightarrow>
                  Inr \<lparr>pm_issuer = key, pm_authorization_endpoint = js_text_of auth, pm_token_endpoint = js_text_of tok,
                       pm_jwks_uri = js_text_of jwks, pm_supports_s256 = s256\<rparr>)))"

definition discover ::
  "provider_world \<Rightarrow> nat \<Rightarrow> string \<Rightarrow> discovery_cache \<Rightarrow> (discovery_error + provider_metadata) \<times> discovery_cache" where
  "discover w now issuer cache =
     (let key = strip_slashes issuer in
      case (case map_of cache key of
              Some (at, m) \<Rightarrow> if int now - int at < int discovery_cache_ms then Some m else None
            | None \<Rightarrow> None) of
        Some m \<Rightarrow> (Inr m, cache)
      | None \<Rightarrow>
          (case pw_fetch w now (GetDocument (key @ ''/.well-known/openid-configuration'')) of
             None \<Rightarrow> (Inl CannotDiscover, cache)
           | Some res \<Rightarrow>
          (case (if rp_ok res then read_bounded res else None) of
             None \<Rightarrow> (Inl CannotDiscover, cache)
           | Some raw \<Rightarrow>
          (case metadata_of (pw_parse w) key raw of
             Inl e \<Rightarrow> (Inl e, cache)
           | Inr m \<Rightarrow> (Inr m, map_put key (now, m) cache)))))"

subsection \<open>Who an access token belongs to\<close>

record oauth2_identity =
  id_email :: string
  id_name :: "string option"

datatype identity_error = IdentityUnreachable | NoUsableAddress

text \<open>The entries of a list that affirm their address, and the one chosen among them.\<close>

definition usable_entries :: "oidc_provider \<Rightarrow> json list \<Rightarrow> json list" where
  "usable_entries p vs =
     (let path = (if op_verified_path p \<noteq> [] then op_verified_path p else ''verified'') in
      filter (\<lambda>e. is_object e \<and> affirms (read_any e path) (op_verified_value p) \<and> read_path e (op_email_path p) \<noteq> None) vs)"

definition email_from_list ::
  "provider_world \<Rightarrow> nat \<Rightarrow> oidc_provider \<Rightarrow> string \<Rightarrow> identity_error + string option" where
  "email_from_list w now p token =
     (case get_authorized w now (op_emails_endpoint p) token of
        None \<Rightarrow> Inl IdentityUnreachable
      | Some (JArr vs) \<Rightarrow>
          (case usable_entries p vs of
             [] \<Rightarrow> Inr None
           | e # es \<Rightarrow>
               (let chosen = (case find (\<lambda>x. json_property x ''primary'' = Some (JBool True)) (e # es) of
                                Some x \<Rightarrow> x | None \<Rightarrow> e) in
                Inr (read_path chosen (op_email_path p))))
      | Some _ \<Rightarrow> Inr None)"

definition fetch_oauth2_identity ::
  "provider_world \<Rightarrow> nat \<Rightarrow> oidc_provider \<Rightarrow> string \<Rightarrow> identity_error + oauth2_identity" where
  "fetch_oauth2_identity w now p token =
     (case get_authorized w now (op_userinfo_endpoint p) token of
        None \<Rightarrow> Inl IdentityUnreachable
      | Some body \<Rightarrow>
          (case (if op_emails_endpoint p \<noteq> [] then email_from_list w now p token
                 else (case read_path body (op_email_path p) of
                         None \<Rightarrow> Inr None
                       | Some email \<Rightarrow>
                           if \<not> affirms (read_any body (op_verified_path p)) (op_verified_value p) then Inl NoUsableAddress
                           else Inr (Some email))) of
             Inl e \<Rightarrow> Inl e
           | Inr None \<Rightarrow> Inl NoUsableAddress
           | Inr (Some email) \<Rightarrow>
               if \<not> looks_like_address email then Inl NoUsableAddress
               else Inr \<lparr>id_email = email, id_name = read_path body (op_name_path p)\<rparr>))"

subsection \<open>Properties\<close>

lemma read_chunks_whole:
  "length kept + length (concat cs) \<le> max_provider_body \<Longrightarrow>
   read_chunks (length kept) kept (map Chunk cs) = Some (kept @ concat cs)"
proof (induction cs arbitrary: kept)
  case (Cons c cs)
  then have "read_chunks (length (kept @ c)) (kept @ c) (map Chunk cs) = Some ((kept @ c) @ concat cs)" by (intro Cons.IH) simp
  then show ?case using Cons.prems by simp
qed simp

lemma read_chunks_Some:
  "read_chunks (length kept) kept rs = Some b \<Longrightarrow> length kept \<le> max_provider_body \<Longrightarrow>
   \<exists>cs. rs = map Chunk cs \<and> b = kept @ concat cs \<and> length b \<le> max_provider_body"
proof (induction rs arbitrary: kept)
  case (Cons r rs)
  show ?case
  proof (cases r)
    case (Chunk c)
    have c: "read_chunks (length (kept @ c)) (kept @ c) rs = Some b" "length (kept @ c) \<le> max_provider_body"
      using Cons.prems Chunk by (auto split: if_splits)
    from Cons.IH [OF c] obtain cs where "rs = map Chunk cs" "b = (kept @ c) @ concat cs" "length b \<le> max_provider_body" by blast
    then show ?thesis using Chunk by (intro exI [of _ "c # cs"]) simp
  qed (use Cons in simp)
qed simp

text \<open>A provider's body is read whole or not at all, whatever pieces it comes in: it is the pieces put
  together when none broke off and they are 256 KiB at most, and nothing otherwise.\<close>

theorem body_read_whole:
  "read_chunks 0 [] rs = Some b \<longleftrightarrow> (\<exists>cs. rs = map Chunk cs \<and> b = concat cs \<and> length b \<le> max_provider_body)"
  using read_chunks_Some [of "[]" rs b] read_chunks_whole [of "[]"] by auto

text \<open>The cache after a list of discoveries, the latest first.\<close>

fun discovery_run :: "provider_world \<Rightarrow> (nat \<times> string) list \<Rightarrow> discovery_cache" where
  "discovery_run w [] = []"
| "discovery_run w ((now, issuer) # calls) = snd (discover w now issuer (discovery_run w calls))"

definition read_off :: "provider_world \<Rightarrow> string \<Rightarrow> nat \<Rightarrow> provider_metadata \<Rightarrow> bool" where
  "read_off w key at m \<longleftrightarrow>
     (\<exists>res raw. pw_fetch w at (GetDocument (key @ ''/.well-known/openid-configuration'')) = Some res \<and> rp_ok res \<and>
        read_bounded res = Some raw \<and> metadata_of (pw_parse w) key raw = Inr m)"

lemma discover_outcome:
  assumes "discover w now issuer cache = (r, cache')"
  shows "cache' = cache \<or> (\<exists>m. cache' = map_put (strip_slashes issuer) (now, m) cache \<and> read_off w (strip_slashes issuer) now m)"
    and "r = Inr m \<Longrightarrow> (\<exists>at. map_of cache (strip_slashes issuer) = Some (at, m) \<and> now < at + discovery_cache_ms) \<or>
      read_off w (strip_slashes issuer) now m"
proof -
  let ?key = "strip_slashes issuer"
  let ?hit = "case map_of cache ?key of
      Some (at, m) \<Rightarrow> if int now - int at < int discovery_cache_ms then Some m else None | None \<Rightarrow> None"
  have "(cache' = cache \<or> (\<exists>m. cache' = map_put ?key (now, m) cache \<and> read_off w ?key now m)) \<and>
      (r = Inr m \<longrightarrow> ?hit = Some m \<or> read_off w ?key now m)"
  proof (cases ?hit)
    case (Some x)
    then show ?thesis using assms by (auto simp: discover_def Let_def)
  next
    case None
    then show ?thesis using assms
      by (auto simp: discover_def read_off_def Let_def split: option.splits if_splits sum.splits)
  qed
  moreover have "?hit = Some m \<Longrightarrow> \<exists>at. map_of cache ?key = Some (at, m) \<and> now < at + discovery_cache_ms"
    by (cases "map_of cache ?key") (auto split: if_splits)
  ultimately show "cache' = cache \<or> (\<exists>m. cache' = map_put ?key (now, m) cache \<and> read_off w ?key now m)"
    and "r = Inr m \<Longrightarrow> (\<exists>at. map_of cache ?key = Some (at, m) \<and> now < at + discovery_cache_ms) \<or> read_off w ?key now m"
    by blast+
qed

lemma discovery_run_entries:
  "map_of (discovery_run w calls) key = Some (at, m) \<Longrightarrow> read_off w key at m"
proof (induction calls)
  case (Cons c calls)
  obtain now issuer where c: "c = (now, issuer)" by fastforce
  obtain r cache' where d: "discover w now issuer (discovery_run w calls) = (r, cache')" by fastforce
  show ?case using discover_outcome(1) [OF d] Cons c d by (auto split: if_splits)
qed simp

lemma metadata_of_Inr:
  assumes "metadata_of parse key raw = Inr m"
  shows "pm_issuer m = key" "is_https_or_loopback parse (pm_authorization_endpoint m)"
    "is_https_or_loopback parse (pm_token_endpoint m)" "is_https_or_loopback parse (pm_jwks_uri m)"
    "\<And>s. json_property raw ''issuer'' = Some (JStr s) \<Longrightarrow> s \<noteq> [] \<Longrightarrow> strip_slashes s = key"
proof -
  let ?f = "json_property raw"
  have m: "json_truthy (?f ''authorization_endpoint'')" "json_truthy (?f ''token_endpoint'')" "json_truthy (?f ''jwks_uri'')"
      "\<not> list_ex (\<lambda>v. json_truthy v \<and> \<not> is_https_or_loopback parse (js_text_of v))
         [?f ''authorization_endpoint'', ?f ''token_endpoint'', ?f ''jwks_uri'', ?f ''userinfo_endpoint'']"
      "json_truthy (?f ''issuer'') \<longrightarrow> strip_slashes (or_empty (as_string (?f ''issuer''))) = key"
      "\<exists>b. m = \<lparr>pm_issuer = key, pm_authorization_endpoint = js_text_of (?f ''authorization_endpoint''),
         pm_token_endpoint = js_text_of (?f ''token_endpoint''), pm_jwks_uri = js_text_of (?f ''jwks_uri''), pm_supports_s256 = b\<rparr>"
    using assms unfolding metadata_of_def Let_def by (auto simp only: sum.simps simp_thms split: if_split_asm option.split_asm)
  show "pm_issuer m = key" "is_https_or_loopback parse (pm_authorization_endpoint m)"
    "is_https_or_loopback parse (pm_token_endpoint m)" "is_https_or_loopback parse (pm_jwks_uri m)"
    using m(1-4,6) by auto
  show "strip_slashes s = key" if "?f ''issuer'' = Some (JStr s)" "s \<noteq> []" for s
    using m(5) that by (simp add: json_truthy_def)
qed

text \<open>What a discovery gives out, from the cache or not.\<close>

lemma discovery_trusted:
  assumes "fst (discover w now issuer (discovery_run w calls)) = Inr m"
  shows "pm_issuer m = strip_slashes issuer" "is_https_or_loopback (pw_parse w) (pm_authorization_endpoint m)"
    "is_https_or_loopback (pw_parse w) (pm_token_endpoint m)" "is_https_or_loopback (pw_parse w) (pm_jwks_uri m)"
    "\<exists>at. now < at + discovery_cache_ms \<and> read_off w (strip_slashes issuer) at m"
proof -
  let ?key = "strip_slashes issuer"
  obtain cache' where "discover w now issuer (discovery_run w calls) = (Inr m, cache')"
    using assms by (metis prod.collapse)
  then obtain at where at: "now < at + discovery_cache_ms" "read_off w ?key at m"
  proof (elim disjE exE conjE discover_outcome(2) [OF _ refl, THEN disjE])
    show "read_off w ?key now m \<Longrightarrow> thesis" using that [of now] by (simp add: discovery_cache_ms_def)
  qed (use that discovery_run_entries in blast)
  then obtain raw where raw: "metadata_of (pw_parse w) ?key raw = Inr m" by (auto simp: read_off_def)
  show "pm_issuer m = ?key" "is_https_or_loopback (pw_parse w) (pm_authorization_endpoint m)"
    "is_https_or_loopback (pw_parse w) (pm_token_endpoint m)" "is_https_or_loopback (pw_parse w) (pm_jwks_uri m)"
    "\<exists>at. now < at + discovery_cache_ms \<and> read_off w ?key at m"
    using metadata_of_Inr [OF raw] at by blast+
qed

text \<open>Nothing a provider publishes moves a secret onto the wire in the clear.  The addresses a discovery
  gives out, from the cache or not, whatever was discovered before, are https or of this machine, of a
  document fetched less than six hours ago from the configured issuer's own address, and that document
  names no other issuer.\<close>

theorem discovered_endpoints:
  assumes "fst (discover w now issuer (discovery_run w calls)) = Inr m"
    and "e \<in> {pm_authorization_endpoint m, pm_token_endpoint m, pm_jwks_uri m}"
  shows "(\<exists>u. pw_parse w e = Some u \<and>
      (u_protocol u = ''https:'' \<or> u_protocol u = ''http:'' \<and> is_loopback_hostname (u_hostname u))) \<and>
    pm_issuer m = strip_slashes issuer \<and>
    (\<exists>at res raw. now < at + discovery_cache_ms \<and>
       pw_fetch w at (GetDocument (strip_slashes issuer @ ''/.well-known/openid-configuration'')) = Some res \<and>
       read_bounded res = Some raw \<and>
       (\<forall>s. json_property raw ''issuer'' = Some (JStr s) \<and> s \<noteq> [] \<longrightarrow> strip_slashes s = strip_slashes issuer))"
proof -
  let ?key = "strip_slashes issuer"
  obtain at res raw where at: "now < at + discovery_cache_ms" and
    raw: "pw_fetch w at (GetDocument (?key @ ''/.well-known/openid-configuration'')) = Some res"
      "read_bounded res = Some raw" "metadata_of (pw_parse w) ?key raw = Inr m"
    using discovery_trusted(5) [OF assms(1)] by (auto simp: read_off_def)
  have "is_https_or_loopback (pw_parse w) e" using metadata_of_Inr [OF raw(3)] assms(2) by auto
  then have "\<exists>u. pw_parse w e = Some u \<and> (u_protocol u = ''https:'' \<or> u_protocol u = ''http:'' \<and> is_loopback_hostname (u_hostname u))"
    by (auto simp: is_https_or_loopback_def split: option.splits if_splits)
  then show ?thesis using at raw(1,2) metadata_of_Inr(1,5) [OF raw(3)] by blast
qed

text \<open>An address that comes out of a list.\<close>

lemma email_from_list_Some:
  assumes "email_from_list w now p token = Inr (Some email)"
  obtains vs e where "get_authorized w now (op_emails_endpoint p) token = Some (JArr vs)" "e \<in> set (usable_entries p vs)"
    "read_path e (op_email_path p) = Some email"
    "(\<exists>x \<in> set (usable_entries p vs). json_property x ''primary'' = Some (JBool True)) \<longrightarrow>
       json_property e ''primary'' = Some (JBool True)"
proof -
  obtain vs where vs: "get_authorized w now (op_emails_endpoint p) token = Some (JArr vs)"
    using assms by (auto simp: email_from_list_def split: option.splits json.splits)
  obtain e es where u: "usable_entries p vs = e # es"
    using assms vs by (auto simp: email_from_list_def split: list.splits)
  let ?find = "find (\<lambda>x. json_property x ''primary'' = Some (JBool True)) (e # es)"
  show thesis
  proof (cases ?find)
    case None
    then have "read_path e (op_email_path p) = Some email" using assms vs u by (auto simp: email_from_list_def split: if_splits)
    then show thesis using that [OF vs, of e] u None by (auto simp: find_None_iff split: if_splits)
  next
    case (Some x)
    then have x: "x \<in> set (usable_entries p vs)" "json_property x ''primary'' = Some (JBool True)"
      using Some nth_mem [of _ "e # es"] unfolding u find_Some_iff by blast+
    have "read_path x (op_email_path p) = Some email"
      using assms vs u Some by (simp add: email_from_list_def Let_def del: find.simps)
    then show thesis using that [OF vs x(1)] x(2) by blast
  qed
qed

text \<open>An address is somebody's only with proof.  The address an access token is taken to belong to has
  the form of one, and the entry it was read from affirms it: an entry of the list of addresses when one
  is configured, whatever the profile says, and a primary one when there is any; else the profile.  Where
  no other affirming value is configured, the flag is \<open>true\<close>, or that word as a text, and nothing else.\<close>

theorem oauth2_identity_proven:
  assumes "fetch_oauth2_identity w now p token = Inr i"
  shows "looks_like_address (id_email i) \<and>
    (\<exists>source path. read_path source (op_email_path p) = Some (id_email i) \<and>
       affirms (read_any source path) (op_verified_value p) \<and>
       (op_verified_value p = [] \<longrightarrow> read_any source path \<in> {Some (JBool True), Some (JStr ''true'')}) \<and>
       (if op_emails_endpoint p = []
        then path = op_verified_path p \<and> get_authorized w now (op_userinfo_endpoint p) token = Some source
        else path = (if op_verified_path p \<noteq> [] then op_verified_path p else ''verified'') \<and>
          (\<exists>vs. get_authorized w now (op_emails_endpoint p) token = Some (JArr vs) \<and> source \<in> set vs \<and>
             ((\<exists>x \<in> set (usable_entries p vs). json_property x ''primary'' = Some (JBool True)) \<longrightarrow>
                json_property source ''primary'' = Some (JBool True)))))"
proof (cases "op_emails_endpoint p = []")
  case True
  then show ?thesis using assms
    by (auto simp: fetch_oauth2_identity_def affirms_def split: option.splits if_splits)
next
  case False
  obtain email where e: "email_from_list w now p token = Inr (Some email)" "looks_like_address email" "id_email i = email"
    using assms False by (auto simp: fetch_oauth2_identity_def split: option.splits if_splits sum.splits)
  from e(1) obtain vs x where x: "get_authorized w now (op_emails_endpoint p) token = Some (JArr vs)" "x \<in> set (usable_entries p vs)"
      "read_path x (op_email_path p) = Some email"
      "(\<exists>x \<in> set (usable_entries p vs). json_property x ''primary'' = Some (JBool True)) \<longrightarrow> json_property x ''primary'' = Some (JBool True)"
    by (rule email_from_list_Some)
  let ?path = "if op_verified_path p \<noteq> [] then op_verified_path p else ''verified''"
  have "x \<in> set vs" "affirms (read_any x ?path) (op_verified_value p)"
    using x(2) by (auto simp: usable_entries_def Let_def)
  moreover from this have "op_verified_value p = [] \<longrightarrow> read_any x ?path \<in> {Some (JBool True), Some (JStr ''true'')}"
    by (auto simp: affirms_def)
  ultimately show ?thesis using False e(2,3) x by (intro conjI exI [of _ x] exI [of _ ?path]) (simp_all, blast?)
qed

subsection \<open>Sample answers\<close>

definition plain_reply :: "string \<Rightarrow> provider_response" where
  "plain_reply s = \<lparr>rp_ok = True, rp_declared = None, rp_body = Some [Chunk s]\<rparr>"

lemma plain_reply_ok [simp]: "rp_ok (plain_reply s)"
  by (simp add: plain_reply_def)

lemma read_plain_reply: "length s \<le> max_provider_body \<Longrightarrow> read_bounded (plain_reply s) = json_parse (utf8_decode s)"
proof -
  assume "length s \<le> max_provider_body"
  then have "read_chunks 0 [] [Chunk s] = Some s" using read_chunks_whole [of "[]" "[s]"] by simp
  moreover have "js_number [] = Some 0" by code_simp
  ultimately show ?thesis by (simp add: read_bounded_def plain_reply_def)
qed

definition sample_url :: url_parser where
  "sample_url raw =
     (if prefix ''https://'' raw then Some \<lparr>u_protocol = ''https:'', u_hostname = drop 8 raw, u_pathname = ''/'', u_search = [], u_hash = []\<rparr>
      else None)"

text \<open>An OpenID provider and one that keeps its addresses in a list, with an account each.\<close>

definition sample_document :: string where
  "sample_document = json_stringify (JObj
     [(''issuer'', JStr ''https://id''), (''authorization_endpoint'', JStr ''https://id/a''),
      (''token_endpoint'', JStr ''https://id/t''), (''jwks_uri'', JStr ''https://id/k'')])"

definition sample_addresses :: string where
  "sample_addresses = json_stringify (JArr
     [JObj [(''email'', JStr ''eve@corp.com''), (''verified'', JBool False)],
      JObj [(''email'', JStr ''ann@corp.com''), (''verified'', JBool True), (''primary'', JBool True)]])"

fun sample_fetch :: "provider_request \<Rightarrow> provider_response option" where
  "sample_fetch (GetDocument url) = Some (plain_reply sample_document)"
| "sample_fetch (GetAuthorized url token) = Some (plain_reply (if url = ''https://git/emails'' then sample_addresses else ''{}''))"
| "sample_fetch (PostForm url form) =
     Some (plain_reply (json_stringify (JObj [(''id_token'', JStr ''signed''), (''access_token'', JStr ''opaque'')])))"

definition sample_provider_world :: "json option \<Rightarrow> provider_world" where
  "sample_provider_world claims =
     \<lparr>pw_parse = sample_url, pw_with_params = \<lambda>u ps. u, pw_public_url = [], pw_fetch = \<lambda>now. sample_fetch,
      pw_verify = \<lambda>now jwks iss aud tok. claims\<rparr>"

definition git_provider :: oidc_provider where
  "git_provider =
     (issuer_provider ''git'' [] [])
       \<lparr>op_kind := PlainOAuth, op_authorization_endpoint := ''https://git/a'', op_token_endpoint := ''https://git/t'',
        op_userinfo_endpoint := ''https://git/user'', op_emails_endpoint := ''https://git/emails''\<rparr>"

lemma sample_discovery:
  "discover (sample_provider_world claims) now ''https://id/'' [] =
     (let m = \<lparr>pm_issuer = ''https://id'', pm_authorization_endpoint = ''https://id/a'', pm_token_endpoint = ''https://id/t'',
        pm_jwks_uri = ''https://id/k'', pm_supports_s256 = False\<rparr> in (Inr m, [(''https://id'', now, m)]))"
proof -
  have "json_parse (utf8_decode sample_document) = Some (JObj
      [(''issuer'', JStr ''https://id''), (''authorization_endpoint'', JStr ''https://id/a''),
       (''token_endpoint'', JStr ''https://id/t''), (''jwks_uri'', JStr ''https://id/k'')])" by code_simp
  moreover have "length sample_document \<le> max_provider_body"
  proof -
    have "length sample_document < 300" by code_simp
    then show ?thesis by (simp add: max_provider_body_def)
  qed
  ultimately have "read_bounded (plain_reply sample_document) = Some (JObj
      [(''issuer'', JStr ''https://id''), (''authorization_endpoint'', JStr ''https://id/a''),
       (''token_endpoint'', JStr ''https://id/t''), (''jwks_uri'', JStr ''https://id/k'')])" by (simp add: read_plain_reply)
  then show ?thesis
    by (simp add: discover_def sample_provider_world_def strip_slashes_def Let_def plain_reply_def metadata_of_def json_property_def
        json_truthy_def is_https_or_loopback_def sample_url_def js_text_of_def offers_s256_def)
qed

theorem discovered_endpoints_witness:
  "\<exists>u. sample_url ''https://id/t'' = Some u \<and>
     (u_protocol u = ''https:'' \<or> u_protocol u = ''http:'' \<and> is_loopback_hostname (u_hostname u))"
  using discovered_endpoints [of "sample_provider_world None" 7 "''https://id/''" "[]" _ "''https://id/t''"]
  by (simp add: sample_discovery Let_def) (simp add: sample_provider_world_def)

theorem oauth2_identity_proven_witness:
  "\<exists>i. fetch_oauth2_identity (sample_provider_world None) 7 git_provider ''opaque'' = Inr i \<and> looks_like_address (id_email i)"
proof -
  have j: "json_parse (utf8_decode ''{}'') = Some (JObj [])"
      "json_parse (utf8_decode sample_addresses) = Some (JArr
        [JObj [(''email'', JStr ''eve@corp.com''), (''verified'', JBool False)],
         JObj [(''email'', JStr ''ann@corp.com''), (''verified'', JBool True), (''primary'', JBool True)]])"
    by code_simp+
  have "length sample_addresses < 300" by code_simp
  then have "length sample_addresses \<le> max_provider_body" "length ''{}'' \<le> max_provider_body" by (simp_all add: max_provider_body_def)
  note r = this [THEN read_plain_reply, unfolded j]
  have a: "get_authorized (sample_provider_world None) 7 (op_emails_endpoint git_provider) ''opaque'' = Some (JArr
        [JObj [(''email'', JStr ''eve@corp.com''), (''verified'', JBool False)],
         JObj [(''email'', JStr ''ann@corp.com''), (''verified'', JBool True), (''primary'', JBool True)]])"
      "get_authorized (sample_provider_world None) 7 (op_userinfo_endpoint git_provider) ''opaque'' = Some (JObj [])"
    by (simp_all add: get_authorized_def sample_provider_world_def git_provider_def r)
  have "looks_like_address ''ann@corp.com''" by code_simp
  then have "fetch_oauth2_identity (sample_provider_world None) 7 git_provider ''opaque'' = Inr \<lparr>id_email = ''ann@corp.com'', id_name = None\<rparr>"
    by (simp add: fetch_oauth2_identity_def email_from_list_def a)
      (simp add: git_provider_def issuer_provider_def usable_entries_def is_object_def read_path_def read_any_def affirms_def json_property_def)
  then show ?thesis using oauth2_identity_proven by blast
qed

end
