(* ===== verification/SignInFlows.thy ===== *)
theory SignInFlows
  imports Base64
begin

text \<open>
  Sign-ins begun and not yet come back: the store of \<open>apps/bff/src/user/oidc/flows.ts\<close>.  The clock is
  an argument in milliseconds, one reading per operation, and so are the random bytes of a handle.
\<close>

subsection \<open>The store\<close>

record sign_in_flow =
  sf_provider :: string
  sf_state :: string
  sf_nonce :: string
  sf_verifier :: string
  sf_next :: string

definition max_flows :: nat where "max_flows = 10000"

record flow_store =
  fw_flows :: "(string, sign_in_flow \<times> nat) jsmap"
  fw_last_sweep :: nat

definition new_flow_store :: flow_store where
  "new_flow_store = \<lparr>fw_flows = [], fw_last_sweep = 0\<rparr>"

definition flow_handle :: "string \<Rightarrow> string" where
  "flow_handle entropy = b64url_encode entropy"

text \<open>The sweep stops at the first entry still in time.\<close>

definition sweep_flows :: "nat \<Rightarrow> nat \<Rightarrow> flow_store \<Rightarrow> flow_store" where
  "sweep_flows ttl now st =
     st\<lparr>fw_flows := dropWhile (\<lambda>e. \<not> int (snd (snd e)) \<ge> int now - int ttl) (fw_flows st)\<rparr>"

definition maybe_sweep :: "nat \<Rightarrow> nat \<Rightarrow> flow_store \<Rightarrow> flow_store" where
  "maybe_sweep ttl now st =
     (if int now - int (fw_last_sweep st) < int ttl then st
      else sweep_flows ttl now (st\<lparr>fw_last_sweep := now\<rparr>))"

fun evict_oldest :: "(string, sign_in_flow \<times> nat) jsmap \<Rightarrow> (string, sign_in_flow \<times> nat) jsmap" where
  "evict_oldest [] = []"
| "evict_oldest (e # fs) = (if max_flows \<le> length (e # fs) then evict_oldest fs else e # fs)"

definition put_flow :: "nat \<Rightarrow> nat \<Rightarrow> string \<Rightarrow> sign_in_flow \<Rightarrow> flow_store \<Rightarrow> string \<times> flow_store" where
  "put_flow ttl now entropy f st =
     (let st = maybe_sweep ttl now st; kept = evict_oldest (fw_flows st); h = flow_handle entropy in
      (h, st\<lparr>fw_flows := map_put h (f, now) kept\<rparr>))"

definition take_flow :: "nat \<Rightarrow> nat \<Rightarrow> string option \<Rightarrow> flow_store \<Rightarrow> sign_in_flow option \<times> flow_store" where
  "take_flow ttl now h st =
     (if \<not> truthy h then (None, st)
      else (case map_of (fw_flows st) (the h) of
              None \<Rightarrow> (None, st)
            | Some (f, at) \<Rightarrow>
                (if int now - int at > int ttl then None else Some f,
                 st\<lparr>fw_flows := map_del (the h) (fw_flows st)\<rparr>)))"

subsection \<open>A store run through a sequence of calls\<close>

datatype flow_call = PutFlow string sign_in_flow nat | TakeFlow "string option" nat

fun flow_call_time :: "flow_call \<Rightarrow> nat" where
  "flow_call_time (PutFlow e f t) = t"
| "flow_call_time (TakeFlow h t) = t"

fun is_put :: "flow_call \<Rightarrow> bool" where
  "is_put (PutFlow e f t) = True"
| "is_put (TakeFlow h t) = False"

fun flow_step :: "nat \<Rightarrow> flow_call \<Rightarrow> flow_store \<Rightarrow> flow_store" where
  "flow_step ttl (PutFlow e f t) st = snd (put_flow ttl t e f st)"
| "flow_step ttl (TakeFlow h t) st = snd (take_flow ttl t h st)"

text \<open>The calls so far, the latest first.\<close>

primrec flow_run :: "nat \<Rightarrow> flow_call list \<Rightarrow> flow_store" where
  "flow_run ttl [] = new_flow_store"
| "flow_run ttl (c # cs) = flow_step ttl c (flow_run ttl cs)"

subsection \<open>Lemmas\<close>

lemma flow_handle_inject: "flow_handle e = flow_handle e' \<longleftrightarrow> e = e'"
  by (simp add: flow_handle_def b64url_encode_inject)

lemma flow_handle_Nil: "flow_handle [] = []"
  by code_simp

lemma evict_oldest_drop: "evict_oldest fs = drop (length fs - (max_flows - 1)) fs"
proof (induction fs)
  case (Cons e fs)
  have "9999 \<le> length fs \<Longrightarrow> length fs - 9998 = Suc (length fs - 9999)" by arith
  then show ?case using Cons by (auto simp: max_flows_def)
qed simp

lemma evict_oldest_bound: "length (evict_oldest fs) < max_flows"
  by (simp add: evict_oldest_drop max_flows_def)

lemma length_map_put: "length (map_put k v m) \<le> Suc (length m)"
  by (induction k v m rule: map_put.induct) auto

lemma length_map_del: "length (map_del k m) \<le> length m"
  by (simp add: map_del_def)

lemma maybe_sweep_suffix: "\<exists>n. fw_flows (maybe_sweep ttl now st) = drop n (fw_flows st)"
proof -
  have "\<exists>n. dropWhile P xs = drop n xs" for P and xs :: "(string, sign_in_flow \<times> nat) jsmap"
    by (metis dropWhile_eq_drop)
  then show ?thesis by (auto simp: maybe_sweep_def sweep_flows_def intro: exI [of _ 0])
qed

lemma put_flow_kept: "\<exists>n. fw_flows (snd (put_flow ttl now e f st)) = map_put (flow_handle e) (f, now) (drop n (fw_flows st))"
proof -
  obtain n where "fw_flows (maybe_sweep ttl now st) = drop n (fw_flows st)" using maybe_sweep_suffix by blast
  then show ?thesis by (auto simp: put_flow_def Let_def evict_oldest_drop)
qed

lemma take_flow_kept:
  "fw_flows (snd (take_flow ttl now h st)) = (if truthy h then map_del (the h) (fw_flows st) else fw_flows st)"
  by (auto simp: take_flow_def map_del_def map_of_eq_None_iff image_iff intro!: filter_True [symmetric] split: option.split)

lemma flow_run_distinct: "distinct (map fst (fw_flows (flow_run ttl cs)))"
proof (induction cs)
  case (Cons c cs)
  show ?case
  proof (cases c)
    case (PutFlow e f t)
    obtain n where "fw_flows (snd (put_flow ttl t e f (flow_run ttl cs))) =
        map_put (flow_handle e) (f, t) (drop n (fw_flows (flow_run ttl cs)))" using put_flow_kept by blast
    then show ?thesis using Cons PutFlow by (simp add: distinct_map_put drop_map [symmetric])
  next
    case (TakeFlow h t)
    then show ?thesis using Cons by (simp add: take_flow_kept distinct_map_del)
  qed
qed (simp add: new_flow_store_def)

lemma entry_was_put:
  "map_of (fw_flows (flow_run ttl cs)) h = Some (f, t) \<Longrightarrow>
   \<exists>later e earlier. cs = later @ PutFlow e f t # earlier \<and> flow_handle e = h \<and>
     (\<forall>u. TakeFlow (Some h) u \<in> set later \<longrightarrow> h = [])"
proof (induction cs)
  case (Cons c cs)
  have older: ?case if old: "map_of (fw_flows (flow_run ttl cs)) h = Some (f, t)" and c: "\<And>u. c = TakeFlow (Some h) u \<Longrightarrow> h = []"
  proof -
    obtain later e earlier where "cs = later @ PutFlow e f t # earlier" "flow_handle e = h"
        "\<forall>u. TakeFlow (Some h) u \<in> set later \<longrightarrow> h = []" using Cons.IH [OF old] by blast
    then show ?thesis using c by (intro exI [of _ "c # later"]) auto
  qed
  show ?case
  proof (cases c)
    case (PutFlow e g u)
    obtain n where n: "fw_flows (flow_run ttl (c # cs)) = map_put (flow_handle e) (g, u) (drop n (fw_flows (flow_run ttl cs)))"
      using put_flow_kept [of ttl u e g] PutFlow by auto
    show ?thesis
    proof (cases "flow_handle e = h")
      case True
      then have "c # cs = [] @ PutFlow e f t # cs" using Cons.prems n PutFlow by simp
      then show ?thesis using True by fastforce
    next
      case False
      then have "(h, (f, t)) \<in> set (drop n (fw_flows (flow_run ttl cs)))" using Cons.prems n by (auto dest: map_of_SomeD)
      then have "(h, (f, t)) \<in> set (fw_flows (flow_run ttl cs))" by (rule in_set_dropD)
      then show ?thesis using older flow_run_distinct PutFlow by simp
    qed
  next
    case (TakeFlow g u)
    then show ?thesis using Cons.prems older by (auto simp: take_flow_kept truthy_def split: if_splits option.splits)
  qed
qed (simp add: new_flow_store_def)

text \<open>How an entry stays where it is while others come and go.\<close>

lemma map_put_around:
  assumes "k \<noteq> h"
  shows "\<exists>pre' post'. map_put k v (pre @ (h, x) # post) = pre' @ (h, x) # post' \<and>
    fst ` set pre' = fst ` set pre \<and> length post' \<le> Suc (length post)"
proof (induction pre)
  case Nil
  have "map_put k v ([] @ (h, x) # post) = [] @ (h, x) # map_put k v post" using assms by simp
  then show ?case using length_map_put [of k v post] by blast
next
  case (Cons e pre)
  obtain k' v' where e: "e = (k', v')" by fastforce
  show ?case
  proof (cases "k = k'")
    case True
    then have "map_put k v ((e # pre) @ (h, x) # post) = ((k, v) # pre) @ (h, x) # post" by (simp add: e)
    moreover have "fst ` set ((k, v) # pre) = fst ` set (e # pre)" using True e by simp
    ultimately show ?thesis by (metis le_SucI order_refl)
  next
    case False
    obtain pre' post' where "map_put k v (pre @ (h, x) # post) = pre' @ (h, x) # post'"
      "fst ` set pre' = fst ` set pre" "length post' \<le> Suc (length post)" using Cons by blast
    then have "map_put k v ((e # pre) @ (h, x) # post) = (e # pre') @ (h, x) # post'"
        "fst ` set (e # pre') = fst ` set (e # pre)" using False e by auto
    then show ?thesis using \<open>length post' \<le> Suc (length post)\<close> by blast
  qed
qed

lemma map_put_fresh: "k \<notin> fst ` set m \<Longrightarrow> map_put k v m = m @ [(k, v)]"
  by (induction k v m rule: map_put.induct) auto

lemma dropWhile_around: "\<not> P x \<Longrightarrow> \<exists>n \<le> length pre. dropWhile P (pre @ x # post) = drop n pre @ x # post"
proof (induction pre)
  case (Cons e pre)
  then obtain n where n: "n \<le> length pre" "dropWhile P (pre @ x # post) = drop n pre @ x # post" by blast
  show ?case
  proof (cases "P e")
    case True
    then show ?thesis using n by (intro exI [of _ "Suc n"]) simp
  qed (auto intro: exI [of _ 0])
qed simp

lemma put_flow_around:
  assumes "fw_flows st = pre @ (h, (f, t)) # post" "h \<notin> fst ` set pre" "flow_handle e \<noteq> h"
    and "now \<le> t + ttl" "length post + 1 < max_flows"
  shows "\<exists>pre' post'. fw_flows (snd (put_flow ttl now e g st)) = pre' @ (h, (f, t)) # post' \<and> h \<notin> fst ` set pre' \<and>
    length post' \<le> Suc (length post)"
proof -
  have "\<exists>n \<le> length pre. fw_flows (maybe_sweep ttl now st) = drop n pre @ (h, (f, t)) # post"
    using assms(1,4) dropWhile_around [of "\<lambda>e. \<not> int (snd (snd e)) \<ge> int now - int ttl" "(h, (f, t))" pre post]
    by (auto simp: maybe_sweep_def sweep_flows_def intro: exI [of _ 0])
  then obtain n where n: "fw_flows (maybe_sweep ttl now st) = drop n pre @ (h, (f, t)) # post" by blast
  define m where "m = length (drop n pre @ (h, (f, t)) # post) - (max_flows - 1)"
  have "m \<le> length (drop n pre)" using assms(5) by (simp add: m_def max_flows_def)
  then have "drop m (drop n pre @ (h, (f, t)) # post) = drop m (drop n pre) @ (h, (f, t)) # post"
    by (metis append.left_neutral diff_is_0_eq' drop0 drop_append)
  then have kept: "evict_oldest (fw_flows (maybe_sweep ttl now st)) = drop m (drop n pre) @ (h, (f, t)) # post"
    unfolding n evict_oldest_drop m_def [symmetric] .
  obtain pre' post' where p: "map_put (flow_handle e) (g, now) (drop m (drop n pre) @ (h, (f, t)) # post) = pre' @ (h, (f, t)) # post'"
      "fst ` set pre' = fst ` set (drop m (drop n pre))" "length post' \<le> Suc (length post)"
    using map_put_around [OF assms(3), of "(g, now)" "drop m (drop n pre)" "(f, t)" post] by (elim exE conjE)
  have "set (drop m (drop n pre)) \<subseteq> set pre" using set_drop_subset [of "m + n" pre] by simp
  then have "h \<notin> fst ` set pre'" unfolding p(2) using assms(2) by (meson image_mono subsetD)
  moreover have "fw_flows (snd (put_flow ttl now e g st)) = pre' @ (h, (f, t)) # post'"
    unfolding put_flow_def Let_def kept p(1) by simp
  ultimately show ?thesis using p(3) by blast
qed

lemma handle_was_put: "h \<in> fst ` set (fw_flows (flow_run ttl cs)) \<Longrightarrow> \<exists>e f t. PutFlow e f t \<in> set cs \<and> flow_handle e = h"
proof -
  assume "h \<in> fst ` set (fw_flows (flow_run ttl cs))"
  then obtain f t where "map_of (fw_flows (flow_run ttl cs)) h = Some (f, t)"
    by (metis map_of_eq_None_iff not_None_eq surj_pair)
  from entry_was_put [OF this] show ?thesis by (metis in_set_conv_decomp)
qed

lemma flow_kept:
  assumes "\<forall>e' f' t'. PutFlow e' f' t' \<in> set later \<union> set earlier \<longrightarrow> flow_handle e' \<noteq> flow_handle e"
    and "\<forall>u. TakeFlow (Some (flow_handle e)) u \<notin> set later"
    and "\<forall>c \<in> set later. flow_call_time c \<le> t + ttl" and "length (filter is_put later) < max_flows"
  shows "\<exists>pre post. fw_flows (flow_run ttl (later @ PutFlow e f t # earlier)) = pre @ (flow_handle e, (f, t)) # post \<and>
    flow_handle e \<notin> fst ` set pre \<and> length post \<le> length (filter is_put later)"
  using assms
proof (induction later)
  case Nil
  let ?st = "flow_run ttl earlier" and ?h = "flow_handle e"
  obtain n where n: "fw_flows (snd (put_flow ttl t e f ?st)) = map_put ?h (f, t) (drop n (fw_flows ?st))" using put_flow_kept by blast
  have "?h \<notin> fst ` set (fw_flows ?st)" using handle_was_put [of ?h ttl earlier] Nil.prems(1) by auto
  then have "?h \<notin> fst ` set (drop n (fw_flows ?st))" by (auto dest: in_set_dropD)
  then show ?case using n by (auto simp: map_put_fresh)
next
  case (Cons c later)
  let ?h = "flow_handle e" and ?st = "flow_run ttl (later @ PutFlow e f t # earlier)"
  obtain pre post where IH: "fw_flows ?st = pre @ (?h, (f, t)) # post" "?h \<notin> fst ` set pre" "length post \<le> length (filter is_put later)"
    using Cons by (auto split: if_splits)
  show ?case
  proof (cases c)
    case (PutFlow e' g u)
    have "flow_handle e' \<noteq> ?h" "u \<le> t + ttl" "length post + 1 < max_flows" using Cons.prems IH(3) PutFlow by auto
    from put_flow_around [OF IH(1,2) this] show ?thesis using IH(3) PutFlow by fastforce
  next
    case (TakeFlow h' u)
    then have "truthy h' \<Longrightarrow> the h' \<noteq> ?h" using Cons.prems(2) by (cases h') auto
    then have "truthy h' \<Longrightarrow> map_del (the h') (fw_flows ?st) = map_del (the h') pre @ (?h, (f, t)) # map_del (the h') post"
      using IH(1) by (simp add: map_del_def)
    moreover have "?h \<notin> fst ` set (map_del (the h') pre)" "length (map_del (the h') post) \<le> length (filter is_put later)"
      using IH(2) le_trans [OF length_map_del IH(3)] by (auto simp: map_del_def)
    ultimately show ?thesis using IH TakeFlow by (cases "truthy h'") (auto simp: take_flow_kept)
  qed
qed

subsection \<open>Properties\<close>

text \<open>The store of sign-ins under way never holds more than 10,000, however often an anonymous caller
  begins one, and holds one entry a handle.\<close>

theorem flows_bounded:
  "length (fw_flows (flow_run ttl cs)) \<le> max_flows \<and> distinct (map fst (fw_flows (flow_run ttl cs)))"
proof (intro conjI flow_run_distinct)
  show "length (fw_flows (flow_run ttl cs)) \<le> max_flows"
  proof (induction cs)
    case (Cons c cs)
    show ?case
    proof (cases c)
      case (PutFlow e f t)
      let ?kept = "evict_oldest (fw_flows (maybe_sweep ttl t (flow_run ttl cs)))"
      have "length (map_put (flow_handle e) (f, t) ?kept) \<le> max_flows"
        using length_map_put [of "flow_handle e" "(f, t)" ?kept] evict_oldest_bound [of "fw_flows (maybe_sweep ttl t (flow_run ttl cs))"]
        by linarith
      then show ?thesis using PutFlow by (simp add: put_flow_def Let_def)
    next
      case (TakeFlow h t)
      then show ?thesis using Cons length_map_del [of "the h" "fw_flows (flow_run ttl cs)"] by (auto simp: take_flow_kept)
    qed
  qed (simp add: new_flow_store_def)
qed

text \<open>The flow a handle gives up: the latest put under it, in time, and given up for the first time.\<close>

lemma taken_was_put:
  assumes "fst (take_flow ttl now h (flow_run ttl cs)) = Some f"
  shows "\<exists>later e t earlier. cs = later @ PutFlow e f t # earlier \<and> h = Some (flow_handle e) \<and> now \<le> t + ttl \<and>
    (\<forall>u. TakeFlow h u \<notin> set later)"
proof -
  obtain x t where x: "h = Some x" "x \<noteq> []" "map_of (fw_flows (flow_run ttl cs)) x = Some (f, t)" "now \<le> t + ttl"
    using assms by (auto simp: take_flow_def truthy_def split: if_splits option.splits)
  from entry_was_put [OF x(3)] show ?thesis using x by blast
qed

lemma flow_found:
  assumes "\<forall>e' f' t'. PutFlow e' f' t' \<in> set later \<union> set earlier \<longrightarrow> e' \<noteq> e"
    and "\<forall>u. TakeFlow (Some (flow_handle e)) u \<notin> set later" and "e \<noteq> []"
    and "\<forall>c \<in> set later. flow_call_time c \<le> t + ttl" and "length (filter is_put later) < max_flows" and "now \<le> t + ttl"
  shows "fst (take_flow ttl now (Some (flow_handle e)) (flow_run ttl (later @ PutFlow e f t # earlier))) = Some f"
proof -
  have "\<forall>e' f' t'. PutFlow e' f' t' \<in> set later \<union> set earlier \<longrightarrow> flow_handle e' \<noteq> flow_handle e"
    using assms(1) by (simp add: flow_handle_inject)
  from flow_kept [OF this assms(2,4,5)]
  obtain pre post where p: "fw_flows (flow_run ttl (later @ PutFlow e f t # earlier)) = pre @ (flow_handle e, (f, t)) # post"
      "flow_handle e \<notin> fst ` set pre" by blast
  then have "map_of (fw_flows (flow_run ttl (later @ PutFlow e f t # earlier))) (flow_handle e) = Some (f, t)"
    by (auto simp: map_add_Some_iff map_of_eq_None_iff)
  moreover have "flow_handle e \<noteq> []" using assms(3) flow_handle_inject [of e "[]"] flow_handle_Nil by simp
  ultimately show ?thesis using assms(6) by (simp add: take_flow_def)
qed

text \<open>A person on the way back from the provider is still known.  A handle drawn once and not
  presented yet gives up the very attempt it was drawn for, at any moment within the time-to-live, as
  long as fewer than 10,000 others were begun meanwhile.\<close>

theorem flow_survives:
  assumes "\<forall>e' f' t'. PutFlow e' f' t' \<in> set later \<union> set earlier \<longrightarrow> e' \<noteq> e"
    and "\<forall>u. TakeFlow (Some (flow_handle e)) u \<notin> set later" and "e \<noteq> []"
    and "\<forall>c \<in> set later. flow_call_time c \<le> t + ttl" and "length (filter is_put later) < max_flows" and "now \<le> t + ttl"
  shows "fst (take_flow ttl now (Some (flow_handle e)) (flow_run ttl (later @ PutFlow e f t # earlier))) = Some f"
  by (rule flow_found [OF assms])

theorem flow_survives_witness:
  "fst (take_flow 600000 600007 (Some (flow_handle ''abc''))
     (flow_run 600000 [TakeFlow (Some ''x'') 9, PutFlow ''abc'' \<lparr>sf_provider = ''google'', sf_state = ''s'', sf_nonce = ''n'',
        sf_verifier = ''v'', sf_next = ''/''\<rparr> 7])) \<noteq> None"
proof -
  have "b64url_encode ''abc'' \<noteq> ''x''" by code_simp
  then show ?thesis
    using flow_survives [of "[TakeFlow (Some ''x'') 9]" "[]" "''abc''" 7 600000 600007
        "\<lparr>sf_provider = ''google'', sf_state = ''s'', sf_nonce = ''n'', sf_verifier = ''v'', sf_next = ''/''\<rparr>"]
    by (simp add: flow_handle_def max_flows_def)
qed

end
