(* ===== verification/Sso.thy ===== *)
theory Sso
  imports Provider SignInFlows
begin

text \<open>
  Signing in with an external identity provider: \<open>apps/bff/src/user/oidc/route.ts\<close>, up to the verdict on
  the person who came back; the session a verdict opens is in \<open>Login\<close>.  The random texts of an attempt
  are arguments, and so is the request's own origin; the library that verifies an ID token against a key
  set is a parameter that gives the claims of a token it accepts.
\<close>

subsection \<open>Paths and addresses\<close>

type_synonym query = "string \<Rightarrow> string option"

text \<open>\<open>encodeURIComponent\<close>, on the bytes of a text.\<close>

definition uri_component_char :: "char \<Rightarrow> string" where
  "uri_component_char c =
     (if is_upper c \<or> is_lower c \<or> is_digit c \<or>
         c \<in> {CHR ''-'', CHR ''_'', CHR ''.'', CHR ''!'', CHR ''~'', CHR ''*'', CHR 0x27, CHR ''('', CHR '')''} then [c]
      else CHR ''%'' # to_upper [hex_digit (of_char c div 16), hex_digit (of_char c mod 16)])"

definition encode_uri_component :: "string \<Rightarrow> string" where
  "encode_uri_component s = concat (map uri_component_char s)"

definition ui_base_path :: "url_parser \<Rightarrow> string \<Rightarrow> string" where
  "ui_base_path parse public_url =
     (if public_url = [] then []
      else (case parse public_url of Some u \<Rightarrow> strip_slashes (u_pathname u) | None \<Rightarrow> []))"

definition safe_next :: "string option \<Rightarrow> string" where
  "safe_next raw =
     (case raw of
        None \<Rightarrow> ''/''
      | Some s \<Rightarrow>
          if \<not> prefix ''/'' s then ''/''
          else if list_ex (\<lambda>c. (of_char c :: nat) \<le> 31 \<or> (of_char c :: nat) = 127) s then ''/''
          else if prefix ''//'' s \<or> CHR 0x5C \<in> set s \<or> CHR '':'' \<in> set s then ''/''
          else s)"

definition constant_time_equal :: "string \<Rightarrow> string \<Rightarrow> bool" where
  "constant_time_equal a b \<longleftrightarrow> utf8_encode a = utf8_encode b"

definition callback_uri :: "string \<Rightarrow> string \<Rightarrow> string" where
  "callback_uri public_url origin = (if public_url \<noteq> [] then strip_slashes public_url else origin) @ ''/api/auth/oidc/callback''"

definition fail_target :: "provider_world \<Rightarrow> string \<Rightarrow> string" where
  "fail_target w reason =
     ui_base_path (pw_parse w) (pw_public_url w) @ ''/login?sso_error='' @ encode_uri_component reason"

subsection \<open>What the login page offers\<close>

record provider_button =
  pb_id :: string
  pb_display_name :: string
  pb_icon :: string

definition offered_providers :: "horizon_config \<Rightarrow> bool \<times> provider_button list" where
  "offered_providers cfg =
     (let auth = cfg_auth cfg in
      ((auth_backend_kind auth = LdapBackend \<and> auth_ldap auth \<noteq> None) \<or> 0 < length (local_users auth),
       map (\<lambda>p. \<lparr>pb_id = op_id p, pb_display_name = (if op_display_name p \<noteq> [] then op_display_name p else op_id p),
                 pb_icon = op_icon p\<rparr>) (sso_providers (auth_sso auth))))"

subsection \<open>Beginning\<close>

definition flow_ttl_ms :: nat where "flow_ttl_ms = 600000"

record sso_state =
  so_flows :: flow_store
  so_discovered :: discovery_cache

text \<open>The cookie that names an attempt, and where a browser sends it.\<close>

record flow_cookie =
  fk_handle :: string
  fk_secure :: bool
  fk_path :: string
  fk_max_age :: nat

definition flow_cookie_path :: "provider_world \<Rightarrow> string" where
  "flow_cookie_path w = ui_base_path (pw_parse w) (pw_public_url w) @ ''/api/auth/oidc''"

datatype start_reply = StartFailed string | StartRaised | ToProvider string flow_cookie

record drawn_texts =
  dr_state :: string
  dr_nonce :: string
  dr_verifier :: string
  dr_handle :: string

definition begun_flow :: "drawn_texts \<Rightarrow> oidc_provider \<Rightarrow> query \<Rightarrow> sign_in_flow" where
  "begun_flow dr p q =
     \<lparr>sf_provider = op_id p, sf_state = b64url_encode (dr_state dr), sf_nonce = b64url_encode (dr_nonce dr),
      sf_verifier = b64url_encode (dr_verifier dr), sf_next = safe_next (q ''next'')\<rparr>"

definition authorize_params :: "provider_world \<Rightarrow> oidc_provider \<Rightarrow> string \<Rightarrow> sign_in_flow \<Rightarrow> (string \<times> string) list" where
  "authorize_params w p origin flow =
     (let scopes = (if op_kind p = OpenId then [''openid'', ''email'', ''profile''] @ op_scopes p else op_scopes p) in
      [(''response_type'', ''code''), (''client_id'', op_client_id p),
       (''redirect_uri'', callback_uri (pw_public_url w) origin)] @
      (if 0 < length scopes then [(''scope'', join_with '' '' scopes)] else []) @
      [(''state'', sf_state flow)] @
      (if op_kind p = OpenId then [(''nonce'', sf_nonce flow)] else []) @
      [(''code_challenge'', b64url_encode (sha256 (utf8_encode (sf_verifier flow)))), (''code_challenge_method'', ''S256'')])"

definition chosen_provider :: "horizon_config \<Rightarrow> query \<Rightarrow> oidc_provider option" where
  "chosen_provider cfg q =
     (if truthy (q ''provider'') then find_provider cfg (the (q ''provider''))
      else (case sso_providers (auth_sso (cfg_auth cfg)) of p # ps \<Rightarrow> Some p | [] \<Rightarrow> None))"

definition sso_start ::
  "provider_world \<Rightarrow> horizon_config \<Rightarrow> nat \<Rightarrow> drawn_texts \<Rightarrow> string \<Rightarrow> query \<Rightarrow> sso_state \<Rightarrow> start_reply \<times> sso_state" where
  "sso_start w cfg now dr origin q st =
     (if \<not> oidc_enabled cfg then (StartFailed ''sso_not_configured'', st)
      else (case chosen_provider cfg q of
              None \<Rightarrow> (StartFailed ''unknown_provider'', st)
            | Some p \<Rightarrow>
      if op_client_secret p = [] then (StartFailed ''sso_not_configured'', st)
      else (case (if op_kind p = OpenId
                  then (case discover w now (op_issuer p) (so_discovered st) of
                          (Inr m, d) \<Rightarrow> (Some (pm_authorization_endpoint m), d)
                        | (Inl e, d) \<Rightarrow> (None, d))
                  else (Some (op_authorization_endpoint p), so_discovered st)) of
              (None, d) \<Rightarrow> (StartFailed ''provider_unreachable'', st\<lparr>so_discovered := d\<rparr>)
            | (Some endpoint, d) \<Rightarrow>
                (let flow = begun_flow dr p q in
                 case put_flow flow_ttl_ms now (dr_handle dr) flow (so_flows st) of
                   (h, fl) \<Rightarrow>
                     (case pw_parse w endpoint of
                        None \<Rightarrow> StartRaised
                      | Some u \<Rightarrow> ToProvider (pw_with_params w endpoint (authorize_params w p origin flow))
                          \<lparr>fk_handle = h, fk_secure = session_cookie_secure (cfg_session cfg), fk_path = flow_cookie_path w,
                           fk_max_age = flow_ttl_ms div 1000\<rparr>,
                      \<lparr>so_flows = fl, so_discovered = d\<rparr>)))))"

subsection \<open>Coming back\<close>

record callback_request =
  cb_query :: query
  cb_handle :: "string option"
  cb_origin :: string

text \<open>Where a provider redeems codes, the address of its keys and the issuer its tokens must name.\<close>

record provider_endpoints =
  pe_token :: string
  pe_jwks :: string
  pe_issuer :: string

definition endpoints_of ::
  "provider_world \<Rightarrow> nat \<Rightarrow> oidc_provider \<Rightarrow> discovery_cache \<Rightarrow> (string + provider_endpoints) \<times> discovery_cache" where
  "endpoints_of w now p d =
     (if op_kind p = OpenId
      then (case discover w now (op_issuer p) d of
              (Inr m, d') \<Rightarrow>
                (Inr \<lparr>pe_token = pm_token_endpoint m, pe_jwks = pm_jwks_uri m, pe_issuer = pm_issuer m\<rparr>, d')
            | (Inl CannotDiscover, d') \<Rightarrow> (Inl ''provider_unreachable'', d')
            | (Inl DiscoveryFault, d') \<Rightarrow> (Inl ''sso_failed'', d'))
      else (Inr \<lparr>pe_token = op_token_endpoint p, pe_jwks = [], pe_issuer = []\<rparr>, d))"

definition code_form :: "provider_world \<Rightarrow> oidc_provider \<Rightarrow> string \<Rightarrow> string \<Rightarrow> string \<Rightarrow> (string \<times> string) list" where
  "code_form w p origin code verifier =
     [(''grant_type'', ''authorization_code''), (''code'', code), (''redirect_uri'', callback_uri (pw_public_url w) origin),
      (''client_id'', op_client_id p), (''client_secret'', op_client_secret p), (''code_verifier'', verifier)]"

definition exchange_code ::
  "provider_world \<Rightarrow> nat \<Rightarrow> oidc_provider \<Rightarrow> string \<Rightarrow> (string \<times> string) list \<Rightarrow> string + json" where
  "exchange_code w now p endpoint form =
     (case pw_fetch w now (PostForm endpoint form) of
        None \<Rightarrow> Inl ''provider_unreachable''
      | Some res \<Rightarrow>
          (case read_bounded res of
             None \<Rightarrow> Inl ''provider_unreachable''
           | Some tokens \<Rightarrow>
               if tokens = JNull then Inl ''provider_unreachable''
               else if \<not> rp_ok res \<or>
                 \<not> json_truthy (json_property tokens (if op_kind p = OpenId then ''id_token'' else ''access_token''))
               then Inl ''sso_failed''
               else Inr tokens))"

record id_claims =
  ic_email :: "string option"
  ic_email_verified :: "json option"
  ic_name :: "string option"
  ic_preferred_username :: "string option"
  ic_nonce :: "string option"

definition read_id_claims :: "json \<Rightarrow> id_claims" where
  "read_id_claims payload =
     \<lparr>ic_email = as_string (json_property payload ''email''), ic_email_verified = json_property payload ''email_verified'',
      ic_name = as_string (json_property payload ''name''),
      ic_preferred_username = as_string (json_property payload ''preferred_username''),
      ic_nonce = as_string (json_property payload ''nonce'')\<rparr>"

text \<open>The address the tokens prove, in lower case, and a name to show.\<close>

definition identify ::
  "provider_world \<Rightarrow> nat \<Rightarrow> oidc_provider \<Rightarrow> provider_endpoints \<Rightarrow> sign_in_flow \<Rightarrow> json \<Rightarrow> string + string \<times> string option" where
  "identify w now p pe flow tokens =
     (if op_kind p = OpenId
      then (case Option.bind (as_string (json_property tokens ''id_token''))
                   (pw_verify w now (pe_jwks pe) (pe_issuer pe) (op_client_id p)) of
              None \<Rightarrow> Inl ''sso_failed''
            | Some payload \<Rightarrow>
                (let claims = read_id_claims payload in
                 if \<not> truthy (ic_nonce claims) \<or> \<not> constant_time_equal (or_empty (ic_nonce claims)) (sf_nonce flow)
                 then Inl ''sso_failed''
                 else if js_text_of (ic_email_verified claims) \<noteq> ''true'' then Inl ''email_not_verified''
                 else Inr (to_lower (or_empty (ic_email claims)),
                           case ic_name claims of Some n \<Rightarrow> Some n | None \<Rightarrow> ic_preferred_username claims)))
      else (case fetch_oauth2_identity w now p (js_text_of (json_property tokens ''access_token'')) of
              Inl IdentityUnreachable \<Rightarrow> Inl ''provider_unreachable''
            | Inl NoUsableAddress \<Rightarrow> Inl ''no_email''
            | Inr i \<Rightarrow> Inr (to_lower (id_email i), id_name i)))"

datatype sso_verdict =
    SsoRefused string
  | SsoWithoutRoles oidc_provider string
  | SsoLetIn oidc_provider string "string list" "string option" string

definition judge :: "horizon_config \<Rightarrow> oidc_provider \<Rightarrow> sign_in_flow \<Rightarrow> string \<times> string option \<Rightarrow> sso_verdict" where
  "judge cfg p flow who =
     (case who of (email, shown) \<Rightarrow>
        if email = [] then SsoRefused ''no_email''
        else if \<not> domain_allowed p email then SsoRefused ''domain_not_allowed''
        else (let roles = roles_for_email (sso_role_table (auth_sso (cfg_auth cfg))) email in
          if length roles = 0 \<and> rbac_enabled (cfg_rbac cfg) then SsoWithoutRoles p email
          else SsoLetIn p email roles shown (sf_next flow)))"

definition complete_flow ::
  "provider_world \<Rightarrow> horizon_config \<Rightarrow> nat \<Rightarrow> sign_in_flow \<Rightarrow> callback_request \<Rightarrow> discovery_cache \<Rightarrow>
   sso_verdict \<times> discovery_cache" where
  "complete_flow w cfg now flow cb d =
     (case find_provider cfg (sf_provider flow) of
        None \<Rightarrow> (SsoRefused ''unknown_provider'', d)
      | Some p \<Rightarrow>
          (case endpoints_of w now p d of
             (Inl reason, d') \<Rightarrow> (SsoRefused reason, d')
           | (Inr pe, d') \<Rightarrow>
               (case exchange_code w now p (pe_token pe)
                       (code_form w p (cb_origin cb) (or_empty (cb_query cb ''code'')) (sf_verifier flow)) of
                  Inl reason \<Rightarrow> SsoRefused reason
                | Inr tokens \<Rightarrow>
                    (case identify w now p pe flow tokens of
                       Inl reason \<Rightarrow> SsoRefused reason
                     | Inr who \<Rightarrow> judge cfg p flow who), d')))"

definition sso_verdict_of ::
  "provider_world \<Rightarrow> horizon_config \<Rightarrow> nat \<Rightarrow> callback_request \<Rightarrow> sso_state \<Rightarrow> sso_verdict \<times> sso_state" where
  "sso_verdict_of w cfg now cb st =
     (if \<not> oidc_enabled cfg then (SsoRefused ''sso_not_configured'', st)
      else if truthy (cb_query cb ''error'') then (SsoRefused (the (cb_query cb ''error'')), st)
      else (case take_flow flow_ttl_ms now (cb_handle cb) (so_flows st) of
              (None, fl) \<Rightarrow> (SsoRefused ''login_expired'', st\<lparr>so_flows := fl\<rparr>)
            | (Some flow, fl) \<Rightarrow>
                (let st = st\<lparr>so_flows := fl\<rparr> in
                 if \<not> truthy (cb_query cb ''state'') \<or> \<not> constant_time_equal (the (cb_query cb ''state'')) (sf_state flow)
                 then (SsoRefused ''state_mismatch'', st)
                 else if \<not> truthy (cb_query cb ''code'') then (SsoRefused ''no_code'', st)
                 else (case complete_flow w cfg now flow cb (so_discovered st) of
                         (v, d) \<Rightarrow> (v, st\<lparr>so_discovered := d\<rparr>)))))"

end
