(* ===== verification/Login.thy ===== *)
theory Login
  imports Sso
begin

text \<open>
  Signing in and out: with a password, \<open>apps/bff/src/http/user.ts\<close>, and the session a person who came back
  from a provider gets, the end of \<open>apps/bff/src/user/oidc/route.ts\<close>; and the server as the sequence of
  sign-ins, sign-outs and requests it answers.  The hash verifier and the directory are parameters; the
  audit rows handed to the audit service are a list.
\<close>

subsection \<open>Signing in\<close>

definition max_username_chars :: nat where "max_username_chars = 64"
definition max_password_chars :: nat where "max_password_chars = 64"

text \<open>The body's schema: an object with two texts of one to 64 characters.\<close>

definition bounded_text :: "nat \<Rightarrow> json option \<Rightarrow> string option" where
  "bounded_text n v =
     (case as_string v of Some s \<Rightarrow> if 1 \<le> js_length s \<and> js_length s \<le> n then Some s else None | None \<Rightarrow> None)"

definition login_body :: "json \<Rightarrow> (string \<times> string) option" where
  "login_body body =
     (case (bounded_text max_username_chars (get_field ''username'' body),
            bounded_text max_password_chars (get_field ''password'' body)) of
        (Some u, Some p) \<Rightarrow> Some (u, p)
      | _ \<Rightarrow> None)"

record login_world =
  lw_credentials :: credential_world
  lw_argon :: "string \<Rightarrow> string \<Rightarrow> bool option"
  lw_provider :: provider_world

record audit_event =
  ae_at :: nat
  ae_kind :: auth_source
  ae_granted :: bool
  ae_reason :: "audit_reason option"
  ae_username :: string
  ae_roles :: string
  ae_principal_key :: "string option"
  ae_mail :: "string option"
  ae_provider :: "string option"
  ae_protocol :: "string option"
  ae_client_ip :: string

record server_state =
  sv_auth :: auth_state
  sv_health :: ldap_health
  sv_seen :: seen_cache
  sv_audit :: "audit_event list"
  sv_sso :: sso_state

definition canonical_key :: "verified_user \<Rightarrow> string" where
  "canonical_key u = (case vu_dn u of Some d \<Rightarrow> d | None \<Rightarrow> vu_username u)"

text \<open>Which backend answers, and whether break-glass may: the verdict, its source, the directory's health
  and the number of calls the directory has answered.\<close>

definition login_verdict ::
  "login_world \<Rightarrow> horizon_config \<Rightarrow> nat \<Rightarrow> string \<Rightarrow> string \<Rightarrow> ldap_health \<Rightarrow> nat \<Rightarrow>
   verified_user verified \<times> auth_source \<times> ldap_health \<times> nat" where
  "login_verdict w cfg now username password h n =
     (case (auth_backend_kind (cfg_auth cfg), auth_ldap (cfg_auth cfg)) of
        (LocalBackend, _) \<Rightarrow> (verify_local_credentials (lw_argon w) cfg username password, FromLocal, h, n)
      | (LdapBackend, Some ldap) \<Rightarrow>
          (case verify_ldap_credentials (cw_directory (lw_credentials w)) ldap username password n of
             (Granted u, n1) \<Rightarrow> (Granted u, FromLdap, h, n1)
           | (refusal, n1) \<Rightarrow>
               (case break_glass (cfg_auth cfg) of
                  None \<Rightarrow> (refusal, FromLdap, h, n1)
                | Some acc \<Rightarrow>
                    (case health_probe (cw_directory (lw_credentials w)) ldap now h n1 of
                       (_, h1, n2) \<Rightarrow>
                         if is_unhealthy h1
                         then (case verify_break_glass (lw_argon w) acc username password of
                                 Some bg \<Rightarrow> (Granted bg, FromBreakGlass, h1, n2)
                               | None \<Rightarrow> (refusal, FromLdap, h1, n2))
                         else (refusal, FromLdap, h1, n2))))
      | (LdapBackend, None) \<Rightarrow> (Refused BackendUnreachable, FromLdap, h, n))"

record me_payload =
  me_username :: string
  me_display_name :: "string option"
  me_source :: "auth_source option"
  me_provider :: "string option"
  me_provider_name :: "string option"
  me_roles :: "string list"
  me_verbs :: "verb list"
  me_verb_cap :: "verb list option"
  me_landing :: string

definition provider_label :: "horizon_config \<Rightarrow> string option \<Rightarrow> string option" where
  "provider_label cfg pid =
     (if \<not> truthy pid then None
      else (case find (\<lambda>p. op_id p = the pid) (sso_providers (auth_sso (cfg_auth cfg))) of
              Some p \<Rightarrow> Some (if op_display_name p \<noteq> [] then op_display_name p else op_id p)
            | None \<Rightarrow> pid))"

fun pick_landing_route :: "(string \<times> string) list \<Rightarrow> string list \<Rightarrow> string" where
  "pick_landing_route landing [] = ''/''"
| "pick_landing_route landing (r # rs) =
     (if truthy (map_of landing r) then the (map_of landing r) else pick_landing_route landing rs)"

definition me_of :: "horizon_config \<Rightarrow> session \<Rightarrow> me_payload" where
  "me_of cfg s =
     \<lparr>me_username = ss_username s, me_display_name = ss_display_name s, me_source = ss_auth_source s,
      me_provider = ss_provider s, me_provider_name = provider_label cfg (ss_provider s), me_roles = ss_roles s,
      me_verbs = verbs_of cfg (ss_roles s), me_verb_cap = ss_verb_cap s,
      me_landing = pick_landing_route (rbac_landing (cfg_rbac cfg)) (ss_roles s)\<rparr>"

datatype login_reply = BadLoginBody | InvalidLogin | LoggedIn me_payload stamped_cookie

definition sign_in_of :: "verified_user \<Rightarrow> auth_source \<Rightarrow> sign_in" where
  "sign_in_of u src =
     \<lparr>sg_username = vu_username u, sg_roles = vu_roles u, sg_display_name = vu_display_name u, sg_source = src,
      sg_provider = None\<rparr>"

definition audit_row :: "nat \<Rightarrow> auth_source \<Rightarrow> bool \<Rightarrow> audit_reason option \<Rightarrow> verified_user \<Rightarrow> string \<Rightarrow> audit_event" where
  "audit_row now src ok reason u ip =
     \<lparr>ae_at = now, ae_kind = src, ae_granted = ok, ae_reason = reason, ae_username = vu_username u,
      ae_roles = join_with '','' (vu_roles u), ae_principal_key = Some (canonical_key u), ae_mail = None,
      ae_provider = None, ae_protocol = None, ae_client_ip = ip\<rparr>"

definition login ::
  "login_world \<Rightarrow> horizon_config \<Rightarrow> nat \<Rightarrow> string \<Rightarrow> json \<Rightarrow> string \<Rightarrow> server_state \<Rightarrow> login_reply \<times> server_state" where
  "login w cfg now entropy body ip st =
     (case login_body body of
        None \<Rightarrow> (BadLoginBody, st)
      | Some (username, password) \<Rightarrow>
          (case login_verdict w cfg now username password (sv_health st) (rl_calls (as_roles (sv_auth st))) of
             (verdict, src, h, n) \<Rightarrow>
               (let auth = (sv_auth st)\<lparr>as_roles := (as_roles (sv_auth st))\<lparr>rl_calls := n\<rparr>\<rparr>;
                    st1 = st\<lparr>sv_health := h, sv_auth := auth\<rparr> in
                case verdict of
                  Granted u \<Rightarrow>
                    (case create_session entropy now (sign_in_of u src) (as_sessions auth) of
                       (s, ss) \<Rightarrow>
                         (LoggedIn (me_of cfg s)
                            \<lparr>ck_name = session_cookie_name (cfg_session cfg), ck_value = ss_sid s,
                             ck_secure = session_cookie_secure (cfg_session cfg),
                             ck_max_age = ttl_ms (session_ttl_minutes (cfg_session cfg)) div 1000\<rparr>,
                          st1\<lparr>sv_auth := auth\<lparr>as_sessions := ss\<rparr>,
                              sv_seen := record_seen now (vu_username u) src (vu_roles u) (Some ip) (sv_seen st),
                              sv_audit := sv_audit st @ [audit_row now src True None u ip]\<rparr>))
                | RefusedOnPolicy reason u \<Rightarrow>
                    (InvalidLogin, st1\<lparr>sv_audit := sv_audit st @ [audit_row now src False (Some reason) u ip]\<rparr>)
                | Refused f \<Rightarrow> (InvalidLogin, st1))))"

subsection \<open>Signing in through a provider\<close>

definition sso_row ::
  "nat \<Rightarrow> bool \<Rightarrow> audit_reason option \<Rightarrow> oidc_provider \<Rightarrow> string \<Rightarrow> string list \<Rightarrow> string \<Rightarrow> audit_event" where
  "sso_row now ok reason p email roles ip =
     \<lparr>ae_at = now, ae_kind = FromSso, ae_granted = ok, ae_reason = reason, ae_username = email,
      ae_roles = join_with '','' roles, ae_principal_key = None, ae_mail = Some email, ae_provider = Some (op_id p),
      ae_protocol = Some (if op_kind p = PlainOAuth then ''oauth2'' else ''oidc''), ae_client_ip = ip\<rparr>"

definition sso_sign_in :: "oidc_provider \<Rightarrow> string \<Rightarrow> string list \<Rightarrow> string option \<Rightarrow> sign_in" where
  "sso_sign_in p email roles shown =
     \<lparr>sg_username = email, sg_roles = roles, sg_display_name = shown, sg_source = FromSso, sg_provider = Some (op_id p)\<rparr>"

datatype sso_reply = BackToLogin string | SignedOn string stamped_cookie

definition sso_callback ::
  "login_world \<Rightarrow> horizon_config \<Rightarrow> nat \<Rightarrow> string \<Rightarrow> callback_request \<Rightarrow> string \<Rightarrow> server_state \<Rightarrow>
   sso_reply \<times> server_state" where
  "sso_callback w cfg now entropy cb ip st =
     (case sso_verdict_of (lw_provider w) cfg now cb (sv_sso st) of
        (verdict, sso) \<Rightarrow>
          (let st = st\<lparr>sv_sso := sso\<rparr> in
           case verdict of
             SsoRefused reason \<Rightarrow> (BackToLogin (fail_target (lw_provider w) reason), st)
           | SsoWithoutRoles p email \<Rightarrow>
               (BackToLogin (fail_target (lw_provider w) ''no_roles''),
                st\<lparr>sv_audit := sv_audit st @ [sso_row now False (Some NoRoles) p email [] ip]\<rparr>)
           | SsoLetIn p email roles shown next_path \<Rightarrow>
               (case create_session entropy now (sso_sign_in p email roles shown) (as_sessions (sv_auth st)) of
                  (s, ss) \<Rightarrow>
                    (SignedOn (ui_base_path (pw_parse (lw_provider w)) (pw_public_url (lw_provider w)) @ safe_next (Some next_path))
                       \<lparr>ck_name = session_cookie_name (cfg_session cfg), ck_value = ss_sid s,
                        ck_secure = session_cookie_secure (cfg_session cfg),
                        ck_max_age = session_ttl_minutes (cfg_session cfg) * 60\<rparr>,
                     st\<lparr>sv_auth := (sv_auth st)\<lparr>as_sessions := ss\<rparr>,
                        sv_seen := record_seen now email FromSso roles (Some ip) (sv_seen st),
                        sv_audit := sv_audit st @ [sso_row now True None p email roles ip]\<rparr>))))"

subsection \<open>Signing out\<close>

text \<open>Signing out: the cookie is cleared whatever it held.\<close>

definition logout :: "horizon_config \<Rightarrow> (string \<times> string) list \<Rightarrow> server_state \<Rightarrow> server_state" where
  "logout cfg cookies st =
     (case map_of cookies (session_cookie_name (cfg_session cfg)) of
        Some sid \<Rightarrow>
          if sid \<noteq> []
          then st\<lparr>sv_auth := (sv_auth st)\<lparr>as_sessions := destroy_session sid (as_sessions (sv_auth st))\<rparr>\<rparr>
          else st
      | None \<Rightarrow> st)"

definition me :: "horizon_config \<Rightarrow> auth_outcome \<Rightarrow> me_payload option" where
  "me cfg out = (case out of Admitted s k tid ck \<Rightarrow> Some (me_of cfg s) | Unauthenticated401 ch \<Rightarrow> None)"

subsection \<open>A server run\<close>

datatype server_event =
    SignIn string json string nat
  | SsoBegin drawn_texts string query nat
  | SsoReturn string callback_request string nat
  | SignOut "(string \<times> string) list" nat
  | Request credentials nat

fun event_time :: "server_event \<Rightarrow> nat" where
  "event_time (SignIn e body ip t) = t"
| "event_time (SsoBegin dr origin q t) = t"
| "event_time (SsoReturn e cb ip t) = t"
| "event_time (SignOut cookies t) = t"
| "event_time (Request cr t) = t"

fun server_step :: "login_world \<Rightarrow> horizon_config \<Rightarrow> server_event \<Rightarrow> server_state \<Rightarrow> server_state" where
  "server_step w cfg (SignIn e body ip t) st = snd (login w cfg t e body ip st)"
| "server_step w cfg (SsoBegin dr origin q t) st = st\<lparr>sv_sso := snd (sso_start (lw_provider w) cfg t dr origin q (sv_sso st))\<rparr>"
| "server_step w cfg (SsoReturn e cb ip t) st = snd (sso_callback w cfg t e cb ip st)"
| "server_step w cfg (SignOut cookies t) st = logout cfg cookies st"
| "server_step w cfg (Request cr t) st =
     st\<lparr>sv_auth := snd (require_auth (lw_credentials w) cfg t cr (sv_auth st))\<rparr>"

definition new_server :: server_state where
  "new_server =
     \<lparr>sv_auth = \<lparr>as_sessions = [], as_tokens = new_token_state, as_roles = new_role_state, as_uses = []\<rparr>,
      sv_health = \<lparr>lh_last = None, lh_last_at = None\<rparr>, sv_seen = [], sv_audit = [],
      sv_sso = \<lparr>so_flows = new_flow_store, so_discovered = []\<rparr>\<rparr>"

text \<open>The state after a list of events, the latest first.\<close>

primrec server_run :: "login_world \<Rightarrow> horizon_config \<Rightarrow> server_event list \<Rightarrow> server_state" where
  "server_run w cfg [] = new_server"
| "server_run w cfg (e # es) = server_step w cfg e (server_run w cfg es)"

text \<open>Who a sign-in lets in, in the state it finds.\<close>

definition let_in :: "login_world \<Rightarrow> horizon_config \<Rightarrow> nat \<Rightarrow> json \<Rightarrow> server_state \<Rightarrow> sign_in option" where
  "let_in w cfg t body st =
     (case login_body body of
        None \<Rightarrow> None
      | Some (username, password) \<Rightarrow>
          (case login_verdict w cfg t username password (sv_health st) (rl_calls (as_roles (sv_auth st))) of
             (Granted u, src, h, n) \<Rightarrow> Some (sign_in_of u src)
           | _ \<Rightarrow> None))"

definition sso_let_in :: "login_world \<Rightarrow> horizon_config \<Rightarrow> nat \<Rightarrow> callback_request \<Rightarrow> server_state \<Rightarrow> sign_in option" where
  "sso_let_in w cfg t cb st =
     (case fst (sso_verdict_of (lw_provider w) cfg t cb (sv_sso st)) of
        SsoLetIn p email roles shown next_path \<Rightarrow> Some (sso_sign_in p email roles shown)
      | _ \<Rightarrow> None)"

fun lets_in :: "login_world \<Rightarrow> horizon_config \<Rightarrow> server_event \<Rightarrow> server_state \<Rightarrow> (string \<times> sign_in) option" where
  "lets_in w cfg (SignIn e body ip t) st = map_option (Pair e) (let_in w cfg t body st)"
| "lets_in w cfg (SsoReturn e cb ip t) st = map_option (Pair e) (sso_let_in w cfg t cb st)"
| "lets_in w cfg ev st = None"

text \<open>What an event asks of the session store.\<close>

fun event_calls :: "login_world \<Rightarrow> horizon_config \<Rightarrow> server_event \<Rightarrow> server_state \<Rightarrow> session_call list" where
  "event_calls w cfg (SignIn e body ip t) st =
     (case let_in w cfg t body st of Some who \<Rightarrow> [CreateCall e who t] | None \<Rightarrow> [])"
| "event_calls w cfg (SsoBegin dr origin q t) st = []"
| "event_calls w cfg (SsoReturn e cb ip t) st =
     (case sso_let_in w cfg t cb st of Some who \<Rightarrow> [CreateCall e who t] | None \<Rightarrow> [])"
| "event_calls w cfg (SignOut cookies t) st =
     (case map_of cookies (session_cookie_name (cfg_session cfg)) of
        Some sid \<Rightarrow> if sid \<noteq> [] then [DestroyCall sid t] else []
      | None \<Rightarrow> [])"
| "event_calls w cfg (Request cr t) st =
     (if as_sessions (snd (require_auth (lw_credentials w) cfg t cr (sv_auth st))) = as_sessions (sv_auth st) then []
      else (case map_of (cr_cookies cr) (session_cookie_name (cfg_session cfg)) of
              Some sid \<Rightarrow> [TouchCall sid t] | None \<Rightarrow> []))"

abbreviation run_calls :: "login_world \<Rightarrow> horizon_config \<Rightarrow> server_event list \<Rightarrow> session_call list" where
  "run_calls w cfg \<equiv> calls_along (\<lambda>e es. event_calls w cfg e (server_run w cfg es))"

subsection \<open>Lemmas\<close>

lemma login_sessions:
  "as_sessions (sv_auth (snd (login w cfg t e body ip st))) =
     (case let_in w cfg t body st of
        Some who \<Rightarrow> snd (create_session e t who (as_sessions (sv_auth st)))
      | None \<Rightarrow> as_sessions (sv_auth st))"
proof (cases "login_body body")
  case (Some up)
  obtain u p where up: "up = (u, p)" by fastforce
  obtain verdict src h n where v: "login_verdict w cfg t u p (sv_health st) (rl_calls (as_roles (sv_auth st))) = (verdict, src, h, n)"
    by (metis prod_cases4)
  show ?thesis by (cases verdict) (simp_all add: login_def let_in_def Some up v Let_def split: prod.split)
qed (simp add: login_def let_in_def)

lemma sso_sessions:
  "as_sessions (sv_auth (snd (sso_callback w cfg t e cb ip st))) =
     (case sso_let_in w cfg t cb st of
        Some who \<Rightarrow> snd (create_session e t who (as_sessions (sv_auth st)))
      | None \<Rightarrow> as_sessions (sv_auth st))"
  by (simp add: sso_callback_def sso_let_in_def Let_def split: prod.split sso_verdict.split)

lemma logout_sessions:
  "as_sessions (sv_auth (logout cfg cookies st)) =
     (case map_of cookies (session_cookie_name (cfg_session cfg)) of
        Some sid \<Rightarrow> if sid \<noteq> [] then destroy_session sid (as_sessions (sv_auth st)) else as_sessions (sv_auth st)
      | None \<Rightarrow> as_sessions (sv_auth st))"
  by (simp add: logout_def split: option.split)

text \<open>A request changes the sessions as one touch of its cookie's session does.\<close>

lemma request_sessions:
  assumes "require_auth w cfg t cr st = (out, st')"
  shows "as_sessions st' = as_sessions st \<or>
    (\<exists>sid. map_of (cr_cookies cr) (session_cookie_name (cfg_session cfg)) = Some sid \<and>
       as_sessions st' = snd (touch_session (session_ttl_minutes (cfg_session cfg)) t sid (as_sessions st)))"
  using assms
proof (cases rule: require_auth_cases)
  case (browser sid s)
  then show ?thesis by (metis snd_conv)
next
  case nobody
  then show ?thesis by (metis snd_conv)
qed auto

lemma run_calls_sessions:
  "as_sessions (sv_auth (server_run w cfg es)) = session_run (session_ttl_minutes (cfg_session cfg)) (run_calls w cfg es)"
proof (induction es)
  case (Cons e es)
  show ?case
  proof (cases e)
    case (SignIn x body ip t)
    then show ?thesis using Cons by (simp add: login_sessions split: option.split)
  next
    case (SsoBegin dr origin q t)
    then show ?thesis using Cons by simp
  next
    case (SsoReturn x cb ip t)
    then show ?thesis using Cons by (simp add: sso_sessions split: option.split)
  next
    case (SignOut cookies t)
    then show ?thesis using Cons by (simp add: logout_sessions split: option.split)
  next
    case (Request cr t)
    obtain out st' where r: "require_auth (lw_credentials w) cfg t cr (sv_auth (server_run w cfg es)) = (out, st')" by fastforce
    from request_sessions [OF r] show ?thesis using Request Cons r by (auto split: option.split)
  qed
qed (simp add: new_server_def)

lemma event_calls_time: "c \<in> set (event_calls w cfg e st) \<Longrightarrow> call_time c = event_time e"
  by (cases e) (auto split: option.splits if_splits)

definition events_in_order :: "server_event list \<Rightarrow> bool" where
  "events_in_order es = sorted_wrt (\<ge>) (map event_time es)"

lemma run_calls_times: "c \<in> set (run_calls w cfg es) \<Longrightarrow> \<exists>e \<in> set es. call_time c = event_time e"
  using calls_along_event [of c] event_calls_time by fastforce

lemma event_calls_short: "length (event_calls w cfg e st) \<le> 1"
  by (cases e) (auto split: option.split)

lemma run_calls_in_order: "events_in_order es \<Longrightarrow> in_order (run_calls w cfg es)"
proof (induction es)
  case (Cons e es)
  then have "in_order (run_calls w cfg es)" by (simp add: events_in_order_def)
  moreover have "\<forall>c \<in> set (run_calls w cfg es). call_time c \<le> event_time e"
    using Cons.prems by (auto simp: events_in_order_def dest!: run_calls_times)
  moreover have "event_calls w cfg e (server_run w cfg es) = [] \<or>
      (\<exists>c. event_calls w cfg e (server_run w cfg es) = [c] \<and> call_time c = event_time e)"
    using event_calls_short [of w cfg e "server_run w cfg es"] event_calls_time [of _ w cfg e "server_run w cfg es"]
    by (cases "event_calls w cfg e (server_run w cfg es)") auto
  ultimately show ?case by (auto simp: in_order_def)
qed (simp add: in_order_def)

lemma create_from_sign_in:
  assumes "CreateCall e who t \<in> set (event_calls w cfg ev st)"
  shows "lets_in w cfg ev st = Some (e, who) \<and> event_time ev = t"
  using assms by (cases ev) (auto split: option.splits if_splits)

subsection \<open>Properties\<close>

lemma session_traced_to_sign_in:
  assumes "events_in_order es" and "\<forall>e \<in> set es. event_time e \<le> now"
    and "fst (require_auth (lw_credentials w) cfg now cr (sv_auth (server_run w cfg es))) = Admitted s SessionKind tid ck"
  shows "\<exists>later ev earlier entropy who.
    es = later @ ev # earlier \<and> lets_in w cfg ev (server_run w cfg earlier) = Some (entropy, who) \<and>
    map_of (cr_cookies cr) (session_cookie_name (cfg_session cfg)) = Some (b64url_encode entropy) \<and>
    s = (new_session (b64url_encode entropy) (event_time ev) who)\<lparr>ss_last_seen := now\<rparr> \<and>
    (\<forall>cookies u. SignOut cookies u \<in> set later \<longrightarrow>
       map_of cookies (session_cookie_name (cfg_session cfg)) \<noteq> Some (b64url_encode entropy))"
proof -
  let ?ttl = "session_ttl_minutes (cfg_session cfg)"
  let ?calls = "run_calls w cfg es"
  obtain st' where "require_auth (lw_credentials w) cfg now cr (sv_auth (server_run w cfg es)) = (Admitted s SessionKind tid ck, st')"
    using assms(3) by (metis prod.collapse)
  then obtain sid where sid: "map_of (cr_cookies cr) (session_cookie_name (cfg_session cfg)) = Some sid"  "sid \<noteq> []"
      "fst (touch_session ?ttl now sid (session_run ?ttl ?calls)) = Some s"
    by (cases rule: require_auth_cases) (auto simp: run_calls_sessions unauthenticated_def Let_def)
  have "in_order ?calls" "\<forall>c \<in> set ?calls. call_time c \<le> now"
    using run_calls_in_order [OF assms(1)] assms(2) run_calls_times by fastforce+
  from traced_session [OF this sid(3)] obtain pre e who t post where
    c: "?calls = pre @ CreateCall e who t # post" "b64url_encode e = sid"
      "s = (new_session sid t who)\<lparr>ss_last_seen := now\<rparr>" "\<forall>u. DestroyCall sid u \<notin> set pre" by blast
  from calls_along_split [OF event_calls_short c(1)] obtain later ev earlier where
    split: "es = later @ ev # earlier" "CreateCall e who t \<in> set (event_calls w cfg ev (server_run w cfg earlier))"
      "\<forall>x \<in> set later. \<exists>before. set (event_calls w cfg x (server_run w cfg before)) \<subseteq> set pre" by blast
  have ev: "lets_in w cfg ev (server_run w cfg earlier) = Some (e, who)" "event_time ev = t"
    using create_from_sign_in [OF split(2)] by blast+
  have "map_of cookies (session_cookie_name (cfg_session cfg)) \<noteq> Some sid" if "SignOut cookies u \<in> set later" for cookies u
    using split(3) that sid(2) c(4) by fastforce
  then show ?thesis using split(1) ev c(2,3) sid(1) by blast
qed

text \<open>C2: Every browser request the server admits is somebody's sign-in.  The session it acts as carries the
  name, roles and source that one event in the history was let in with, a password sign-in or a return
  from a provider, under the id drawn for it; no sign-out with that id came after.\<close>

theorem admitted_means_signed_in:
  assumes "events_in_order es" and "\<forall>e \<in> set es. event_time e \<le> now"
    and "fst (require_auth (lw_credentials w) cfg now cr (sv_auth (server_run w cfg es))) = Admitted s SessionKind tid ck"
  shows "\<exists>later ev earlier entropy who.
    es = later @ ev # earlier \<and> lets_in w cfg ev (server_run w cfg earlier) = Some (entropy, who) \<and>
    map_of (cr_cookies cr) (session_cookie_name (cfg_session cfg)) = Some (b64url_encode entropy) \<and>
    s = (new_session (b64url_encode entropy) (event_time ev) who)\<lparr>ss_last_seen := now\<rparr> \<and>
    (\<forall>cookies u. SignOut cookies u \<in> set later \<longrightarrow>
       map_of cookies (session_cookie_name (cfg_session cfg)) \<noteq> Some (b64url_encode entropy))"
  by (rule session_traced_to_sign_in [OF assms])

text \<open>C34: The emergency account opens only in an emergency.  A sign-in let in as break-glass is on a
  deployment whose backend is a directory and that names such an account, with its name and password,
  after the directory itself refused the sign-in, and when the probe made right then could not reach the
  directory or could not search it.\<close>

theorem break_glass_only_in_outage:
  assumes "login_verdict w cfg now username password h n = (Granted u, FromBreakGlass, h', n')"
  shows "\<exists>ldap acc refusal n1 probe.
    auth_backend_kind (cfg_auth cfg) = LdapBackend \<and> auth_ldap (cfg_auth cfg) = Some ldap \<and>
    break_glass (cfg_auth cfg) = Some acc \<and>
    verify_ldap_credentials (cw_directory (lw_credentials w)) ldap username password n = (refusal, n1) \<and>
    (\<forall>x. refusal \<noteq> Granted x) \<and> probe_ldap (cw_directory (lw_credentials w)) ldap n1 = (probe, n') \<and>
    (\<not> pr_reachable probe \<or> pr_user_search_ok probe = Some False) \<and>
    username = bg_username acc \<and> lw_argon w (bg_password_hash acc) password = Some True \<and>
    u = \<lparr>vu_username = bg_username acc, vu_roles = bg_roles acc, vu_display_name = None, vu_dn = None\<rparr>"
proof (cases "auth_backend_kind (cfg_auth cfg)")
  case LdapBackend
  show ?thesis
  proof (cases "auth_ldap (cfg_auth cfg)")
    case (Some ldap)
    obtain v n1 where v: "verify_ldap_credentials (cw_directory (lw_credentials w)) ldap username password n = (v, n1)" by fastforce
    have refused: "\<forall>x. v \<noteq> Granted x" using assms LdapBackend Some v by (auto simp: login_verdict_def)
    obtain acc where acc: "break_glass (cfg_auth cfg) = Some acc"
      using assms LdapBackend Some v refused by (cases v) (auto simp: login_verdict_def split: option.splits)
    obtain probe n2 where p: "probe_ldap (cw_directory (lw_credentials w)) ldap n1 = (probe, n2)" by fastforce
    have "is_unhealthy (h\<lparr>lh_last := Some probe, lh_last_at := Some now\<rparr>) \<and>
        verify_break_glass (lw_argon w) acc username password = Some u \<and> n' = n2"
      using assms LdapBackend Some v refused acc p
      by (cases v) (auto simp: login_verdict_def health_probe_def split: option.splits if_splits)
    then show ?thesis using LdapBackend Some v refused acc p
      by (auto simp: is_unhealthy_def verify_break_glass_def argon_ok_def Let_def split: if_splits option.splits)
  qed (use assms LdapBackend in \<open>auto simp: login_verdict_def\<close>)
qed (use assms in \<open>auto simp: login_verdict_def\<close>)

definition down_directory :: directory where
  "down_directory = \<lparr>dir_bind = \<lambda>n d p. Some \<lparr>lf_code = None, lf_name = ''E'', lf_message = ''no route''\<rparr>,
     dir_search = \<lambda>n b f a. Inl \<lparr>lf_code = None, lf_name = ''E'', lf_message = ''no route''\<rparr>\<rparr>"

text \<open>A request that brings its cookie alone.\<close>

lemma cookie_alone:
  assumes "cr_authorization cr = None" "map_of (cr_cookies cr) (session_cookie_name (cfg_session cfg)) = Some sid" "sid \<noteq> []"
  shows "fst (require_auth w cfg now cr st) =
    (case fst (touch_session (session_ttl_minutes (cfg_session cfg)) now sid (as_sessions st)) of
       None \<Rightarrow> unauthenticated cfg cr
     | Some s \<Rightarrow> Admitted s SessionKind None (Some (session_cookie (cfg_session cfg) sid)))"
proof -
  have "resolve_oauth (cw_directory w) cfg now None (as_roles st) = (None, as_roles st)"
    by (simp add: resolve_oauth_def bearer_value_def Let_def)
  moreover have "resolve_token w cfg now None (as_tokens st) (as_roles st) = (None, as_tokens st, as_roles st)"
    by (simp add: resolve_token_def bearer_value_def Let_def)
  ultimately show ?thesis using assms by (simp add: require_auth_def Let_def split: option.split prod.split)
qed

lemma login_reply:
  assumes "login w cfg t entropy body ip st = (LoggedIn m ck, st')"
  obtains who where "let_in w cfg t body st = Some who" "m = me_of cfg (new_session (b64url_encode entropy) t who)"
    "ck_value ck = b64url_encode entropy"
    "as_sessions (sv_auth st') = snd (create_session entropy t who (as_sessions (sv_auth st)))"
proof (cases "login_body body")
  case (Some up)
  obtain u p where up: "up = (u, p)" by fastforce
  obtain verdict src h n where v: "login_verdict w cfg t u p (sv_health st) (rl_calls (as_roles (sv_auth st))) = (verdict, src, h, n)"
    by (metis prod_cases4)
  obtain x where x: "verdict = Granted x" using assms Some up v by (cases verdict) (auto simp: login_def Let_def)
  show thesis
    using assms Some up v x
    by (intro that [of "sign_in_of x src"]) (auto simp: login_def let_in_def create_session_def new_session_def Let_def)
qed (use assms in \<open>simp add: login_def\<close>)

lemma me_of_touched: "me_of cfg (s\<lparr>ss_last_seen := t\<rparr>) = me_of cfg s"
  by (simp add: me_of_def)

text \<open>A sign-in holds until it is signed out or left alone.  The cookie a sign-in hands out admits a
  request that brings no other credential, at any moment within the time-to-live, as the very person the
  reply described, and once signed out it admits nothing.\<close>

theorem sign_in_holds:
  assumes "login w cfg t entropy body ip st = (LoggedIn m ck, st')"
    and "entropy \<noteq> []" and "cr_authorization cr = None"
    and "map_of (cr_cookies cr) (session_cookie_name (cfg_session cfg)) = Some (ck_value ck)"
    and "t \<le> t'" and "t' - t \<le> ttl_ms (session_ttl_minutes (cfg_session cfg))"
  shows "me cfg (fst (require_auth w' cfg t' cr (sv_auth st'))) = Some m \<and>
    (\<exists>s c. fst (require_auth w' cfg t' cr (sv_auth st')) = Admitted s SessionKind None (Some c)) \<and>
    me cfg (fst (require_auth w' cfg t' cr (sv_auth (logout cfg (cr_cookies cr) st')))) = None"
proof -
  let ?ttl = "session_ttl_minutes (cfg_session cfg)" and ?sid = "b64url_encode entropy"
  obtain who where l: "m = me_of cfg (new_session ?sid t who)" "ck_value ck = ?sid"
      "as_sessions (sv_auth st') = snd (create_session entropy t who (as_sessions (sv_auth st)))"
    using login_reply [OF assms(1)] by metis
  have ne: "?sid \<noteq> []" using assms(2) by (simp add: b64url_Nil_iff)
  note alone = cookie_alone [OF assms(3) assms(4) [unfolded l(2)] ne]
  have "\<not> expired ?ttl t' (new_session ?sid t who)" using assms(5,6) by (simp add: expired_def new_session_def)
  then have "fst (touch_session ?ttl t' ?sid (as_sessions (sv_auth st'))) =
      Some ((new_session ?sid t who)\<lparr>ss_last_seen := t'\<rparr>)"
    by (simp add: touch_result l(3) lookup_create alive_def)
  moreover have "fst (touch_session ?ttl t' ?sid (as_sessions (sv_auth (logout cfg (cr_cookies cr) st')))) = None"
    using browser_sessions.destroy_then_touch [of ?ttl t' ?sid] assms(4) ne l(2) by (simp add: logout_sessions)
  ultimately show ?thesis unfolding alone by (simp add: me_def l(1) me_of_touched unauthenticated_def Let_def)
qed

definition sample_login_world :: login_world where
  "sample_login_world = \<lparr>lw_credentials = sample_world, lw_argon = \<lambda>h p. Some (p = ''pw''), lw_provider = sample_provider_world None\<rparr>"

definition sample_body :: json where
  "sample_body = JObj [(''username'', JStr ''ann''), (''password'', JStr ''pw'')]"

definition cookie_request :: "string \<Rightarrow> credentials" where
  "cookie_request sid = \<lparr>cr_authorization = None, cr_cookies = [(''horizon_sid'', sid)], cr_url = ''/api/menu''\<rparr>"

lemma sample_login_body: "login_body sample_body = Some (''ann'', ''pw'')"
  by code_simp

lemma sample_let_in:
  "cfg_auth cfg = cfg_auth token_config \<Longrightarrow> let_in sample_login_world cfg t sample_body st =
     Some \<lparr>sg_username = ''ann'', sg_roles = [''viewer'', ''admin''], sg_display_name = None, sg_source = FromLocal, sg_provider = None\<rparr>"
  by (simp add: let_in_def sample_login_body login_verdict_def token_config_def sample_config_def Let_def
      verify_local_credentials_def argon_ok_def sample_login_world_def sign_in_of_def)

lemma sample_sign_in_reply:
  "\<exists>m ck st'. login sample_login_world token_config 0 ''abc'' sample_body ''::1'' new_server = (LoggedIn m ck, st') \<and>
     ck_value ck = b64url_encode ''abc'' \<and> me_username m = ''ann''"
  by (simp add: login_def sample_login_body login_verdict_def token_config_def sample_config_def Let_def
      verify_local_credentials_def argon_ok_def sample_login_world_def create_session_def new_session_def sign_in_of_def me_of_def)

lemma sample_admitted:
  assumes "cfg_auth cfg = cfg_auth token_config" "cfg_session cfg = cfg_session token_config"
  shows "\<exists>s. fst (require_auth sample_world cfg 5 (cookie_request (b64url_encode ''abc''))
      (sv_auth (server_run sample_login_world cfg [SignIn ''abc'' sample_body ''::1'' 0]))) =
      Admitted s SessionKind None (Some (session_cookie (cfg_session token_config) (b64url_encode ''abc''))) \<and> ss_username s = ''ann''"
proof -
  let ?sid = "b64url_encode ''abc''" and ?es = "[SignIn ''abc'' sample_body ''::1'' 0]"
  have ne: "?sid \<noteq> []" by (simp add: b64url_Nil_iff)
  have sc: "session_cookie_name (cfg_session token_config) = ''horizon_sid''" "session_ttl_minutes (cfg_session token_config) = 60"
    by (simp_all add: token_config_def sample_config_def Let_def)
  define st where "st = sv_auth (server_run sample_login_world cfg ?es)"
  have run: "as_sessions st = session_run 60 [CreateCall ''abc'' (the (let_in sample_login_world cfg 0 sample_body new_server)) 0]"
    unfolding st_def run_calls_sessions by (simp add: sample_let_in assms sc)
  show ?thesis unfolding st_def [symmetric]
    by (subst cookie_alone [where sid = ?sid])
      (simp_all add: cookie_request_def assms sc ne run touch_result lookup_create alive_def expired_def new_session_def
        ttl_ms_def sample_let_in)
qed

theorem admitted_means_signed_in_witness:
  "\<exists>later ev earlier entropy who.
     [SignIn ''abc'' sample_body ''::1'' 0] = later @ ev # earlier \<and>
     lets_in sample_login_world token_config ev (server_run sample_login_world token_config earlier) = Some (entropy, who) \<and>
     sg_username who = ''ann''"
proof -
  let ?es = "[SignIn ''abc'' sample_body ''::1'' 0]"
  obtain s where s: "fst (require_auth (lw_credentials sample_login_world) token_config 5 (cookie_request (b64url_encode ''abc''))
      (sv_auth (server_run sample_login_world token_config ?es))) =
      Admitted s SessionKind None (Some (session_cookie (cfg_session token_config) (b64url_encode ''abc'')))" "ss_username s = ''ann''"
    using sample_admitted [of token_config] by (auto simp: sample_login_world_def)
  have "events_in_order ?es" "\<forall>e \<in> set ?es. event_time e \<le> 5" by (simp_all add: events_in_order_def)
  from admitted_means_signed_in [OF this s(1)] obtain later ev earlier entropy who where
    o: "?es = later @ ev # earlier"
      "lets_in sample_login_world token_config ev (server_run sample_login_world token_config earlier) = Some (entropy, who)"
      "s = (new_session (b64url_encode entropy) (event_time ev) who)\<lparr>ss_last_seen := 5\<rparr>" by blast
  have "sg_username who = ''ann''" using s(2) unfolding o(3) by (simp add: new_session_def)
  then show ?thesis using o(1,2) by blast
qed

theorem sign_in_holds_witness:
  "\<exists>m (st' :: server_state). me token_config (fst (require_auth sample_world token_config 60000 (cookie_request (b64url_encode ''abc'')) (sv_auth st'))) = Some m \<and>
     me_username m = ''ann''"
proof -
  obtain m ck st' where l: "login sample_login_world token_config 0 ''abc'' sample_body ''::1'' new_server = (LoggedIn m ck, st')"
      "ck_value ck = b64url_encode ''abc''" "me_username m = ''ann''"
    using sample_sign_in_reply by blast
  have sc: "session_cookie_name (cfg_session token_config) = ''horizon_sid''" "session_ttl_minutes (cfg_session token_config) = 60"
    by (simp_all add: token_config_def sample_config_def Let_def)
  have "me token_config (fst (require_auth sample_world token_config 60000 (cookie_request (b64url_encode ''abc'')) (sv_auth st'))) = Some m"
    using sign_in_holds [OF l(1), of "cookie_request (b64url_encode ''abc'')" 60000 sample_world] l(2)
    by (simp add: cookie_request_def sc ttl_ms_def)
  then show ?thesis using l(3) by blast
qed

definition emergency_config :: horizon_config where
  "emergency_config =
     (let cfg = ldap_config_of sample_ldap in
      cfg\<lparr>cfg_auth := (cfg_auth cfg)\<lparr>break_glass := Some \<lparr>bg_username = ''root'', bg_password_hash = ''h'', bg_roles = [''admin'']\<rparr>\<rparr>\<rparr>)"

theorem break_glass_only_in_outage_witness:
  "\<exists>ldap n1 probe n'. auth_ldap (cfg_auth emergency_config) = Some ldap \<and>
     probe_ldap down_directory ldap n1 = (probe, n') \<and> (\<not> pr_reachable probe \<or> pr_user_search_ok probe = Some False)"
proof -
  let ?w = "\<lparr>lw_credentials = sample_world\<lparr>cw_directory := down_directory\<rparr>, lw_argon = \<lambda>h p. Some (p = ''pw''), lw_provider = sample_provider_world None\<rparr>"
  let ?h = "\<lparr>lh_last = None, lh_last_at = None\<rparr>"
  have "auth_ldap (cfg_auth emergency_config) = Some sample_ldap" "auth_backend_kind (cfg_auth emergency_config) = LdapBackend"
    "break_glass (cfg_auth emergency_config) = Some \<lparr>bg_username = ''root'', bg_password_hash = ''h'', bg_roles = [''admin'']\<rparr>"
    by (simp_all add: emergency_config_def ldap_config_of_def sample_config_def Let_def)
  note cfg = this
  have "fst (verify_ldap_credentials down_directory sample_ldap ''root'' ''pw'' 0) = Refused BackendUnreachable" by code_simp
  then obtain n1 where r: "verify_ldap_credentials down_directory sample_ldap ''root'' ''pw'' 0 = (Refused BackendUnreachable, n1)"
    by (metis prod.collapse)
  obtain probe n2 where p: "probe_ldap down_directory sample_ldap n1 = (probe, n2)" by fastforce
  have "\<not> pr_reachable probe \<or> pr_user_search_ok probe = Some False"
    using p by (auto simp: probe_ldap_def service_bind_def sample_ldap_def down_directory_def)
  then obtain u h' n' where v: "login_verdict ?w emergency_config 5 ''root'' ''pw'' ?h 0 = (Granted u, FromBreakGlass, h', n')"
    using cfg r p by (auto simp: login_verdict_def health_probe_def is_unhealthy_def verify_break_glass_def argon_ok_def)
  from break_glass_only_in_outage [OF v] show ?thesis by auto
qed

end
