(* ===== verification/OAuthFlow.thy ===== *)
theory OAuthFlow
  imports ClientMetadata Login
begin

text \<open>
  The authorization server: \<open>apps/bff/src/oauth/route.ts\<close>.  A reply carries its status and error code;
  the sentence that explains it is left out.  Setting query parameters on a URL and writing it out is the
  platform's, a parameter; query parameters of a request are texts, as the code reads them.
\<close>

subsection \<open>Requests, codes and replies\<close>

definition request_ttl_ms :: nat where "request_ttl_ms = 600000"
definition code_ttl_ms :: nat where "code_ttl_ms = 60000"

record authz_request =
  az_client_id :: string
  az_redirect_uri :: string
  az_state :: "string option"
  az_scopes :: "string list"
  az_challenge :: string
  az_resource :: "string option"
  az_client_name :: "string option"

definition optional_field :: "string \<Rightarrow> string option \<Rightarrow> (string \<times> json) list" where
  "optional_field k v = (case v of Some s \<Rightarrow> [(k, JStr s)] | None \<Rightarrow> [])"

definition authz_fields :: "authz_request \<Rightarrow> (string \<times> json) list" where
  "authz_fields r =
     [(''clientId'', JStr (az_client_id r)), (''redirectUri'', JStr (az_redirect_uri r))] @
     optional_field ''state'' (az_state r) @
     [(''scopes'', JArr (map JStr (az_scopes r))), (''challenge'', JStr (az_challenge r))] @
     optional_field ''resource'' (az_resource r) @ optional_field ''clientName'' (az_client_name r)"

definition authz_of_json :: "json \<Rightarrow> authz_request option" where
  "authz_of_json v =
     (case (as_string (get_field ''clientId'' v), as_string (get_field ''redirectUri'' v), as_string (get_field ''challenge'' v)) of
        (Some c, Some r, Some ch) \<Rightarrow>
          Some \<lparr>az_client_id = c, az_redirect_uri = r, az_state = as_string (get_field ''state'' v),
                az_scopes = strings_of (get_field ''scopes'' v), az_challenge = ch,
                az_resource = as_string (get_field ''resource'' v), az_client_name = as_string (get_field ''clientName'' v)\<rparr>
      | _ \<Rightarrow> None)"

definition code_json :: "authz_request \<Rightarrow> string \<Rightarrow> json" where
  "code_json r sub = JObj (authz_fields r @ [(''sub'', JStr sub)])"

record consent_view =
  cv_client_name :: string
  cv_client_url :: "string option"
  cv_redirect_uri :: string
  cv_scopes :: "string list"
  cv_username :: string
  cv_roles :: "string list"
  cv_verbs :: "verb list"

record token_reply =
  tr_access_token :: string
  tr_expires_in :: nat
  tr_scope :: string
  tr_refresh_token :: "string option"

datatype oauth_reply =
    OauthError nat string
  | Redirect302 string
  | Document json
  | Registered string nat "string list" "string option"
  | ConsentShown consent_view
  | Decided "string option" bool
  | TokensGiven token_reply
  | Raised

text \<open>The platform around the routes: documents and addresses, URLs with parameters set, the public URL.\<close>

record flow_world =
  fl_metadata :: metadata_world
  fl_with_params :: "string \<Rightarrow> (string \<times> string) list \<Rightarrow> string"
  fl_public_url :: string

definition flow_issuer :: "horizon_config \<Rightarrow> string" where
  "flow_issuer cfg = strip_slashes (oauth_issuer (cfg_oauth cfg))"

definition flow_key :: "horizon_config \<Rightarrow> string" where
  "flow_key cfg = oauth_signing_key (cfg_oauth cfg)"

definition oauth_off :: oauth_reply where "oauth_off = OauthError 404 ''not_found''"

text \<open>\<open>/^https?:\/\/[^/]+/\<close>.\<close>

definition http_origin :: "string \<Rightarrow> bool" where
  "http_origin s =
     list_ex (\<lambda>p. prefix p s \<and> drop (length p) s \<noteq> [] \<and> hd (drop (length p) s) \<noteq> CHR ''/'') [''http://'', ''https://'']"

definition oauth_ready :: "horizon_config \<Rightarrow> bool" where
  "oauth_ready cfg \<longleftrightarrow> oauth_enabled (cfg_oauth cfg) \<and> flow_key cfg \<noteq> [] \<and> http_origin (oauth_issuer (cfg_oauth cfg))"

subsection \<open>Discovery and registration\<close>

definition protected_resource :: "horizon_config \<Rightarrow> oauth_reply" where
  "protected_resource cfg =
     (if \<not> oauth_ready cfg then oauth_off
      else Document (JObj
        [(''resource'', JStr (flow_issuer cfg @ ''/api/mcp'')),
         (''authorization_servers'', JArr [JStr (flow_issuer cfg)]),
         (''scopes_supported'', JArr (map JStr known_scopes)),
         (''bearer_methods_supported'', JArr [JStr ''header''])]))"

definition authorization_server :: "horizon_config \<Rightarrow> oauth_reply" where
  "authorization_server cfg =
     (if \<not> oauth_ready cfg then oauth_off
      else Document (JObj
        [(''issuer'', JStr (flow_issuer cfg)),
         (''authorization_endpoint'', JStr (flow_issuer cfg @ ''/api/oauth/authorize'')),
         (''token_endpoint'', JStr (flow_issuer cfg @ ''/api/oauth/token'')),
         (''registration_endpoint'', JStr (flow_issuer cfg @ ''/api/oauth/register'')),
         (''scopes_supported'', JArr (map JStr known_scopes)),
         (''response_types_supported'', JArr [JStr ''code'']),
         (''grant_types_supported'', JArr (if oauth_refresh_days (cfg_oauth cfg) > 0
            then [JStr ''authorization_code'', JStr ''refresh_token''] else [JStr ''authorization_code''])),
         (''code_challenge_methods_supported'', JArr [JStr ''S256'']),
         (''token_endpoint_auth_methods_supported'', JArr [JStr ''none''])]))"

text \<open>A body's optional text: absent, a text, or something the schema refuses.\<close>

definition optional_text :: "json option \<Rightarrow> string option option" where
  "optional_text v = (case v of None \<Rightarrow> Some None | Some (JStr s) \<Rightarrow> Some (Some s) | Some _ \<Rightarrow> None)"

definition register_body :: "json \<Rightarrow> (string list \<times> string option) option" where
  "register_body body =
     (case (get_field ''redirect_uris'' body, optional_text (get_field ''client_name'' body)) of
        (Some (JArr vs), Some name) \<Rightarrow>
          if vs \<noteq> [] \<and> list_all (\<lambda>x. as_string (Some x) \<noteq> None) vs
          then Some (map (\<lambda>x. the (as_string (Some x))) vs, name) else None
      | _ \<Rightarrow> None)"

definition register_endpoint :: "flow_world \<Rightarrow> horizon_config \<Rightarrow> nat \<Rightarrow> json \<Rightarrow> oauth_reply" where
  "register_endpoint w cfg now body =
     (if \<not> oauth_ready cfg then oauth_off
      else (case register_body body of
        None \<Rightarrow> OauthError 400 ''invalid_client_metadata''
      | Some (uris, name) \<Rightarrow>
          (case find (\<lambda>u. \<not> redirect_uri_acceptable (mw_parse (fl_metadata w)) u) uris of
             Some bad \<Rightarrow> if bad \<noteq> [] then OauthError 400 ''invalid_redirect_uri''
                         else Registered (register_client (flow_key cfg) uris name now) (now div 1000) uris
                                (if truthy name then name else None)
           | None \<Rightarrow> Registered (register_client (flow_key cfg) uris name now) (now div 1000) uris
                       (if truthy name then name else None))))"

subsection \<open>Authorize\<close>

text \<open>\<open>s.slice(0, n)\<close>; a pair of surrogates cut in two becomes the replacement character when it is written
  to a URL.\<close>

fun js_prefix :: "nat \<Rightarrow> string \<Rightarrow> string" where
  "js_prefix n [] = []"
| "js_prefix n (c # s) =
     (if utf16_units c \<le> n then c # js_prefix (n - utf16_units c) s else if n = 1 then replacement_char else [])"

definition redirect_error :: "flow_world \<Rightarrow> string \<Rightarrow> string \<Rightarrow> string option \<Rightarrow> oauth_reply" where
  "redirect_error w uri err state =
     (case mw_parse (fl_metadata w) uri of
        None \<Rightarrow> Raised
      | Some u \<Rightarrow>
          if \<not> (u_hostname u = ''localhost'' \<or> u_hostname u = ''127.0.0.1'' \<or> u_hostname u = ''[::1]'') then OauthError 400 err
          else Redirect302 (fl_with_params w uri
            ((''error'', err) # (if truthy state then [(''state'', js_prefix 512 (the state))] else []))))"

text \<open>The client a request names: a document's, or a registration's.\<close>

definition asking_client ::
  "flow_world \<Rightarrow> horizon_config \<Rightarrow> nat \<Rightarrow> query \<Rightarrow> metadata_cache \<Rightarrow> (registered_client option) \<times> metadata_cache" where
  "asking_client w cfg now q cache =
     (if \<not> truthy (q ''client_id'') then (None, cache)
      else (let cid = the (q ''client_id'') in
        if is_metadata_url cid
        then (case fetch_client_metadata (fl_metadata w) (oauth_metadata_hosts (cfg_oauth cfg)) now cid cache of
                (Inl e, cache') \<Rightarrow> (None, cache')
              | (Inr c, cache') \<Rightarrow> (Some c, cache'))
        else (read_client (flow_key cfg) cid now, cache)))"

definition authorize_request ::
  "flow_world \<Rightarrow> horizon_config \<Rightarrow> nat \<Rightarrow> query \<Rightarrow> metadata_cache \<Rightarrow> (oauth_reply + authz_request) \<times> metadata_cache" where
  "authorize_request w cfg now q cache =
     (case asking_client w cfg now q cache of
        (None, cache') \<Rightarrow> (Inl (OauthError 400 ''invalid_client''), cache')
      | (Some client, cache') \<Rightarrow>
          (if \<not> truthy (q ''redirect_uri'') \<or>
              \<not> redirect_allowed (mw_parse (fl_metadata w)) (rc_redirect_uris client) (the (q ''redirect_uri''))
           then Inl (OauthError 400 ''invalid_request'')
           else (let uri = the (q ''redirect_uri'') in
             if q ''response_type'' \<noteq> Some ''code''
             then Inl (redirect_error w uri ''unsupported_response_type'' (q ''state''))
             else if \<not> truthy (q ''code_challenge'') \<or> q ''code_challenge_method'' \<noteq> Some ''S256''
             then Inl (redirect_error w uri ''invalid_request'' (q ''state''))
             else (let asked = parse_scope (q ''scope'') in
               if sr_unknown asked \<noteq> None then Inl (redirect_error w uri ''invalid_scope'' (q ''state''))
               else if truthy (q ''resource'') \<and> q ''resource'' \<noteq> Some (flow_issuer cfg @ ''/api/mcp'')
               then Inl (redirect_error w uri ''invalid_target'' (q ''state''))
               else Inr \<lparr>az_client_id = the (q ''client_id''), az_redirect_uri = uri, az_state = q ''state'',
                         az_scopes = sr_scopes asked, az_challenge = the (q ''code_challenge''),
                         az_resource = q ''resource'', az_client_name = rc_client_name client\<rparr>)),
           cache'))"

definition consent_url :: "flow_world \<Rightarrow> string \<Rightarrow> string" where
  "consent_url w blob =
     ui_base_path (mw_parse (fl_metadata w)) (fl_public_url w) @ ''/oauth/consent?request='' @ encode_uri_component blob"

definition request_blob :: "horizon_config \<Rightarrow> nat \<Rightarrow> authz_request \<Rightarrow> string" where
  "request_blob cfg now r = sign (flow_key cfg) RequestKind (JObj (authz_fields r)) (Some request_ttl_ms) now"

definition authorize_endpoint ::
  "flow_world \<Rightarrow> horizon_config \<Rightarrow> nat \<Rightarrow> query \<Rightarrow> metadata_cache \<Rightarrow> oauth_reply \<times> metadata_cache" where
  "authorize_endpoint w cfg now q cache =
     (if \<not> oauth_ready cfg then (oauth_off, cache)
      else (case authorize_request w cfg now q cache of
              (Inl reply, cache') \<Rightarrow> (reply, cache')
            | (Inr r, cache') \<Rightarrow> (Redirect302 (consent_url w (request_blob cfg now r)), cache')))"

subsection \<open>Consent\<close>

definition read_request :: "horizon_config \<Rightarrow> nat \<Rightarrow> string \<Rightarrow> authz_request option" where
  "read_request cfg now raw =
     (case verify_signed (flow_key cfg) RequestKind raw now of Some v \<Rightarrow> authz_of_json v | None \<Rightarrow> None)"

definition consent_show :: "horizon_config \<Rightarrow> nat \<Rightarrow> session \<Rightarrow> auth_kind \<Rightarrow> query \<Rightarrow> oauth_reply" where
  "consent_show cfg now s kind q =
     (if \<not> oauth_ready cfg then oauth_off
      else if \<not> require_browser_session kind then OauthError 403 ''browser_session_required''
      else (case (if truthy (q ''request'') then read_request cfg now (the (q ''request'')) else None) of
              None \<Rightarrow> OauthError 400 ''invalid_request''
            | Some r \<Rightarrow> ConsentShown
                \<lparr>cv_client_name = (case az_client_name r of Some n \<Rightarrow> n | None \<Rightarrow> []),
                 cv_client_url = (if is_metadata_url (az_client_id r) then Some (az_client_id r) else None),
                 cv_redirect_uri = az_redirect_uri r, cv_scopes = az_scopes r, cv_username = ss_username s,
                 cv_roles = ss_roles s, cv_verbs = granted_verbs cfg (ss_roles s) (az_scopes r)\<rparr>))"

definition consent_body :: "json \<Rightarrow> (string \<times> bool) option" where
  "consent_body body =
     (case (get_field ''request'' body, get_field ''approve'' body) of
        (Some (JStr r), Some (JBool b)) \<Rightarrow> if r \<noteq> [] then Some (r, b) else None
      | _ \<Rightarrow> None)"

definition state_params :: "string option \<Rightarrow> (string \<times> string) list" where
  "state_params state = (if truthy state then [(''state'', the state)] else [])"

definition issue_code :: "horizon_config \<Rightarrow> nat \<Rightarrow> authz_request \<Rightarrow> string \<Rightarrow> string" where
  "issue_code cfg now r sub = sign (flow_key cfg) CodeKind (code_json r sub) (Some code_ttl_ms) now"

definition consent_decide :: "flow_world \<Rightarrow> horizon_config \<Rightarrow> nat \<Rightarrow> session \<Rightarrow> auth_kind \<Rightarrow> json \<Rightarrow> oauth_reply" where
  "consent_decide w cfg now s kind body =
     (if \<not> oauth_ready cfg then oauth_off
      else if \<not> require_browser_session kind then OauthError 403 ''browser_session_required''
      else (case consent_body body of
        None \<Rightarrow> OauthError 400 ''invalid_request''
      | Some (raw, approve) \<Rightarrow>
          (case read_request cfg now raw of
             None \<Rightarrow> OauthError 400 ''invalid_request''
           | Some r \<Rightarrow>
               if \<not> approve \<and> \<not> is_loopback_redirect (mw_parse (fl_metadata w)) (az_redirect_uri r) then Decided None True
               else if mw_parse (fl_metadata w) (az_redirect_uri r) = None then Raised
               else if \<not> approve then Decided (Some (fl_with_params w (az_redirect_uri r)
                 ((''error'', ''access_denied'') # state_params (az_state r)))) True
               else Decided (Some (fl_with_params w (az_redirect_uri r)
                 ((''code'', issue_code cfg now r (ss_username s)) # state_params (az_state r)))) False)))"

subsection \<open>Tokens\<close>

record token_body =
  tb_grant_type :: string
  tb_code :: "string option"
  tb_redirect_uri :: "string option"
  tb_client_id :: "string option"
  tb_code_verifier :: "string option"
  tb_refresh_token :: "string option"

definition read_token_body :: "json \<Rightarrow> token_body option" where
  "read_token_body body =
     (case (get_field ''grant_type'' body, optional_text (get_field ''code'' body), optional_text (get_field ''redirect_uri'' body),
            optional_text (get_field ''client_id'' body), optional_text (get_field ''code_verifier'' body),
            optional_text (get_field ''refresh_token'' body), optional_text (get_field ''resource'' body)) of
        (Some (JStr g), Some c, Some r, Some i, Some v, Some rt, Some res) \<Rightarrow>
          Some \<lparr>tb_grant_type = g, tb_code = c, tb_redirect_uri = r, tb_client_id = i, tb_code_verifier = v,
                tb_refresh_token = rt\<rparr>
      | _ \<Rightarrow> None)"

definition s256 :: "string \<Rightarrow> string" where
  "s256 verifier = b64url_encode (sha256 (utf8_encode verifier))"

text \<open>A code as the token endpoint reads it: the request that was approved and who approved it.\<close>

definition read_code :: "horizon_config \<Rightarrow> nat \<Rightarrow> string \<Rightarrow> (authz_request \<times> string) option" where
  "read_code cfg now raw =
     (case verify_signed (flow_key cfg) CodeKind raw now of
        None \<Rightarrow> None
      | Some v \<Rightarrow>
          (case (authz_of_json v, as_string (get_field ''sub'' v)) of (Some r, Some sub) \<Rightarrow> Some (r, sub) | _ \<Rightarrow> None))"

definition access_ttl :: "horizon_config \<Rightarrow> nat" where "access_ttl cfg = oauth_access_minutes (cfg_oauth cfg) * 60000"
definition refresh_ttl :: "horizon_config \<Rightarrow> nat" where "refresh_ttl cfg = oauth_refresh_days (cfg_oauth cfg) * 86400000"

definition give_tokens :: "horizon_config \<Rightarrow> nat \<Rightarrow> string \<times> string \<Rightarrow> string \<Rightarrow> string \<Rightarrow> string option \<Rightarrow> oauth_reply" where
  "give_tokens cfg now entropy sub scope aud =
     (let claims = (\<lambda>e. \<lparr>tc_sub = sub, tc_scope = scope, tc_aud = (if truthy aud then aud else None), tc_jti = new_id e\<rparr>) in
      TokensGiven
        \<lparr>tr_access_token = issue_access_token (flow_key cfg) (claims (fst entropy)) (access_ttl cfg) now,
         tr_expires_in = access_ttl cfg div 1000, tr_scope = scope,
         tr_refresh_token = (if refresh_ttl cfg > 0
           then Some (issue_refresh_token (flow_key cfg) (claims (snd entropy)) (refresh_ttl cfg) now) else None)\<rparr>)"

definition redeem_code :: "horizon_config \<Rightarrow> nat \<Rightarrow> string \<times> string \<Rightarrow> token_body \<Rightarrow> oauth_reply" where
  "redeem_code cfg now entropy b =
     (if \<not> truthy (tb_code b) \<or> \<not> truthy (tb_code_verifier b) then OauthError 400 ''invalid_request''
      else (case read_code cfg now (the (tb_code b)) of
        None \<Rightarrow> OauthError 400 ''invalid_grant''
      | Some (r, sub) \<Rightarrow>
          if truthy (tb_client_id b) \<and> tb_client_id b \<noteq> Some (az_client_id r) then OauthError 400 ''invalid_grant''
          else if truthy (tb_redirect_uri b) \<and> tb_redirect_uri b \<noteq> Some (az_redirect_uri r) then OauthError 400 ''invalid_grant''
          else if s256 (the (tb_code_verifier b)) \<noteq> az_challenge r then OauthError 400 ''invalid_grant''
          else give_tokens cfg now entropy sub (join_with '' '' (az_scopes r)) (az_resource r)))"

definition redeem_refresh :: "horizon_config \<Rightarrow> nat \<Rightarrow> string \<times> string \<Rightarrow> token_body \<Rightarrow> oauth_reply" where
  "redeem_refresh cfg now entropy b =
     (if refresh_ttl cfg = 0 then OauthError 400 ''unsupported_grant_type''
      else if \<not> truthy (tb_refresh_token b) then OauthError 400 ''invalid_request''
      else (case read_refresh_token (flow_key cfg) (the (tb_refresh_token b)) now of
              None \<Rightarrow> OauthError 400 ''invalid_grant''
            | Some c \<Rightarrow> give_tokens cfg now entropy (tc_sub c) (tc_scope c) (tc_aud c)))"

definition token_endpoint :: "horizon_config \<Rightarrow> nat \<Rightarrow> string \<times> string \<Rightarrow> json \<Rightarrow> oauth_reply" where
  "token_endpoint cfg now entropy body =
     (if \<not> oauth_ready cfg then oauth_off
      else (case read_token_body body of
        None \<Rightarrow> OauthError 400 ''invalid_request''
      | Some b \<Rightarrow>
          if tb_grant_type b = ''authorization_code'' then redeem_code cfg now entropy b
          else if tb_grant_type b = ''refresh_token'' then redeem_refresh cfg now entropy b
          else OauthError 400 ''unsupported_grant_type''))"

subsection \<open>Lemmas\<close>

lemma authz_of_fields: "authz_of_json (JObj (authz_fields r)) = Some r"
  by (cases r) (simp add: authz_of_json_def authz_fields_def optional_field_def strings_of_def map_filter_def comp_def
      split: option.split)

lemma authz_of_code: "authz_of_json (code_json r sub) = Some r \<and> get_field ''sub'' (code_json r sub) = Some (JStr sub)"
  by (cases r) (simp add: authz_of_json_def code_json_def authz_fields_def optional_field_def strings_of_def map_filter_def comp_def
      split: option.split)

definition request_text :: "authz_request \<Rightarrow> bool" where
  "request_text r \<longleftrightarrow>
     well_formed (az_client_id r) \<and> well_formed (az_redirect_uri r) \<and> well_formed (az_challenge r) \<and>
     (\<forall>s \<in> set (az_scopes r). well_formed s) \<and>
     (\<forall>x. az_state r = Some x \<or> az_resource r = Some x \<or> az_client_name r = Some x \<longrightarrow> well_formed x)"

lemma code_text: "request_text r \<Longrightarrow> well_formed sub \<Longrightarrow> text_json (code_json r sub)"
  by (auto simp: request_text_def code_json_def authz_fields_def optional_field_def well_formed_ascii split: option.split)

lemma fields_text: "request_text r \<Longrightarrow> text_json (JObj (authz_fields r))"
  by (auto simp: request_text_def authz_fields_def optional_field_def well_formed_ascii split: option.split)

lemma read_request_blob:
  "request_text r \<Longrightarrow> read_request cfg t' (request_blob cfg t r) = (if t' < t + request_ttl_ms then Some r else None)"
  by (simp add: read_request_def request_blob_def verify_sign [OF fields_text] authz_of_fields)

lemma read_issued_code:
  "request_text r \<Longrightarrow> well_formed sub \<Longrightarrow>
   read_code cfg t' (issue_code cfg t r sub) = (if t' < t + code_ttl_ms then Some (r, sub) else None)"
  by (simp add: read_code_def issue_code_def verify_sign [OF code_text] authz_of_code)

lemma sign_not_Nil: "sign key kind d ttl now \<noteq> []"
  by (simp add: sign_def Let_def)

lemma scope_words_join: "(\<forall>s \<in> set ss. s \<noteq> [] \<and> CHR '' '' \<notin> set s) \<Longrightarrow> scope_words (join_with '' '' ss) = ss"
proof (cases "ss = []")
  case False
  moreover assume "\<forall>s \<in> set ss. s \<noteq> [] \<and> CHR '' '' \<notin> set s"
  ultimately show ?thesis by (simp add: scope_words_def split_on_join)
qed (simp add: scope_words_def)

lemma parsed_scopes:
  assumes "sr_unknown (parse_scope raw) = None"
  shows "\<forall>s \<in> set (sr_scopes (parse_scope raw)). s \<noteq> [] \<and> CHR '' '' \<notin> set s \<and> well_formed s"
proof -
  have "list_all (\<lambda>s. s \<noteq> [] \<and> CHR '' '' \<notin> set s \<and> list_all (\<lambda>c. of_char c < (128 :: nat)) s) (known_scopes @ object_prototype_names)"
    by code_simp
  then have names: "s \<noteq> [] \<and> CHR '' '' \<notin> set s \<and> well_formed s" if "s \<in> set known_scopes \<or> s \<in> set object_prototype_names" for s
    using that by (auto simp: list_all_iff well_formed_ascii)
  have "set (sr_scopes (parse_scope raw)) \<subseteq> set known_scopes \<union> set object_prototype_names"
    using assms by (auto simp: parse_scope_def Let_def find_None_iff default_scope_def known_scopes_def scope_verbs_def split: option.splits if_splits)
  then show ?thesis using names by blast
qed

text \<open>What \<open>/authorize\<close> lets through to the consent screen.\<close>

lemma authorize_request_Inr:
  assumes "authorize_request w cfg now q cache = (Inr r, cache')"
  obtains client where "asking_client w cfg now q cache = (Some client, cache')"
    "q ''client_id'' = Some (az_client_id r)" "q ''redirect_uri'' = Some (az_redirect_uri r)"
    "redirect_allowed (mw_parse (fl_metadata w)) (rc_redirect_uris client) (az_redirect_uri r)"
    "q ''code_challenge'' = Some (az_challenge r)" "az_challenge r \<noteq> []" "sr_unknown (parse_scope (q ''scope'')) = None"
    "az_scopes r = sr_scopes (parse_scope (q ''scope''))" "az_state r = q ''state''" "az_resource r = q ''resource''"
    "az_client_name r = rc_client_name client" "truthy (az_resource r) \<longrightarrow> az_resource r = Some (flow_issuer cfg @ ''/api/mcp'')"
proof -
  obtain co c1 where a: "asking_client w cfg now q cache = (co, c1)" by fastforce
  obtain client where c: "co = Some client" using assms a by (cases co) (auto simp: authorize_request_def)
  have cid: "truthy (q ''client_id'')" using a c by (auto simp: asking_client_def split: if_splits)
  have uri: "truthy (q ''redirect_uri'')" using assms a c by (auto simp: authorize_request_def split: if_splits)
  have ch: "truthy (q ''code_challenge'')" using assms a c uri by (auto simp: authorize_request_def Let_def split: if_splits)
  note step = assms [unfolded authorize_request_def a c, simplified]
  show thesis
    using step cid uri ch a c
    by (intro that [of client]) (auto simp: Let_def truthy_def split: if_splits option.splits)
qed

lemma ready_facts:
  assumes "oauth_ready cfg"
  shows "oauth_enabled (cfg_oauth cfg)" "oauth_signing_key (cfg_oauth cfg) \<noteq> []" "audience_is_ours cfg (flow_issuer cfg @ ''/api/mcp'')"
proof -
  let ?i = "oauth_issuer (cfg_oauth cfg)"
  show "oauth_enabled (cfg_oauth cfg)" "oauth_signing_key (cfg_oauth cfg) \<noteq> []"
    using assms by (simp_all add: oauth_ready_def flow_key_def)
  have "CHR ''h'' \<in> set ?i" using assms by (auto simp: oauth_ready_def http_origin_def prefix_def)
  then have "strip_slashes ?i \<noteq> []" by (fastforce simp: strip_slashes_def dropWhile_eq_Nil_conv)
  then show "audience_is_ours cfg (flow_issuer cfg @ ''/api/mcp'')" by (simp add: audience_is_ours_def flow_issuer_def)
qed

lemma new_id_text: "well_formed (new_id e)"
  using b64url_visible [of _ e] by (intro well_formed_ascii) (auto simp: new_id_def plain_char_def list_all_iff)

lemma code_redeemed:
  assumes "oauth_ready cfg" "request_text r" "well_formed sub" "t2 < t1 + code_ttl_ms" "verifier \<noteq> []" "s256 verifier = az_challenge r"
  shows "token_endpoint cfg t2 entropy
      (JObj [(''grant_type'', JStr ''authorization_code''), (''code'', JStr (issue_code cfg t1 r sub)),
             (''code_verifier'', JStr verifier)]) =
    give_tokens cfg t2 entropy sub (join_with '' '' (az_scopes r)) (az_resource r)"
proof -
  have "issue_code cfg t1 r sub \<noteq> []" by (simp add: issue_code_def sign_not_Nil)
  then show ?thesis using assms
    by (simp add: token_endpoint_def read_token_body_def optional_text_def redeem_code_def read_issued_code)
qed

lemma approved:
  assumes "oauth_ready cfg" "request_text r" "t1 < t0 + request_ttl_ms" "mw_parse (fl_metadata w) (az_redirect_uri r) \<noteq> None"
  shows "consent_decide w cfg t1 s SessionKind
       (JObj [(''request'', JStr (request_blob cfg t0 r)), (''approve'', JBool True)]) =
    Decided (Some (fl_with_params w (az_redirect_uri r)
      ((''code'', issue_code cfg t1 r (ss_username s)) # state_params (az_state r)))) False"
proof -
  have "request_blob cfg t0 r \<noteq> []" by (simp add: request_blob_def sign_not_Nil)
  then show ?thesis using assms
    by (simp add: consent_decide_def require_browser_session_def consent_body_def read_request_blob)
qed

subsection \<open>Properties\<close>

text \<open>C1: A sign-in of an agent, end to end.  A request \<open>/authorize\<close> lets through, approved within ten minutes
  by a person in a browser, yields a code that, redeemed within a minute by whoever holds the verifier
  behind the challenge, yields an access token that acts, while it lasts, as that person and with the
  scopes asked for and nothing else.\<close>

theorem code_flow_completes:
  assumes "oauth_ready cfg" and "authorize_request w cfg t0 q cache = (Inr r, cache')"
    and "request_text r" "well_formed (ss_username s)"
    and "t1 < t0 + request_ttl_ms" "t2 < t1 + code_ttl_ms"
    and "mw_parse (fl_metadata w) (az_redirect_uri r) \<noteq> None" "verifier \<noteq> []" "s256 verifier = az_challenge r"
    and "resolver_ok rl" "resolve_role dir cfg t3 (ss_username s) rl = (x, rl')" "rs_known x" "rs_roles x \<noteq> []"
  shows "let code = issue_code cfg t1 r (ss_username s) in
    consent_decide w cfg t1 s SessionKind
       (JObj [(''request'', JStr (request_blob cfg t0 r)), (''approve'', JBool True)]) =
      Decided (Some (fl_with_params w (az_redirect_uri r) ((''code'', code) # state_params (az_state r)))) False \<and>
    (\<exists>tr. token_endpoint cfg t2 entropy
        (JObj [(''grant_type'', JStr ''authorization_code''), (''code'', JStr code), (''code_verifier'', JStr verifier)]) =
        TokensGiven tr \<and>
      (t3 < t2 + access_ttl cfg \<longrightarrow>
       fst (resolve_oauth dir cfg t3 (Some (''Bearer '' @ tr_access_token tr)) rl) =
         Some \<lparr>oi_username = ss_username s, oi_roles = rs_roles x, oi_verb_cap = verb_cap_for (az_scopes r),
               oi_scope = join_with '' '' (az_scopes r), oi_token_id = new_id (fst entropy)\<rparr>))"
proof -
  let ?code = "issue_code cfg t1 r (ss_username s)"
  let ?c = "\<lparr>tc_sub = ss_username s, tc_scope = join_with '' '' (az_scopes r),
     tc_aud = (if truthy (az_resource r) then az_resource r else None), tc_jti = new_id (fst entropy)\<rparr>"
  note asked = authorize_request_Inr [OF assms(2)]
  have scopes: "\<forall>x \<in> set (az_scopes r). x \<noteq> [] \<and> CHR '' '' \<notin> set x \<and> well_formed x"
    by (rule asked) (simp add: parsed_scopes)
  have aud: "truthy (az_resource r) \<longrightarrow> az_resource r = Some (flow_issuer cfg @ ''/api/mcp'')" by (rule asked)
  note ready = ready_facts [OF assms(1)]
  have texts: "well_formed (tc_sub ?c)" "well_formed (tc_scope ?c)" "\<forall>a. tc_aud ?c = Some a \<longrightarrow> well_formed a" "well_formed (tc_jti ?c)"
    using assms(3,4) scopes well_formed_join [of "'' ''" "az_scopes r"] new_id_text
    by (auto simp: request_text_def well_formed_ascii)
  have ours: "\<forall>a. tc_aud ?c = Some a \<longrightarrow> a \<noteq> [] \<longrightarrow> audience_is_ours cfg a" using aud ready(3) by auto
  from issued_token_resolves [OF ready(1,2) texts ours assms(10), of dir t3 x rl' "access_ttl cfg" t2] assms(11-13)
  have "t3 < t2 + access_ttl cfg \<Longrightarrow>
      fst (resolve_oauth dir cfg t3 (Some (''Bearer '' @ issue_access_token (flow_key cfg) ?c (access_ttl cfg) t2)) rl) =
      Some \<lparr>oi_username = ss_username s, oi_roles = rs_roles x, oi_verb_cap = verb_cap_for (az_scopes r),
            oi_scope = join_with '' '' (az_scopes r), oi_token_id = new_id (fst entropy)\<rparr>"
    using scope_words_join [of "az_scopes r"] scopes by (simp add: flow_key_def)
  then show ?thesis
    unfolding Let_def code_redeemed [OF assms(1,3,4,6,8,9)]
    using approved [OF assms(1,3,5,7), of s] by (simp add: give_tokens_def)
qed

text \<open>C3: Every code is some person's sign-in.  If the consent route gives out a code to a request the server
  admitted, that request came from a browser session, the session came from a sign-in in the history
  that was let in, with a password or through a provider, no sign-out with its cookie has followed, and the code is for that very person and
  for a request this server signed less than ten minutes ago.\<close>

theorem grant_traces_to_sign_in:
  assumes "events_in_order es" and "\<forall>e \<in> set es. event_time e \<le> now"
    and "fst (require_auth (lw_credentials w) cfg now cr (sv_auth (server_run w cfg es))) = Admitted s kind tid ck"
    and "consent_decide fw cfg now s kind body = Decided (Some target) False"
  shows "\<exists>later ev earlier entropy who raw r.
    es = later @ ev # earlier \<and> lets_in w cfg ev (server_run w cfg earlier) = Some (entropy, who) \<and>
    (\<forall>cookies u. SignOut cookies u \<in> set later \<longrightarrow>
       map_of cookies (session_cookie_name (cfg_session cfg)) \<noteq> Some (b64url_encode entropy)) \<and>
    consent_body body = Some (raw, True) \<and> read_request cfg now raw = Some r \<and>
    target = fl_with_params fw (az_redirect_uri r) ((''code'', issue_code cfg now r (sg_username who)) # state_params (az_state r))"
proof -
  have kind: "kind = SessionKind"
    using assms(4) by (auto simp: consent_decide_def oauth_off_def require_browser_session_def split: if_splits)
  obtain raw b where b: "consent_body body = Some (raw, b)"
    using assms(4) kind by (auto simp: consent_decide_def oauth_off_def require_browser_session_def split: if_splits option.splits)
  obtain r where r: "read_request cfg now raw = Some r"
    using assms(4) kind b by (auto simp: consent_decide_def oauth_off_def require_browser_session_def split: if_splits option.splits)
  have "b" and target: "target = fl_with_params fw (az_redirect_uri r)
      ((''code'', issue_code cfg now r (ss_username s)) # state_params (az_state r))"
    using assms(4) kind b r by (auto simp: consent_decide_def oauth_off_def require_browser_session_def split: if_splits)
  obtain later ev earlier entropy who where
    e: "es = later @ ev # earlier" "lets_in w cfg ev (server_run w cfg earlier) = Some (entropy, who)"
      "s = (new_session (b64url_encode entropy) (event_time ev) who)\<lparr>ss_last_seen := now\<rparr>"
      "\<forall>cookies u. SignOut cookies u \<in> set later \<longrightarrow>
       map_of cookies (session_cookie_name (cfg_session cfg)) \<noteq> Some (b64url_encode entropy)"
    using session_traced_to_sign_in [OF assms(1,2) assms(3) [unfolded kind]] by blast
  have "ss_username s = sg_username who" unfolding e(3) by (simp add: new_session_def)
  then show ?thesis using e(1,2,4) b r target \<open>b\<close> by (intro exI conjI) simp_all
qed

text \<open>Renewing a grant changes nothing but its time.  The refresh token given along with an access token
  renews, until it expires and never after, exactly the subject, scope and audience it came with.\<close>

theorem refresh_renews_the_same:
  assumes "oauth_ready cfg" and "give_tokens cfg t entropy sub scope aud = TokensGiven tr"
    and "tr_refresh_token tr = Some rt"
    and "well_formed sub" "well_formed scope" "\<forall>a. aud = Some a \<longrightarrow> well_formed a"
  shows "token_endpoint cfg t' entropy' (JObj [(''grant_type'', JStr ''refresh_token''), (''refresh_token'', JStr rt)]) =
    (if t' < t + refresh_ttl cfg then give_tokens cfg t' entropy' sub scope aud else OauthError 400 ''invalid_grant'')"
proof -
  let ?c = "\<lparr>tc_sub = sub, tc_scope = scope, tc_aud = (if truthy aud then aud else None), tc_jti = new_id (snd entropy)\<rparr>"
  have pos: "0 < refresh_ttl cfg" and rt: "rt = issue_refresh_token (flow_key cfg) ?c (refresh_ttl cfg) t"
    using assms(2,3) by (auto simp: give_tokens_def Let_def split: if_splits)
  have wf: "text_json (claims_json ?c)" by (rule claims_text) (use assms(4-6) new_id_text in auto)
  have read: "read_refresh_token (flow_key cfg) rt t' = (if t' < t + refresh_ttl cfg then Some ?c else None)"
    unfolding rt by (simp add: read_refresh_token_def issue_refresh_token_def verify_sign [OF wf])
  have "truthy (Some rt)" unfolding rt by (simp add: issue_refresh_token_def refresh_prefix_def)
  moreover have "give_tokens cfg t' entropy' sub scope (if truthy aud then aud else None) = give_tokens cfg t' entropy' sub scope aud"
    by (simp add: give_tokens_def)
  ultimately show ?thesis using assms(1) pos
    by (simp add: token_endpoint_def read_token_body_def optional_text_def redeem_refresh_def read)
qed

text \<open>No one is sent to a stranger's page by an error.  Where \<open>/authorize\<close> redirects a browser, it is to this
  server's own consent page, or to a redirect the client is allowed whose host is the browser's own
  machine.\<close>

theorem authorize_redirects_home:
  assumes "authorize_endpoint w cfg now q cache = (Redirect302 target, cache')"
  shows "prefix (ui_base_path (mw_parse (fl_metadata w)) (fl_public_url w) @ ''/oauth/consent?request='') target \<or>
    (\<exists>client uri u ps. fst (asking_client w cfg now q cache) = Some client \<and>
       redirect_allowed (mw_parse (fl_metadata w)) (rc_redirect_uris client) uri \<and>
       mw_parse (fl_metadata w) uri = Some u \<and> loopback_host (u_hostname u) \<and> target = fl_with_params w uri ps)"
proof (cases "fst (authorize_request w cfg now q cache)")
  case (Inr r)
  then show ?thesis using assms
    by (auto simp: authorize_endpoint_def oauth_off_def consent_url_def split: if_splits prod.splits)
next
  case (Inl reply)
  then have reply: "reply = Redirect302 target"
    using assms by (auto simp: authorize_endpoint_def oauth_off_def split: if_splits prod.splits)
  obtain co c1 where a: "asking_client w cfg now q cache = (co, c1)" by fastforce
  obtain client where c: "co = Some client" using Inl reply a by (cases co) (auto simp: authorize_request_def)
  have uri: "truthy (q ''redirect_uri'')" "redirect_allowed (mw_parse (fl_metadata w)) (rc_redirect_uris client) (the (q ''redirect_uri''))"
    using Inl reply a c by (auto simp: authorize_request_def split: if_splits)
  have "\<exists>err. redirect_error w (the (q ''redirect_uri'')) err (q ''state'') = Redirect302 target"
    using Inl reply a c uri by (auto simp: authorize_request_def Let_def split: if_splits)
  then obtain u ps where "mw_parse (fl_metadata w) (the (q ''redirect_uri'')) = Some u" "loopback_host (u_hostname u)"
      "target = fl_with_params w (the (q ''redirect_uri'')) ps"
    by (auto simp: redirect_error_def loopback_host_def split: option.splits if_splits)
  then show ?thesis using a c uri by auto
qed

text \<open>An empty redirect switches the registration rule off.  The search for a redirect that is not
  acceptable finds the empty text first, and the code takes its finding nothing and its finding the empty
  text for the same; a registration that lists the empty text first is granted whatever else it lists,
  a \<open>javascript:\<close> URL included, and \<open>/authorize\<close> then lets each of them through to the consent screen.\<close>

theorem empty_redirect_admits_any:
  assumes "oauth_ready cfg" and "mw_parse (fl_metadata w) [] = None"
    and "\<forall>x \<in> set uris. well_formed x" "u \<in> set uris" "u \<noteq> []"
    and "q ''client_id'' = Some (register_client (flow_key cfg) ([] # uris) None now)" "q ''redirect_uri'' = Some u"
    and "q ''response_type'' = Some ''code''" "truthy (q ''code_challenge'')" "q ''code_challenge_method'' = Some ''S256''"
    and "q ''scope'' = None" "q ''resource'' = None"
  shows "register_endpoint w cfg now (JObj [(''redirect_uris'', JArr (map JStr ([] # uris)))]) =
      Registered (register_client (flow_key cfg) ([] # uris) None now) (now div 1000) ([] # uris) None \<and>
    (\<exists>r. authorize_request w cfg now' q cache = (Inr r, cache) \<and> az_redirect_uri r = u)"
proof
  let ?cid = "register_client (flow_key cfg) ([] # uris) None now"
  have "\<not> redirect_uri_acceptable (mw_parse (fl_metadata w)) []" by (simp add: redirect_uri_acceptable_def assms(2))
  then show "register_endpoint w cfg now (JObj [(''redirect_uris'', JArr (map JStr ([] # uris)))]) =
      Registered ?cid (now div 1000) ([] # uris) None"
    using assms(1) by (simp add: register_endpoint_def register_body_def optional_text_def list_all_iff comp_def)
  have cid: "?cid \<noteq> []" "\<not> is_metadata_url ?cid" by (simp_all add: register_client_def client_prefix_def is_metadata_url_def)
  have "read_client (flow_key cfg) ?cid now' =
      Some \<lparr>rc_redirect_uris = [] # uris, rc_client_name = None, rc_created_at = int now\<rparr>"
    by (rule registered_reads_back) (use assms(3) in auto)
  then have "asking_client w cfg now' q cache =
      (Some \<lparr>rc_redirect_uris = [] # uris, rc_client_name = None, rc_created_at = int now\<rparr>, cache)"
    using cid assms(6) by (simp add: asking_client_def)
  moreover have "redirect_allowed (mw_parse (fl_metadata w)) ([] # uris) u" using assms(4) by (simp add: redirect_allowed_def)
  moreover have "sr_unknown (parse_scope None) = None" by code_simp
  ultimately show "\<exists>r. authorize_request w cfg now' q cache = (Inr r, cache) \<and> az_redirect_uri r = u"
    using assms(5,7-12) by (simp add: authorize_request_def Let_def)
qed

subsection \<open>Witnesses\<close>

definition sample_flow :: flow_world where
  "sample_flow =
     \<lparr>fl_metadata = \<lparr>mw_parse = sample_parser, mw_resolve = \<lambda>h. None, mw_fetch = \<lambda>k a. None\<rparr>,
      fl_with_params = \<lambda>u ps. u, fl_public_url = []\<rparr>"

definition flow_sample :: horizon_config where
  "flow_sample = oauth_sample\<lparr>cfg_oauth := (cfg_oauth oauth_sample)\<lparr>oauth_refresh_days := 30\<rparr>\<rparr>"

lemma flow_sample_ready: "oauth_ready flow_sample" "flow_key flow_sample = ''k''" "refresh_ttl flow_sample = 2592000000"
    "access_ttl flow_sample = 300000"
  by (simp_all add: flow_sample_def oauth_sample_def oauth_ready_def flow_key_def http_origin_def refresh_ttl_def access_ttl_def)

definition sample_query :: "string list \<Rightarrow> string \<Rightarrow> query" where
  "sample_query uris u = map_of
     [(''client_id'', register_client ''k'' uris None 0), (''redirect_uri'', u), (''response_type'', ''code''),
      (''code_challenge'', s256 ''v''), (''code_challenge_method'', ''S256'')]"

lemma s256_not_Nil: "s256 v \<noteq> []"
  using length_sha256 [of "utf8_encode v"] by (auto simp: s256_def b64url_Nil_iff)

theorem empty_redirect_admits_any_witness:
  "\<exists>r. authorize_request sample_flow flow_sample 7 (sample_query [[], ''javascript:x''] ''javascript:x'') [] = (Inr r, []) \<and>
     az_redirect_uri r = ''javascript:x''"
proof -
  have "mw_parse (fl_metadata sample_flow) [] = None" by (simp add: sample_flow_def sample_parser_def)
  from empty_redirect_admits_any [OF flow_sample_ready(1) this, of "[''javascript:x'']" "''javascript:x''" "sample_query [[], ''javascript:x''] ''javascript:x''" 0 7 "[]"]
  show ?thesis by (simp add: sample_query_def flow_sample_ready s256_not_Nil well_formed_ascii)
qed

lemma visible_text: "(\<And>c. c \<in> set s \<Longrightarrow> plain_char c) \<Longrightarrow> well_formed s"
  by (rule well_formed_ascii) (auto simp: plain_char_def list_all_iff)

lemma s256_text: "well_formed (s256 v)"
  by (rule visible_text) (simp add: s256_def b64url_visible)

lemma client_id_text: "well_formed (register_client key uris name now)"
  by (rule visible_text) (auto simp: register_client_def client_prefix_def plain_char_def dest: signed_visible [unfolded plain_char_def])

abbreviation sample_uri :: string where "sample_uri \<equiv> ''http://localhost:1/cb''"

definition sample_request :: authz_request where
  "sample_request =
     \<lparr>az_client_id = register_client ''k'' [sample_uri] None 0, az_redirect_uri = sample_uri, az_state = None,
      az_scopes = [''horizon:read''], az_challenge = s256 ''v'', az_resource = None, az_client_name = None\<rparr>"

lemma sample_asked:
  "authorize_request sample_flow flow_sample 0 (sample_query [sample_uri] sample_uri) [] = (Inr sample_request, [])"
proof -
  have "\<not> is_metadata_url (register_client ''k'' [sample_uri] None 0)" "register_client ''k'' [sample_uri] None 0 \<noteq> []"
    by (simp_all add: register_client_def client_prefix_def is_metadata_url_def)
  moreover have "read_client ''k'' (register_client ''k'' [sample_uri] None 0) 0 =
      Some \<lparr>rc_redirect_uris = [sample_uri], rc_client_name = None, rc_created_at = 0\<rparr>"
    using registered_reads_back [of "[sample_uri]" None "''k''" 0 0] by (simp add: well_formed_ascii)
  moreover have "parse_scope None = \<lparr>sr_scopes = [''horizon:read''], sr_unknown = None\<rparr>" by code_simp
  ultimately show ?thesis
    by (simp add: authorize_request_def asking_client_def sample_query_def flow_sample_ready redirect_allowed_def
        s256_not_Nil sample_request_def Let_def)
qed

lemma sample_request_text: "request_text sample_request"
  by (simp add: request_text_def sample_request_def client_id_text s256_text well_formed_ascii)

lemma sample_parses: "mw_parse (fl_metadata sample_flow) sample_uri \<noteq> None"
  by (simp add: sample_flow_def sample_parser_def)

lemma flow_ann: "resolve_role sample_directory flow_sample 7 ''ann'' new_role_state =
   (\<lparr>rs_roles = [''viewer'', ''admin''], rs_known = True\<rparr>, new_role_state)"
  by (simp add: resolve_role_def flow_sample_def oauth_sample_def token_config_def sample_config_def Let_def)

theorem code_flow_completes_witness:
  "\<exists>tr. token_endpoint flow_sample 2 (''a'', ''b'')
        (JObj [(''grant_type'', JStr ''authorization_code''), (''code'', JStr (issue_code flow_sample 1 sample_request ''ann'')),
               (''code_verifier'', JStr ''v'')]) = TokensGiven tr \<and>
      fst (resolve_oauth sample_directory flow_sample 7 (Some (''Bearer '' @ tr_access_token tr)) new_role_state) \<noteq> None"
proof -
  let ?s = "new_session ''s'' 0 sample_sign_in"
  have u: "ss_username ?s = ''ann''" by (simp add: new_session_def sample_sign_in_def)
  have ok: "resolver_ok new_role_state" by (simp add: resolver_ok_def new_role_state_def)
  have "mw_parse (fl_metadata sample_flow) (az_redirect_uri sample_request) \<noteq> None" "s256 ''v'' = az_challenge sample_request"
    using sample_parses by (simp_all add: sample_request_def)
  from code_flow_completes [OF flow_sample_ready(1) sample_asked sample_request_text, of ?s 1 2 "''v''", OF _ _ _ this(1) _ this(2) ok,
      of sample_directory 7 "\<lparr>rs_roles = [''viewer'', ''admin''], rs_known = True\<rparr>" new_role_state "(''a'', ''b'')"]
  show ?thesis
    by (simp add: u flow_ann request_ttl_ms_def code_ttl_ms_def flow_sample_ready well_formed_ascii Let_def) blast
qed

theorem refresh_renews_the_same_witness:
  "\<exists>rt. token_endpoint flow_sample 9 (''c'', ''d'') (JObj [(''grant_type'', JStr ''refresh_token''), (''refresh_token'', JStr rt)]) =
     give_tokens flow_sample 9 (''c'', ''d'') ''ann'' ''horizon:read'' None"
proof -
  obtain tr rt where g: "give_tokens flow_sample 0 (''a'', ''b'') ''ann'' ''horizon:read'' None = TokensGiven tr" "tr_refresh_token tr = Some rt"
    by (simp add: give_tokens_def flow_sample_ready)
  from refresh_renews_the_same [OF flow_sample_ready(1) g, of 9 "(''c'', ''d'')"]
  have "token_endpoint flow_sample 9 (''c'', ''d'') (JObj [(''grant_type'', JStr ''refresh_token''), (''refresh_token'', JStr rt)]) =
     give_tokens flow_sample 9 (''c'', ''d'') ''ann'' ''horizon:read'' None"
    by (simp add: well_formed_ascii flow_sample_ready)
  then show ?thesis by blast
qed

theorem authorize_redirects_home_witness:
  "\<exists>target cache'. authorize_endpoint sample_flow flow_sample 0 (sample_query [sample_uri] sample_uri) [] = (Redirect302 target, cache') \<and>
     (prefix ''/oauth/consent?request='' target \<or> (\<exists>u. sample_parser target = Some u \<and> loopback_host (u_hostname u)))"
proof -
  obtain target cache' where a: "authorize_endpoint sample_flow flow_sample 0 (sample_query [sample_uri] sample_uri) [] = (Redirect302 target, cache')"
    by (simp add: authorize_endpoint_def sample_asked flow_sample_ready)
  have "ui_base_path p (fl_public_url sample_flow) = []" "mw_parse (fl_metadata sample_flow) = sample_parser"
      "fl_with_params sample_flow = (\<lambda>u ps. u)" for p
    by (simp_all add: ui_base_path_def sample_flow_def)
  with authorize_redirects_home [OF a] a show ?thesis by auto
qed

theorem grant_traces_to_sign_in_witness:
  "\<exists>later ev earlier entropy who.
     [SignIn ''abc'' sample_body ''::1'' 0] = later @ ev # earlier \<and>
     lets_in sample_login_world flow_sample ev (server_run sample_login_world flow_sample earlier) = Some (entropy, who)"
proof -
  let ?es = "[SignIn ''abc'' sample_body ''::1'' 0]"
  let ?body = "JObj [(''request'', JStr (request_blob flow_sample 0 sample_request)), (''approve'', JBool True)]"
  have "cfg_auth flow_sample = cfg_auth token_config" "cfg_session flow_sample = cfg_session token_config"
    by (simp_all add: flow_sample_def oauth_sample_def)
  from sample_admitted [OF this] obtain s where
    s: "fst (require_auth (lw_credentials sample_login_world) flow_sample 5 (cookie_request (b64url_encode ''abc''))
      (sv_auth (server_run sample_login_world flow_sample ?es))) =
      Admitted s SessionKind None (Some (session_cookie (cfg_session token_config) (b64url_encode ''abc'')))"
    by (auto simp: sample_login_world_def)
  have "mw_parse (fl_metadata sample_flow) (az_redirect_uri sample_request) \<noteq> None"
    using sample_parses by (simp add: sample_request_def)
  from approved [OF flow_sample_ready(1) sample_request_text _ this, of 5 0 s]
  obtain target where d: "consent_decide sample_flow flow_sample 5 s SessionKind ?body = Decided (Some target) False"
    by (auto simp: request_ttl_ms_def)
  have "events_in_order ?es" "\<forall>e \<in> set ?es. event_time e \<le> 5" by (simp_all add: events_in_order_def)
  from grant_traces_to_sign_in [OF this s d] show ?thesis by blast
qed

end
