(* ===== verification/RequestGate.thy ===== *)
theory RequestGate
  imports RoutePolicy OAuthFlow
begin

text \<open>
  The pre-handlers of a route, run one after the other as the server runs them, and what it takes for a
  request to reach the handler: the checks of \<open>apps/bff/src/rbac/route-policy.ts\<close> put together with
  authentication and the scope gate.  A handler of a route's own that is not authentication is \<open>other\<close>,
  which says whether it lets a request on; no route of the server brings one.
\<close>

subsection \<open>The handlers\<close>

datatype gate_reply =
    AskedToSignIn "string option"
  | LacksVerb "verb list"
  | ScopeRefused refusal
  | ReadOnlyMode
  | StoppedByRoute

record request_context =
  cx_auth :: auth_state
  cx_session :: "session option"
  cx_kind :: "auth_kind option"
  cx_access :: "session_access option"
  cx_oap :: request_state

record gate_world =
  gw_credentials :: credential_world
  gw_oap :: oap_world
  gw_operate :: "(string \<Rightarrow> bool) option"
  gw_read_only :: bool
  gw_other :: "string \<Rightarrow> bool"

definition subject_of :: "session \<Rightarrow> verb_subject" where
  "subject_of s = \<lparr>subject_roles = ss_roles s, subject_cap = ss_verb_cap s\<rparr>"

definition run_auth ::
  "gate_world \<Rightarrow> horizon_config \<Rightarrow> nat \<Rightarrow> credentials \<Rightarrow> request_context \<Rightarrow> gate_reply + request_context" where
  "run_auth w cfg now cr cx =
     (case require_auth (gw_credentials w) cfg now cr (cx_auth cx) of
        (Admitted s k tid ck, st) \<Rightarrow> Inr (cx\<lparr>cx_auth := st, cx_session := Some s, cx_kind := Some k\<rparr>)
      | (Unauthenticated401 challenge, st) \<Rightarrow> Inl (AskedToSignIn challenge))"

definition has_route_verb :: "horizon_config \<Rightarrow> bool \<Rightarrow> session \<Rightarrow> verb \<Rightarrow> bool" where
  "has_route_verb cfg on_some_layer s v =
     (if on_some_layer then session_has_verb_on_some_layer cfg (subject_of s) v else session_has_verb cfg (subject_of s) v)"

definition check_verb ::
  "horizon_config \<Rightarrow> verb list \<Rightarrow> bool \<Rightarrow> request_context \<Rightarrow> gate_reply + request_context" where
  "check_verb cfg required on_some_layer cx =
     (case cx_session cx of
        None \<Rightarrow> Inl (AskedToSignIn None)
      | Some s \<Rightarrow>
          (case find (\<lambda>v. \<not> has_route_verb cfg on_some_layer s v) required of
             Some v \<Rightarrow> Inl (LacksVerb [v])
           | None \<Rightarrow> Inr cx))"

definition check_any_verb ::
  "horizon_config \<Rightarrow> verb list \<Rightarrow> bool \<Rightarrow> request_context \<Rightarrow> gate_reply + request_context" where
  "check_any_verb cfg verbs on_some_layer cx =
     (case cx_session cx of
        None \<Rightarrow> Inl (AskedToSignIn None)
      | Some s \<Rightarrow> if list_ex (has_route_verb cfg on_some_layer s) verbs then Inr cx else Inl (LacksVerb verbs))"

definition run_scope ::
  "gate_world \<Rightarrow> horizon_config \<Rightarrow> nat \<Rightarrow> scope_rule \<Rightarrow> verb list \<Rightarrow> request \<Rightarrow> request_context \<Rightarrow>
   gate_reply + request_context" where
  "run_scope w cfg now rule verbs req cx =
     (let g = scope_gate (gw_oap w) now cfg (gw_operate w) rule verbs (map_option subject_of (cx_session cx)) req (cx_oap cx) in
      case gate_refusal g of
        Some r \<Rightarrow> Inl (ScopeRefused r)
      | None \<Rightarrow> Inr (cx\<lparr>cx_access := (case gate_access g of Some a \<Rightarrow> Some a | None \<Rightarrow> cx_access cx), cx_oap := gate_state g\<rparr>))"

definition deny_template_write :: "gate_world \<Rightarrow> request_context \<Rightarrow> gate_reply + request_context" where
  "deny_template_write w cx = (if gw_read_only w then Inl ReadOnlyMode else Inr cx)"

fun run_handler ::
  "gate_world \<Rightarrow> horizon_config \<Rightarrow> nat \<Rightarrow> credentials \<Rightarrow> request \<Rightarrow> handler \<Rightarrow> request_context \<Rightarrow>
   gate_reply + request_context" where
  "run_handler w cfg now cr req RequireAuth cx = run_auth w cfg now cr cx"
| "run_handler w cfg now cr req (OtherHandler name) cx =
     (if name = ''authPreHandler'' then run_auth w cfg now cr cx
      else if gw_other w name then Inr cx else Inl StoppedByRoute)"
| "run_handler w cfg now cr req (CheckVerb vs some) cx = check_verb cfg vs some cx"
| "run_handler w cfg now cr req (CheckAnyVerb vs some) cx = check_any_verb cfg vs some cx"
| "run_handler w cfg now cr req (GateScope rule vs) cx = run_scope w cfg now rule vs req cx"
| "run_handler w cfg now cr req DenyReadOnly cx = deny_template_write w cx"

text \<open>A handler that sends a reply ends the chain.\<close>

fun run_handlers ::
  "gate_world \<Rightarrow> horizon_config \<Rightarrow> nat \<Rightarrow> credentials \<Rightarrow> request \<Rightarrow> handler list \<Rightarrow> request_context \<Rightarrow>
   gate_reply + request_context" where
  "run_handlers w cfg now cr req [] cx = Inr cx"
| "run_handlers w cfg now cr req (h # hs) cx =
     (case run_handler w cfg now cr req h cx of
        Inl reply \<Rightarrow> Inl reply
      | Inr cx' \<Rightarrow> run_handlers w cfg now cr req hs cx')"

definition fresh_context :: "auth_state \<Rightarrow> request_state \<Rightarrow> request_context" where
  "fresh_context auth oap =
     \<lparr>cx_auth = auth, cx_session = None, cx_kind = None, cx_access = None, cx_oap = oap\<rparr>"

subsection \<open>Lemmas\<close>

lemma run_handlers_append:
  "run_handlers w cfg now cr req (hs @ hs') cx =
     (case run_handlers w cfg now cr req hs cx of Inl r \<Rightarrow> Inl r | Inr cx' \<Rightarrow> run_handlers w cfg now cr req hs' cx')"
  by (induction hs arbitrary: cx) (auto split: sum.split)

definition authenticated :: "gate_world \<Rightarrow> horizon_config \<Rightarrow> nat \<Rightarrow> credentials \<Rightarrow> session \<Rightarrow> auth_kind \<Rightarrow> bool" where
  "authenticated w cfg now cr s k \<longleftrightarrow>
     (\<exists>st tid ck. fst (require_auth (gw_credentials w) cfg now cr st) = Admitted s k tid ck)"

text \<open>The session on a request is one authentication put there.\<close>

definition honest :: "gate_world \<Rightarrow> horizon_config \<Rightarrow> nat \<Rightarrow> credentials \<Rightarrow> request_context \<Rightarrow> bool" where
  "honest w cfg now cr cx \<longleftrightarrow>
     (\<forall>s. cx_session cx = Some s \<longrightarrow> (\<exists>k. cx_kind cx = Some k \<and> authenticated w cfg now cr s k))"

lemma run_auth_Inr:
  "run_auth w cfg now cr cx = Inr cx' \<Longrightarrow> honest w cfg now cr cx' \<and> cx_session cx' \<noteq> None"
  unfolding honest_def authenticated_def run_auth_def
  by (auto split: prod.splits auth_outcome.splits) (metis fst_conv)

lemma run_handler_honest:
  "run_handler w cfg now cr req h cx = Inr cx' \<Longrightarrow> honest w cfg now cr cx \<Longrightarrow> honest w cfg now cr cx'"
  by (cases h) (auto simp: check_verb_def check_any_verb_def run_scope_def deny_template_write_def honest_def Let_def
      dest!: run_auth_Inr split: if_splits option.splits)

lemma run_handler_session:
  "run_handler w cfg now cr req h cx = Inr cx' \<Longrightarrow> cx_session cx \<noteq> None \<Longrightarrow> cx_session cx' \<noteq> None"
  by (cases h) (auto simp: check_verb_def check_any_verb_def run_scope_def deny_template_write_def Let_def
      dest!: run_auth_Inr split: if_splits option.splits)

lemma run_handlers_honest:
  "run_handlers w cfg now cr req hs cx = Inr cx' \<Longrightarrow> honest w cfg now cr cx \<Longrightarrow>
     honest w cfg now cr cx' \<and> (cx_session cx \<noteq> None \<or> list_ex is_auth_handler hs \<longrightarrow> cx_session cx' \<noteq> None)"
proof (induction hs arbitrary: cx)
  case (Cons h hs)
  obtain cx1 where step: "run_handler w cfg now cr req h cx = Inr cx1" "run_handlers w cfg now cr req hs cx1 = Inr cx'"
    using Cons.prems(1) by (auto split: sum.splits)
  have "is_auth_handler h \<Longrightarrow> cx_session cx1 \<noteq> None"
    using step(1) by (cases h) (auto dest!: run_auth_Inr)
  then show ?case
    using Cons.IH [OF step(2) run_handler_honest [OF step(1) Cons.prems(2)]] run_handler_session [OF step(1)] by auto
qed simp

lemma fresh_honest: "honest w cfg now cr (fresh_context auth oap)"
  by (simp add: honest_def fresh_context_def)

text \<open>What a policy asks of the session.\<close>

definition policy_met :: "horizon_config \<Rightarrow> route_policy \<Rightarrow> bool \<Rightarrow> session \<Rightarrow> bool" where
  "policy_met cfg p on_some_layer s =
     (case p of
        AnyOf vs \<Rightarrow> list_ex (has_route_verb cfg on_some_layer s) vs
      | Public \<Rightarrow> True
      | _ \<Rightarrow> list_all (has_route_verb cfg on_some_layer s) (policy_verbs p))"

lemma verb_handlers_run:
  assumes "run_handlers w cfg now cr req (verb_handlers p some) cx = Inr cx'" and "cx_session cx = Some s" and "p \<noteq> Public"
  shows "cx' = cx \<and> policy_met cfg p some s"
  using assms
  by (cases p) (auto simp: verb_handlers_def check_verb_def check_any_verb_def policy_met_def find_None_iff list_all_iff
      split: option.splits if_splits sum.splits)

lemma scope_handler_run:
  assumes "run_handlers w cfg now cr req (case rule of Some x \<Rightarrow> [GateScope x vs] | None \<Rightarrow> []) cx = Inr cx'"
  shows "cx_session cx' = cx_session cx \<and> cx_kind cx' = cx_kind cx \<and>
    (\<forall>x. rule = Some x \<longrightarrow>
       (let g = scope_gate (gw_oap w) now cfg (gw_operate w) x vs (map_option subject_of (cx_session cx)) req (cx_oap cx) in
        gate_refusal g = None \<and> cx_oap cx' = gate_state g))"
  using assms by (auto simp: run_scope_def Let_def split: option.splits sum.splits)

lemma read_only_handler_run:
  assumes "run_handlers w cfg now cr req (if b then [DenyReadOnly] else []) cx = Inr cx'"
  shows "cx' = cx \<and> (b \<longrightarrow> \<not> gw_read_only w)"
  using assms by (auto simp: deny_template_write_def split: if_splits sum.splits)

lemma auth_before_verbs: "list_ex is_auth_handler (hs @ (if list_ex is_auth_handler hs then [] else [RequireAuth]))"
  by (cases "list_ex is_auth_handler hs") simp_all

subsection \<open>Properties\<close>

text \<open>Reaching a handler.  On a route the hook accepted with a policy that is not public, whatever
  pre-handlers the route brought of its own, a request that reaches the handler was authenticated, and
  the very session authentication found holds every verb the policy asks for, or one of them where it
  asks for any, was let through by the route's scope rule if it has one, and is not a template write
  on a read-only deployment.\<close>

theorem handler_reached:
  assumes "route_auth_hook r = Inr r'" and "choose_policy (ro_url r) (ro_methods r) None = Some c" and "ch_policy c \<noteq> Public"
    and "run_handlers w cfg now cr req (ro_handlers r') (fresh_context auth oap) = Inr cx"
  shows "\<exists>s k. cx_session cx = Some s \<and> authenticated w cfg now cr s k \<and>
    policy_met cfg (ch_policy c) (scope_for (ch_key c) \<noteq> None) s \<and>
    (prefix ''/api/'' (ro_url r) \<and> needs_scope (ch_policy c) \<longrightarrow> scope_for (ch_key c) \<noteq> None) \<and>
    (\<forall>rule. scope_for (ch_key c) = Some rule \<longrightarrow>
       (\<exists>st. let g = scope_gate (gw_oap w) now cfg (gw_operate w) rule (policy_verbs (ch_policy c)) (Some (subject_of s)) req st in
          gate_refusal g = None \<and> cx_oap cx = gate_state g)) \<and>
    (list_ex (\<lambda>m. is_template_write_route (to_upper m) (ro_url r)) (ro_methods r) \<longrightarrow> \<not> gw_read_only w)"
proof -
  let ?auth = "ro_handlers r @ (if list_ex is_auth_handler (ro_handlers r) then [] else [RequireAuth])"
  let ?verbs = "verb_handlers (ch_policy c) (scope_for (ch_key c) \<noteq> None)"
  let ?scope = "case scope_for (ch_key c) of Some rule \<Rightarrow> [GateScope rule (policy_verbs (ch_policy c))] | None \<Rightarrow> []"
  let ?deny = "if list_ex (\<lambda>m. is_template_write_route (to_upper m) (ro_url r)) (ro_methods r) then [DenyReadOnly] else []"
  have shape: "ro_handlers r' = ?auth @ ?verbs @ ?scope @ ?deny"
    using hook_shape(1) [OF assms(1-3)] by (simp only: append_assoc)
  obtain c1 where c1: "run_handlers w cfg now cr req ?auth (fresh_context auth oap) = Inr c1"
      "run_handlers w cfg now cr req (?verbs @ ?scope @ ?deny) c1 = Inr cx"
    using assms(4) unfolding shape by (subst (asm) run_handlers_append) (auto split: sum.splits)
  obtain c2 where c2: "run_handlers w cfg now cr req ?verbs c1 = Inr c2"
      "run_handlers w cfg now cr req (?scope @ ?deny) c2 = Inr cx"
    using c1(2) by (subst (asm) run_handlers_append) (auto split: sum.splits)
  obtain c3 where c3: "run_handlers w cfg now cr req ?scope c2 = Inr c3" "run_handlers w cfg now cr req ?deny c3 = Inr cx"
    using c2(2) by (subst (asm) run_handlers_append) (auto split: sum.splits)
  obtain s k where s: "cx_session c1 = Some s" "authenticated w cfg now cr s k"
    using run_handlers_honest [OF c1(1) fresh_honest] auth_before_verbs by (auto simp: honest_def)
  have v: "c2 = c1" "policy_met cfg (ch_policy c) (scope_for (ch_key c) \<noteq> None) s"
    using verb_handlers_run [OF c2(1) s(1) assms(3)] by auto
  have d: "cx = c3" "list_ex (\<lambda>m. is_template_write_route (to_upper m) (ro_url r)) (ro_methods r) \<longrightarrow> \<not> gw_read_only w"
    using read_only_handler_run [OF c3(2)] by auto
  have g: "cx_session c3 = Some s"
      "\<forall>rule. scope_for (ch_key c) = Some rule \<longrightarrow>
         (let g = scope_gate (gw_oap w) now cfg (gw_operate w) rule (policy_verbs (ch_policy c)) (Some (subject_of s)) req (cx_oap c1) in
          gate_refusal g = None \<and> cx_oap c3 = gate_state g)"
    using scope_handler_run [OF c3(1)] s(1) v(1) by auto
  show ?thesis using s(2) v(2) d g hook_shape(2) [OF assms(1-3)] by blast
qed


theorem handler_reached_witness:
  "\<forall>oap operate readonly other req st. \<exists>(cx :: request_context) s k.
     (let w = \<lparr>gw_credentials = sample_world, gw_oap = oap, gw_operate = operate, gw_read_only = readonly, gw_other = other\<rparr> in
      run_handlers w token_config 5 (cookie_request (b64url_encode ''abc'')) req [RequireAuth]
        (fresh_context (sv_auth (server_run sample_login_world token_config [SignIn ''abc'' sample_body ''::1'' 0])) st) = Inr cx \<and>
      cx_session cx = Some s \<and> authenticated w token_config 5 (cookie_request (b64url_encode ''abc'')) s k)"
proof (intro allI)
  fix oap operate readonly other req st
  let ?w = "\<lparr>gw_credentials = sample_world, gw_oap = oap, gw_operate = operate, gw_read_only = readonly, gw_other = other\<rparr>"
  let ?cr = "cookie_request (b64url_encode ''abc'')"
  let ?a = "sv_auth (server_run sample_login_world token_config [SignIn ''abc'' sample_body ''::1'' 0])"
  let ?r = "\<lparr>ro_methods = [''GET''], ro_url = ''/api/auth/me'', ro_handlers = []\<rparr>"
  let ?c = "\<lparr>ch_key = ''GET /api/auth/me'', ch_entry = ''GET /api/auth/me'', ch_policy = Auth\<rparr>"
  have hook: "route_auth_hook ?r = Inr (?r\<lparr>ro_handlers := [RequireAuth]\<rparr>)" "choose_policy (ro_url ?r) (ro_methods ?r) None = Some ?c"
    by code_simp+
  obtain s ck where "fst (require_auth sample_world token_config 5 ?cr ?a) = Admitted s SessionKind None ck"
    using sample_admitted [of token_config] by auto
  then obtain cx where run: "run_handlers ?w token_config 5 ?cr req [RequireAuth] (fresh_context ?a st) = Inr cx"
    by (cases "require_auth sample_world token_config 5 ?cr ?a") (auto simp: run_auth_def fresh_context_def)
  have run': "run_handlers ?w token_config 5 ?cr req (ro_handlers (?r\<lparr>ro_handlers := [RequireAuth]\<rparr>)) (fresh_context ?a st) = Inr cx"
    using run by (simp only: route_options.simps)
  obtain s' k where "cx_session cx = Some s'" "authenticated ?w token_config 5 ?cr s' k"
    using handler_reached [OF hook _ run'] by auto
  then show "\<exists>cx s k. (let w = ?w in run_handlers w token_config 5 ?cr req [RequireAuth] (fresh_context ?a st) = Inr cx \<and>
      cx_session cx = Some s \<and> authenticated w token_config 5 ?cr s k)"
    using run unfolding Let_def by blast
qed

end
