(* ===== verification/SsoSignIn.thy ===== *)
theory SsoSignIn
  imports Login
begin

text \<open>
  Signing in through a provider, over a server's history: the attempt a person comes back with is one this
  server began for that browser, it is used once, and the person is let in on the provider's proof of
  their address and under the configuration's rules.
\<close>

subsection \<open>The attempts of a history\<close>

text \<open>The provider a start sends the browser to; nobody where it ends at the login page.\<close>

definition started_with :: "provider_world \<Rightarrow> horizon_config \<Rightarrow> nat \<Rightarrow> query \<Rightarrow> sso_state \<Rightarrow> oidc_provider option" where
  "started_with w cfg now q st =
     (if \<not> oidc_enabled cfg then None
      else (case chosen_provider cfg q of
              None \<Rightarrow> None
            | Some p \<Rightarrow>
                if op_client_secret p = [] then None
                else if op_kind p = OpenId \<and> isl (fst (discover w now (op_issuer p) (so_discovered st))) then None
                else Some p))"

fun attempt_calls :: "login_world \<Rightarrow> horizon_config \<Rightarrow> server_event \<Rightarrow> server_state \<Rightarrow> flow_call list" where
  "attempt_calls w cfg (SsoBegin dr origin q t) st =
     (case started_with (lw_provider w) cfg t q (sv_sso st) of
        Some p \<Rightarrow> [PutFlow (dr_handle dr) (begun_flow dr p q) t]
      | None \<Rightarrow> [])"
| "attempt_calls w cfg (SsoReturn e cb ip t) st =
     (if oidc_enabled cfg \<and> \<not> truthy (cb_query cb ''error'') then [TakeFlow (cb_handle cb) t] else [])"
| "attempt_calls w cfg ev st = []"

abbreviation attempts :: "login_world \<Rightarrow> horizon_config \<Rightarrow> server_event list \<Rightarrow> flow_call list" where
  "attempts w cfg \<equiv> calls_along (\<lambda>e es. attempt_calls w cfg e (server_run w cfg es))"

lemma start_flows:
  "so_flows (snd (sso_start w cfg now dr origin q st)) =
     (case started_with w cfg now q st of
        Some p \<Rightarrow> snd (put_flow flow_ttl_ms now (dr_handle dr) (begun_flow dr p q) (so_flows st))
      | None \<Rightarrow> so_flows st)"
proof (cases "chosen_provider cfg q")
  case (Some p)
  obtain r d where "discover w now (op_issuer p) (so_discovered st) = (r, d)" by fastforce
  then show ?thesis
    using Some by (cases r) (auto simp: sso_start_def started_with_def Let_def split: prod.split option.split)
qed (simp add: sso_start_def started_with_def)

lemma verdict_flows:
  "so_flows (snd (sso_verdict_of w cfg now cb st)) =
     (if oidc_enabled cfg \<and> \<not> truthy (cb_query cb ''error'')
      then snd (take_flow flow_ttl_ms now (cb_handle cb) (so_flows st)) else so_flows st)"
  by (auto simp: sso_verdict_of_def Let_def split: prod.split option.split)

lemma callback_sso: "sv_sso (snd (sso_callback w cfg t e cb ip st)) = snd (sso_verdict_of (lw_provider w) cfg t cb (sv_sso st))"
  by (auto simp: sso_callback_def Let_def split: prod.split sso_verdict.split)

lemma login_sso: "sv_sso (snd (login w cfg t e body ip st)) = sv_sso st"
  by (auto simp: login_def Let_def split: option.split prod.split verified.split)

lemma logout_sso: "sv_sso (logout cfg cookies st) = sv_sso st"
  by (simp add: logout_def split: option.split)

lemma attempts_flows: "so_flows (sv_sso (server_run w cfg es)) = flow_run flow_ttl_ms (attempts w cfg es)"
proof (induction es)
  case (Cons e es)
  then show ?case
    by (cases e) (auto simp: start_flows verdict_flows callback_sso login_sso logout_sso split: option.split)
qed (simp add: new_server_def)

lemma attempt_calls_short: "length (attempt_calls w cfg e st) \<le> 1"
  by (cases e) (auto split: option.split)

text \<open>The cache of discoveries a history leaves is one a list of discoveries leaves.\<close>

lemma discover_run: "\<exists>calls'. snd (discover w now issuer (discovery_run w calls)) = discovery_run w calls'"
  by (rule exI [of _ "(now, issuer) # calls"]) simp

lemma start_discovered:
  "so_discovered st = discovery_run w calls \<Longrightarrow>
   \<exists>calls'. so_discovered (snd (sso_start w cfg now dr origin q st)) = discovery_run w calls'"
proof -
  assume st: "so_discovered st = discovery_run w calls"
  have "so_discovered (snd (sso_start w cfg now dr origin q st)) = so_discovered st \<or>
      (\<exists>p :: oidc_provider. so_discovered (snd (sso_start w cfg now dr origin q st)) = snd (discover w now (op_issuer p) (so_discovered st)))"
  proof (cases "chosen_provider cfg q")
    case (Some p)
    obtain r d where "discover w now (op_issuer p) (so_discovered st) = (r, d)" by fastforce
    then have "so_discovered (snd (sso_start w cfg now dr origin q st)) = so_discovered st \<or>
        so_discovered (snd (sso_start w cfg now dr origin q st)) = snd (discover w now (op_issuer p) (so_discovered st))"
      using Some by (cases r) (auto simp: sso_start_def Let_def split: prod.split)
    then show ?thesis by (elim disjE) auto
  qed (simp add: sso_start_def)
  then show ?thesis using st discover_run by metis
qed

lemma endpoints_discovered:
  "snd (endpoints_of w now p d) = d \<or> snd (endpoints_of w now p d) = snd (discover w now (op_issuer p) d)"
  by (auto simp: endpoints_of_def split: prod.split sum.split discovery_error.split)

lemma complete_discovered:
  "snd (complete_flow w cfg now flow cb d) = d \<or> (\<exists>p. snd (complete_flow w cfg now flow cb d) = snd (endpoints_of w now p d))"
proof (cases "find_provider cfg (sf_provider flow)")
  case (Some p)
  obtain r d' where "endpoints_of w now p d = (r, d')" by fastforce
  then have "snd (complete_flow w cfg now flow cb d) = snd (endpoints_of w now p d)"
    using Some by (cases r) (simp_all add: complete_flow_def)
  then show ?thesis by auto
qed (simp add: complete_flow_def)

lemma verdict_discovered:
  "so_discovered st = discovery_run w calls \<Longrightarrow>
   \<exists>calls'. so_discovered (snd (sso_verdict_of w cfg now cb st)) = discovery_run w calls'"
proof -
  assume st: "so_discovered st = discovery_run w calls"
  have "so_discovered (snd (sso_verdict_of w cfg now cb st)) = so_discovered st \<or>
      (\<exists>flow. so_discovered (snd (sso_verdict_of w cfg now cb st)) = snd (complete_flow w cfg now flow cb (so_discovered st)))"
  proof (cases "fst (take_flow flow_ttl_ms now (cb_handle cb) (so_flows st))")
    case None
    then show ?thesis by (auto simp: sso_verdict_of_def split: prod.split)
  next
    case (Some flow)
    then have "so_discovered (snd (sso_verdict_of w cfg now cb st)) = so_discovered st \<or>
        so_discovered (snd (sso_verdict_of w cfg now cb st)) = snd (complete_flow w cfg now flow cb (so_discovered st))"
      by (auto simp: sso_verdict_of_def Let_def split: prod.split)
    then show ?thesis by (elim disjE) auto
  qed
  then show ?thesis using st discover_run complete_discovered endpoints_discovered by metis
qed

lemma server_discovered: "\<exists>calls. so_discovered (sv_sso (server_run w cfg es)) = discovery_run (lw_provider w) calls"
proof (induction es)
  case Nil
  show ?case by (rule exI [of _ "[]"]) (simp add: new_server_def)
next
  case (Cons e es)
  then obtain calls where "so_discovered (sv_sso (server_run w cfg es)) = discovery_run (lw_provider w) calls" by blast
  then show ?case using start_discovered verdict_discovered
    by (cases e) (auto simp: callback_sso login_sso logout_sso)
qed

subsection \<open>What a verdict rests on\<close>

lemma utf8_encode_ascii: "list_all (\<lambda>c. (of_char c :: nat) < 128) (utf8_encode a) \<Longrightarrow> utf8_encode a = a"
  by (induction a rule: utf8_encode.induct) (auto simp: replacement_char_def split: if_splits)

lemma equal_encoded: "constant_time_equal a (b64url_encode x) \<longleftrightarrow> a = b64url_encode x"
proof -
  have "list_all (\<lambda>c. (of_char c :: nat) < 128) (b64url_encode x)"
    using b64url_visible [of _ x] by (auto simp: list_all_iff plain_char_def)
  then have "utf8_encode (b64url_encode x) = b64url_encode x" by (simp add: utf8_encode_id well_formed_ascii)
  then show ?thesis
    using utf8_encode_ascii [of a] \<open>list_all (\<lambda>c. (of_char c :: nat) < 128) (b64url_encode x)\<close> by (auto simp: constant_time_equal_def)
qed

lemma verdict_let_in:
  assumes "fst (sso_verdict_of w cfg now cb st) = SsoLetIn p email roles shown path"
  obtains flow where "fst (take_flow flow_ttl_ms now (cb_handle cb) (so_flows st)) = Some flow"
    "oidc_enabled cfg" "truthy (cb_query cb ''state'')" "constant_time_equal (the (cb_query cb ''state'')) (sf_state flow)"
    "truthy (cb_query cb ''code'')" "fst (complete_flow w cfg now flow cb (so_discovered st)) = SsoLetIn p email roles shown path"
proof (cases "fst (take_flow flow_ttl_ms now (cb_handle cb) (so_flows st))")
  case None
  then show thesis using assms by (auto simp: sso_verdict_of_def split: prod.splits if_splits)
next
  case (Some flow)
  then show thesis using assms that [of flow]
    by (auto simp: sso_verdict_of_def Let_def split: prod.splits if_splits)
qed

lemma verdict_of_taken:
  assumes "oidc_enabled cfg" "\<not> truthy (cb_query cb ''error'')" "fst (take_flow flow_ttl_ms now (cb_handle cb) (so_flows st)) = Some flow"
    and "truthy (cb_query cb ''state'')" "constant_time_equal (the (cb_query cb ''state'')) (sf_state flow)" "truthy (cb_query cb ''code'')"
  shows "fst (sso_verdict_of w cfg now cb st) = fst (complete_flow w cfg now flow cb (so_discovered st))"
proof -
  obtain fl where "take_flow flow_ttl_ms now (cb_handle cb) (so_flows st) = (Some flow, fl)" using assms(3) by (metis prod.collapse)
  then show ?thesis using assms by (simp add: sso_verdict_of_def Let_def split: prod.split)
qed

text \<open>A verdict depends on the cache by what discovery answers alone.\<close>

lemma endpoints_by_discovery:
  assumes "fst (discover w now (op_issuer p) d) = fst (discover w now (op_issuer p) d')"
  shows "fst (endpoints_of w now p d) = fst (endpoints_of w now p d')"
proof -
  obtain r x x' where "discover w now (op_issuer p) d = (r, x)" "discover w now (op_issuer p) d' = (r, x')"
    using assms by (metis prod.collapse)
  then show ?thesis by (cases r) (auto simp: endpoints_of_def split: discovery_error.split)
qed

lemma complete_by_endpoints:
  assumes "find_provider cfg (sf_provider flow) = Some p" and "fst (endpoints_of w now p d) = fst (endpoints_of w now p d')"
  shows "fst (complete_flow w cfg now flow cb d) = fst (complete_flow w cfg now flow cb d')"
proof -
  obtain r x x' where "endpoints_of w now p d = (r, x)" "endpoints_of w now p d' = (r, x')"
    using assms(2) by (metis prod.collapse)
  then show ?thesis using assms(1) by (cases r) (simp_all add: complete_flow_def)
qed

lemma complete_let_in:
  assumes "fst (complete_flow w cfg now flow cb d) = SsoLetIn p email roles shown path"
  obtains pe tokens where "find_provider cfg (sf_provider flow) = Some p" "fst (endpoints_of w now p d) = Inr pe"
    "exchange_code w now p (pe_token pe) (code_form w p (cb_origin cb) (or_empty (cb_query cb ''code'')) (sf_verifier flow)) = Inr tokens"
    "identify w now p pe flow tokens = Inr (email, shown)" "judge cfg p flow (email, shown) = SsoLetIn p email roles shown path"
proof -
  obtain x where x: "find_provider cfg (sf_provider flow) = Some x" using assms by (auto simp: complete_flow_def split: option.splits)
  obtain r d' where r: "endpoints_of w now x d = (r, d')" by fastforce
  obtain pe where pe: "r = Inr pe" using assms x r by (cases r) (simp_all add: complete_flow_def)
  let ?ex = "exchange_code w now x (pe_token pe) (code_form w x (cb_origin cb) (or_empty (cb_query cb ''code'')) (sf_verifier flow))"
  obtain tokens where t: "?ex = Inr tokens" using assms x r pe by (cases ?ex) (simp_all add: complete_flow_def)
  obtain who where who: "identify w now x pe flow tokens = Inr who"
    using assms x r pe t by (cases "identify w now x pe flow tokens") (simp_all add: complete_flow_def)
  have j: "judge cfg x flow who = SsoLetIn p email roles shown path" using assms x r pe t who by (simp add: complete_flow_def)
  then have "x = p" "who = (email, shown)" by (auto simp: judge_def Let_def split: prod.splits if_splits)
  then show thesis using that [of pe tokens] x r pe t who j by simp
qed

lemma judge_let_in:
  assumes "judge cfg p flow (email, shown) = SsoLetIn p email roles shown path"
  shows "email \<noteq> []" "domain_allowed p email" "roles = roles_for_email (sso_role_table (auth_sso (cfg_auth cfg))) email"
    "roles \<noteq> [] \<or> \<not> rbac_enabled (cfg_rbac cfg)" "path = sf_next flow"
  using assms by (auto simp: judge_def Let_def split: if_splits)

lemma exchange_sent:
  "exchange_code w now p endpoint form = Inr tokens \<Longrightarrow>
   \<exists>res. pw_fetch w now (PostForm endpoint form) = Some res \<and> rp_ok res \<and> read_bounded res = Some tokens"
  by (auto simp: exchange_code_def split: option.splits if_splits)

lemma identify_openid:
  assumes "identify w now p pe flow tokens = Inr (email, shown)" and "op_kind p = OpenId"
  obtains token payload nonce where "pw_verify w now (pe_jwks pe) (pe_issuer pe) (op_client_id p) token = Some payload"
    "json_property payload ''nonce'' = Some (JStr nonce)" "constant_time_equal nonce (sf_nonce flow)"
    "js_text_of (json_property payload ''email_verified'') = ''true''"
    "email = to_lower (or_empty (as_string (json_property payload ''email'')))"
proof -
  let ?id = "as_string (json_property tokens ''id_token'')"
  obtain token payload where p: "?id = Some token" "pw_verify w now (pe_jwks pe) (pe_issuer pe) (op_client_id p) token = Some payload"
    using assms by (auto simp: identify_def bind_eq_Some_conv split: option.splits)
  obtain nonce where n: "as_string (json_property payload ''nonce'') = Some nonce"
    using assms p by (auto simp: identify_def read_id_claims_def Let_def truthy_def split: if_splits option.splits)
  then have "json_property payload ''nonce'' = Some (JStr nonce)" by (simp add: as_string_Some_iff)
  then show thesis
    using assms p n by (intro that [OF p(2)]) (auto simp: identify_def read_id_claims_def Let_def split: if_splits)
qed

text \<open>The attempt a callback resolves, in the history.\<close>

lemma attempt_was_begun:
  assumes "fst (take_flow flow_ttl_ms now h (so_flows (sv_sso (server_run w cfg es)))) = Some flow" and "oidc_enabled cfg"
  obtains later dr origin q t earlier p where "es = later @ SsoBegin dr origin q t # earlier" "now \<le> t + flow_ttl_ms"
    "h = Some (b64url_encode (dr_handle dr))" "flow = begun_flow dr p q" "chosen_provider cfg q = Some p"
    "\<forall>e cb ip u. SsoReturn e cb ip u \<in> set later \<and> cb_handle cb = h \<longrightarrow> truthy (cb_query cb ''error'')"
proof -
  from taken_was_put [OF assms(1) [unfolded attempts_flows]] obtain pre e t post where
    c: "attempts w cfg es = pre @ PutFlow e flow t # post" "h = Some (flow_handle e)" "now \<le> t + flow_ttl_ms"
      "\<forall>u. TakeFlow h u \<notin> set pre" by blast
  from calls_along_split [OF attempt_calls_short c(1)] obtain later ev earlier where
    split: "es = later @ ev # earlier" "PutFlow e flow t \<in> set (attempt_calls w cfg ev (server_run w cfg earlier))"
      "\<forall>x \<in> set later. \<exists>before. set (attempt_calls w cfg x (server_run w cfg before)) \<subseteq> set pre" by blast
  obtain dr origin q p where ev: "ev = SsoBegin dr origin q t" "e = dr_handle dr" "flow = begun_flow dr p q"
      "started_with (lw_provider w) cfg t q (sv_sso (server_run w cfg earlier)) = Some p"
    using split(2) by (cases ev) (auto split: option.splits if_splits)
  have chosen: "chosen_provider cfg q = Some p" using ev(4) by (auto simp: started_with_def split: if_splits option.splits)
  have "truthy (cb_query cb ''error'')" if "SsoReturn x cb ip u \<in> set later" "cb_handle cb = h" for x cb ip u
    using split(3) that c(4) assms(2) by fastforce
  then have "\<forall>x cb ip u. SsoReturn x cb ip u \<in> set later \<and> cb_handle cb = h \<longrightarrow> truthy (cb_query cb ''error'')" by blast
  then show thesis using that [OF split(1) [unfolded ev(1)] c(3) _ ev(3) chosen] c(2) ev(2) by (simp add: flow_handle_def)
qed

definition address_marks :: "char set" where
  "address_marks = {CHR ''&'', CHR ''#'', CHR ''/'', CHR ''?'', CHR ''='', CHR '':'', CHR 0x0A, CHR 0x0D}"

lemma component_chars: "c \<in> set (encode_uri_component s) \<Longrightarrow> c \<notin> address_marks"
proof -
  assume "c \<in> set (encode_uri_component s)"
  then obtain d where d: "c \<in> set (uri_component_char d)" by (auto simp: encode_uri_component_def)
  have hex: "upper_char (hex_digit n) \<notin> address_marks" if "n < 16" for n
  proof -
    have "list_all (\<lambda>n. upper_char (hex_digit n) \<notin> address_marks) [0..<16]" unfolding address_marks_def by code_simp
    then show ?thesis using that by (simp add: list_all_iff)
  qed
  have "(of_char d :: nat) div 16 < 16" "(of_char d :: nat) mod 16 < 16"
    using nat_of_char_less_256 [of d] by (simp_all add: less_mult_imp_div_less)
  then have "upper_char (hex_digit (of_char d div 16)) \<notin> address_marks" "upper_char (hex_digit (of_char d mod 16)) \<notin> address_marks"
    by (simp_all add: hex)
  moreover have "is_upper d \<or> is_lower d \<or> is_digit d \<Longrightarrow> d \<notin> address_marks"
    by (auto simp: address_marks_def is_upper_def is_lower_def is_digit_def char_le_of_char)
  moreover have "x \<in> {CHR ''-'', CHR ''_'', CHR ''.'', CHR ''!'', CHR ''~'', CHR ''*'', CHR 0x27, CHR ''('', CHR '')'', CHR ''%''} \<Longrightarrow>
      x \<notin> address_marks" for x
    by (auto simp: address_marks_def)
  ultimately show ?thesis using d by (auto simp: uri_component_char_def to_upper_def split: if_splits)
qed

lemma safe_next_shape:
  "prefix ''/'' (safe_next raw) \<and> \<not> prefix ''//'' (safe_next raw) \<and>
   set (safe_next raw) \<inter> ({CHR 0x5C, CHR '':''} \<union> {c. (of_char c :: nat) \<le> 31}) = {}"
  by (auto simp: safe_next_def list_ex_iff split: option.split)

subsection \<open>Properties\<close>

text \<open>A sign-in through a provider ends only where it began.  A return that is let in carries the handle
  and the state of an attempt this server began less than ten minutes before, and is the first return
  with that handle; it sends the provider that attempt's verifier; an ID token it accepts carries that
  attempt's nonce; and it leads where that attempt asked to go, made safe.\<close>

theorem sso_return_was_begun:
  assumes "fst (sso_verdict_of (lw_provider w) cfg now cb (sv_sso (server_run w cfg es))) = SsoLetIn p email roles shown path"
  shows "\<exists>later dr origin q t earlier p0.
    es = later @ SsoBegin dr origin q t # earlier \<and> now \<le> t + flow_ttl_ms \<and>
    cb_handle cb = Some (b64url_encode (dr_handle dr)) \<and> cb_query cb ''state'' = Some (b64url_encode (dr_state dr)) \<and>
    (\<forall>e cb' ip u. SsoReturn e cb' ip u \<in> set later \<and> cb_handle cb' = cb_handle cb \<longrightarrow> truthy (cb_query cb' ''error'')) \<and>
    chosen_provider cfg q = Some p0 \<and> find_provider cfg (op_id p0) = Some p \<and>
    (\<exists>endpoint code res. cb_query cb ''code'' = Some code \<and> rp_ok res \<and>
       pw_fetch (lw_provider w) now (PostForm endpoint
         (code_form (lw_provider w) p (cb_origin cb) code (b64url_encode (dr_verifier dr)))) = Some res) \<and>
    (op_kind p = OpenId \<longrightarrow> (\<exists>jwks iss token payload.
       pw_verify (lw_provider w) now jwks iss (op_client_id p) token = Some payload \<and>
       json_property payload ''nonce'' = Some (JStr (b64url_encode (dr_nonce dr))))) \<and>
    path = safe_next (q ''next'')"
proof -
  obtain flow where v: "fst (take_flow flow_ttl_ms now (cb_handle cb) (so_flows (sv_sso (server_run w cfg es)))) = Some flow"
      "oidc_enabled cfg" "truthy (cb_query cb ''state'')" "constant_time_equal (the (cb_query cb ''state'')) (sf_state flow)"
      "truthy (cb_query cb ''code'')"
      "fst (complete_flow (lw_provider w) cfg now flow cb (so_discovered (sv_sso (server_run w cfg es)))) = SsoLetIn p email roles shown path"
    using verdict_let_in [OF assms] by blast
  obtain later dr origin q t earlier p0 where
    b: "es = later @ SsoBegin dr origin q t # earlier" "now \<le> t + flow_ttl_ms" "cb_handle cb = Some (b64url_encode (dr_handle dr))"
      "flow = begun_flow dr p0 q" "chosen_provider cfg q = Some p0"
      "\<forall>e cb' ip u. SsoReturn e cb' ip u \<in> set later \<and> cb_handle cb' = cb_handle cb \<longrightarrow> truthy (cb_query cb' ''error'')"
    using attempt_was_begun [OF v(1,2)] by blast
  obtain pe tokens where c: "find_provider cfg (sf_provider flow) = Some p"
      "exchange_code (lw_provider w) now p (pe_token pe)
         (code_form (lw_provider w) p (cb_origin cb) (or_empty (cb_query cb ''code'')) (sf_verifier flow)) = Inr tokens"
      "identify (lw_provider w) now p pe flow tokens = Inr (email, shown)" "judge cfg p flow (email, shown) = SsoLetIn p email roles shown path"
    using complete_let_in [OF v(6)] by blast
  have fields: "sf_provider flow = op_id p0" "sf_state flow = b64url_encode (dr_state dr)" "sf_nonce flow = b64url_encode (dr_nonce dr)"
      "sf_verifier flow = b64url_encode (dr_verifier dr)" "sf_next flow = safe_next (q ''next'')"
    by (simp_all add: b(4) begun_flow_def)
  have state: "cb_query cb ''state'' = Some (b64url_encode (dr_state dr))"
    using v(3,4) by (auto simp: fields equal_encoded truthy_def split: option.splits)
  have nonce: "\<exists>jwks iss token payload. pw_verify (lw_provider w) now jwks iss (op_client_id p) token = Some payload \<and>
      json_property payload ''nonce'' = Some (JStr (b64url_encode (dr_nonce dr)))" if "op_kind p = OpenId"
    using identify_openid [OF c(3) that] by (metis equal_encoded fields(3))
  obtain code where "cb_query cb ''code'' = Some code" using v(5) by (auto simp: truthy_def split: option.splits)
  then show ?thesis
    using b(1-3,5,6) c(1) state nonce exchange_sent [OF c(2)] judge_let_in(5) [OF c(4)] by (simp add: fields) blast
qed

text \<open>Nobody is let in through a provider without proof and permission.  The address is one the provider's
  domain rule admits and the person's roles are what the configuration gives that address, some role
  where roles are enforced.  From an OpenID provider it is the address of an ID token the library
  accepted for this client, for the configured issuer and keys the server may trust, that says the address
  is verified; from any other it is the address the access token proves.\<close>

theorem sso_identity_proven:
  assumes "fst (sso_verdict_of (lw_provider w) cfg now cb (sv_sso (server_run w cfg es))) = SsoLetIn p email roles shown path"
  shows "p \<in> set (sso_providers (auth_sso (cfg_auth cfg))) \<and> email \<noteq> [] \<and> domain_allowed p email \<and>
    roles = roles_for_email (sso_role_table (auth_sso (cfg_auth cfg))) email \<and> (rbac_enabled (cfg_rbac cfg) \<longrightarrow> roles \<noteq> []) \<and>
    (op_kind p = OpenId \<longrightarrow> (\<exists>jwks token payload.
       pw_verify (lw_provider w) now jwks (strip_slashes (op_issuer p)) (op_client_id p) token = Some payload \<and>
       is_https_or_loopback (pw_parse (lw_provider w)) jwks \<and>
       js_text_of (json_property payload ''email_verified'') = ''true'' \<and>
       email = to_lower (or_empty (as_string (json_property payload ''email''))))) \<and>
    (op_kind p = PlainOAuth \<longrightarrow> (\<exists>token i. fetch_oauth2_identity (lw_provider w) now p token = Inr i \<and> email = to_lower (id_email i)))"
proof -
  let ?w = "lw_provider w" and ?d = "so_discovered (sv_sso (server_run w cfg es))"
  obtain flow where "fst (complete_flow ?w cfg now flow cb ?d) = SsoLetIn p email roles shown path"
    using verdict_let_in [OF assms] by blast
  from complete_let_in [OF this] obtain pe tokens where c: "find_provider cfg (sf_provider flow) = Some p"
      "fst (endpoints_of ?w now p ?d) = Inr pe" "identify ?w now p pe flow tokens = Inr (email, shown)"
      "judge cfg p flow (email, shown) = SsoLetIn p email roles shown path" by blast
  have "p \<in> set (sso_providers (auth_sso (cfg_auth cfg)))"
    using c(1) by (auto simp: find_provider_def find_Some_iff)
  moreover have "\<exists>jwks token payload. pw_verify ?w now jwks (strip_slashes (op_issuer p)) (op_client_id p) token = Some payload \<and>
      is_https_or_loopback (pw_parse ?w) jwks \<and> js_text_of (json_property payload ''email_verified'') = ''true'' \<and>
      email = to_lower (or_empty (as_string (json_property payload ''email'')))" if "op_kind p = OpenId"
  proof -
    obtain calls where calls: "?d = discovery_run ?w calls" using server_discovered by blast
    obtain m where m: "fst (discover ?w now (op_issuer p) (discovery_run ?w calls)) = Inr m" "pe_issuer pe = pm_issuer m" "pe_jwks pe = pm_jwks_uri m"
    proof (cases "discover ?w now (op_issuer p) (discovery_run ?w calls)")
      case (Pair r d')
      show thesis
      proof (cases r)
        case (Inl e)
        then show thesis using c(2) Pair by (cases e) (simp_all add: endpoints_of_def calls \<open>op_kind p = OpenId\<close>)
      next
        case (Inr m)
        then show thesis using c(2) Pair that by (auto simp: endpoints_of_def calls \<open>op_kind p = OpenId\<close>)
      qed
    qed
    have "pm_issuer m = strip_slashes (op_issuer p)" "is_https_or_loopback (pw_parse ?w) (pm_jwks_uri m)"
      using discovery_trusted [OF m(1)] by auto
    then show ?thesis using identify_openid [OF c(3) that] m(2,3) by metis
  qed
  moreover have "\<exists>token i. fetch_oauth2_identity ?w now p token = Inr i \<and> email = to_lower (id_email i)" if "op_kind p = PlainOAuth"
    using c(3) that by (auto simp: identify_def split: sum.splits identity_error.splits)
  ultimately show ?thesis using judge_let_in [OF c(4)] by blast
qed

text \<open>A return opens a session and leads into the application, or opens none and leads to the login page.
  The path it leads to begins with one slash and holds nothing a browser could take for another site;
  the reason it gives the login page, the provider's own word or not, adds nothing else to the address.\<close>

theorem sso_reply_stays_home:
  "let base = ui_base_path (pw_parse (lw_provider w)) (pw_public_url (lw_provider w));
       sessions = as_sessions (sv_auth (snd (sso_callback w cfg now e cb ip st))) in
   (case fst (sso_callback w cfg now e cb ip st) of
      SignedOn target ck \<Rightarrow>
        (\<exists>who path. sso_let_in w cfg now cb st = Some who \<and> ck_value ck = b64url_encode e \<and>
           map_of sessions (b64url_encode e) = Some (new_session (b64url_encode e) now who) \<and>
           target = base @ path \<and> prefix ''/'' path \<and> \<not> prefix ''//'' path \<and>
           set path \<inter> ({CHR 0x5C, CHR '':''} \<union> {c. (of_char c :: nat) \<le> 31}) = {})
    | BackToLogin target \<Rightarrow>
        sso_let_in w cfg now cb st = None \<and> sessions = as_sessions (sv_auth st) \<and>
        (\<exists>reason. target = base @ ''/login?sso_error='' @ reason \<and>
           set reason \<inter> address_marks = {}))"
proof -
  let ?base = "ui_base_path (pw_parse (lw_provider w)) (pw_public_url (lw_provider w))"
  obtain v sso where v: "sso_verdict_of (lw_provider w) cfg now cb (sv_sso st) = (v, sso)" by fastforce
  have fail: "\<exists>reason. fail_target (lw_provider w) r = ?base @ ''/login?sso_error='' @ reason \<and>
      set reason \<inter> address_marks = {}" for r
    unfolding fail_target_def using component_chars [of _ r] by blast
  show ?thesis
  proof (cases v)
    case (SsoRefused r)
    then show ?thesis using v fail [of r] by (simp add: sso_callback_def sso_let_in_def)
  next
    case (SsoWithoutRoles p email)
    then show ?thesis using v fail [of "''no_roles''"] by (simp add: sso_callback_def sso_let_in_def)
  next
    case (SsoLetIn p email roles shown path)
    then show ?thesis using v safe_next_shape [of "Some path"]
      by (simp add: sso_callback_def sso_let_in_def create_session_def new_session_def Let_def)
  qed
qed

text \<open>A configuration the schema accepts never makes a start fail.  Where no provider has an issue, a start
  answers with a redirect, to a provider or to the login page, whatever the query, the history and the
  documents the providers publish; the handler does not raise.\<close>

theorem start_never_raises:
  assumes "\<forall>p \<in> set (sso_providers (auth_sso (cfg_auth cfg))). provider_issues (pw_parse (lw_provider w)) p = []"
  shows "fst (sso_start (lw_provider w) cfg now dr origin q (sv_sso (server_run w cfg es))) \<noteq> StartRaised"
proof (cases "started_with (lw_provider w) cfg now q (sv_sso (server_run w cfg es))")
  case None
  obtain r d where "discover (lw_provider w) now (op_issuer (the (chosen_provider cfg q))) (so_discovered (sv_sso (server_run w cfg es))) = (r, d)"
    by fastforce
  then show ?thesis using None
    by (cases r) (auto simp: sso_start_def started_with_def Let_def split: option.splits if_splits prod.splits)
next
  case (Some p)
  let ?w = "lw_provider w" and ?st = "sv_sso (server_run w cfg es)"
  have p: "chosen_provider cfg q = Some p" "oidc_enabled cfg" "op_client_secret p \<noteq> []"
      "op_kind p = OpenId \<Longrightarrow> \<not> isl (fst (discover ?w now (op_issuer p) (so_discovered ?st)))"
    using Some by (auto simp: started_with_def split: if_splits option.splits)
  have "p \<in> set (sso_providers (auth_sso (cfg_auth cfg)))"
    using p(1) by (auto simp: chosen_provider_def find_provider_def find_Some_iff split: if_splits list.splits)
  then have ok: "provider_issues (pw_parse ?w) p = []" using assms by blast
  obtain calls where calls: "so_discovered ?st = discovery_run ?w calls" using server_discovered by blast
  obtain r d where d: "discover ?w now (op_issuer p) (so_discovered ?st) = (r, d)" by fastforce
  show ?thesis
  proof (cases "op_kind p")
    case OpenId
    then obtain m where m: "r = Inr m" using p(4) d by (cases r) auto
    then have "is_https_or_loopback (pw_parse ?w) (pm_authorization_endpoint m)"
      using discovery_trusted(2) d calls by (metis fst_conv)
    then have "pw_parse ?w (pm_authorization_endpoint m) \<noteq> None" by (auto simp: is_https_or_loopback_def split: option.splits)
    then show ?thesis using p OpenId d m by (auto simp: sso_start_def Let_def split: prod.split)
  next
    case PlainOAuth
    then have "is_secure_url (pw_parse ?w) (op_authorization_endpoint p)"
      using ok by (auto simp: provider_issues_def Let_def split: if_splits)
    then have "pw_parse ?w (op_authorization_endpoint p) \<noteq> None" by (auto simp: is_secure_url_def split: option.splits)
    then show ?thesis using p PlainOAuth by (auto simp: sso_start_def Let_def split: prod.split)
  qed
qed

lemma calls_along_append:
  assumes "\<And>e es. length (f e es) \<le> 1"
  shows "\<exists>pre. calls_along f (later @ rest) = pre @ calls_along f rest \<and> length pre \<le> length later \<and>
    (\<forall>c \<in> set pre. \<exists>x \<in> set later. \<exists>before. c \<in> set (f x before))"
proof (induction later)
  case (Cons e later)
  then obtain pre where p: "calls_along f (later @ rest) = pre @ calls_along f rest" "length pre \<le> length later"
      "\<forall>c \<in> set pre. \<exists>x \<in> set later. \<exists>before. c \<in> set (f x before)" by blast
  have "calls_along f ((e # later) @ rest) = (f e (later @ rest) @ pre) @ calls_along f rest" using p(1) by simp
  moreover have "length (f e (later @ rest) @ pre) \<le> length (e # later)" using p(2) assms [of e "later @ rest"] by simp
  moreover have "\<forall>c \<in> set (f e (later @ rest) @ pre). \<exists>x \<in> set (e # later). \<exists>before. c \<in> set (f x before)" using p(3) by auto
  ultimately show ?case by blast
qed simp

text \<open>A person who comes back in time is answered by their provider.  Whatever else the server did meanwhile,
  as long as that was fewer than 10,000 events, no later than ten minutes after the start and with other
  handles, a return with the handle, the state and a code is judged by what the provider answers for the
  very attempt that was begun, and never refused as expired or forged.\<close>

theorem sso_attempt_answered:
  assumes "started_with (lw_provider w) cfg t q (sv_sso (server_run w cfg earlier)) = Some p"
    and "\<forall>dr' o' q' t'. SsoBegin dr' o' q' t' \<in> set later \<union> set earlier \<longrightarrow> dr_handle dr' \<noteq> dr_handle dr"
    and "\<forall>e cb' ip u. SsoReturn e cb' ip u \<in> set later \<longrightarrow> cb_handle cb' \<noteq> cb_handle cb"
    and "\<forall>x \<in> set later. event_time x \<le> t + flow_ttl_ms" and "length later < max_flows" and "now \<le> t + flow_ttl_ms"
    and "cb_handle cb = Some (b64url_encode (dr_handle dr))" and "dr_handle dr \<noteq> []"
    and "cb_query cb ''state'' = Some (b64url_encode (dr_state dr))" and "dr_state dr \<noteq> []"
    and "truthy (cb_query cb ''code'')" and "\<not> truthy (cb_query cb ''error'')"
  shows "fst (sso_verdict_of (lw_provider w) cfg now cb (sv_sso (server_run w cfg (later @ SsoBegin dr origin q t # earlier)))) =
    fst (complete_flow (lw_provider w) cfg now (begun_flow dr p q) cb
      (so_discovered (sv_sso (server_run w cfg (later @ SsoBegin dr origin q t # earlier)))))"
proof -
  let ?es = "later @ SsoBegin dr origin q t # earlier" and ?put = "PutFlow (dr_handle dr) (begun_flow dr p q) t"
  let ?f = "\<lambda>e es. attempt_calls w cfg e (server_run w cfg es)"
  obtain pre where pre: "attempts w cfg ?es = pre @ attempts w cfg (SsoBegin dr origin q t # earlier)" "length pre \<le> length later"
      "\<forall>c \<in> set pre. \<exists>x \<in> set later. \<exists>before. c \<in> set (attempt_calls w cfg x (server_run w cfg before))"
    using calls_along_append [of ?f later "SsoBegin dr origin q t # earlier"] attempt_calls_short by blast
  have es: "attempts w cfg ?es = pre @ ?put # attempts w cfg earlier" using pre(1) assms(1) by simp
  have beginning: "\<exists>dr' o' q' t'. x = SsoBegin dr' o' q' t' \<and> dr_handle dr' = e'"
    if "PutFlow e' f' t' \<in> set (attempt_calls w cfg x st)" for x st e' f' t'
    using that by (cases x) (auto split: option.splits if_splits)
  have returning: "\<exists>e cb' ip. x = SsoReturn e cb' ip u \<and> cb_handle cb' = h"
    if "TakeFlow h u \<in> set (attempt_calls w cfg x st)" for x st h u
    using that by (cases x) (auto split: option.splits if_splits)
  have fresh: "\<forall>e' f' t'. PutFlow e' f' t' \<in> set pre \<union> set (attempts w cfg earlier) \<longrightarrow> e' \<noteq> dr_handle dr"
  proof (intro allI impI)
    fix e' f' t' assume "PutFlow e' f' t' \<in> set pre \<union> set (attempts w cfg earlier)"
    then obtain x st where "x \<in> set later \<union> set earlier" "PutFlow e' f' t' \<in> set (attempt_calls w cfg x st)"
      using pre(3) calls_along_event [of "PutFlow e' f' t'" ?f earlier] by fastforce
    then show "e' \<noteq> dr_handle dr" using beginning assms(2) by metis
  qed
  have unused: "\<forall>u. TakeFlow (Some (flow_handle (dr_handle dr))) u \<notin> set pre"
    using pre(3) returning assms(3,7) by (metis flow_handle_def)
  have "flow_call_time c = event_time x" if "c \<in> set (attempt_calls w cfg x st)" for c x st
    using that by (cases x) (auto split: option.splits if_splits)
  then have times: "\<forall>c \<in> set pre. flow_call_time c \<le> t + flow_ttl_ms" using pre(3) assms(4) by metis
  have few: "length (filter is_put pre) < max_flows" using length_filter_le [of is_put pre] pre(2) assms(5) by linarith
  have taken: "fst (take_flow flow_ttl_ms now (cb_handle cb) (so_flows (sv_sso (server_run w cfg ?es)))) = Some (begun_flow dr p q)"
    using flow_found [OF fresh unused assms(8) times few assms(6)] assms(7) unfolding attempts_flows es flow_handle_def by simp
  have "oidc_enabled cfg" using assms(1) by (auto simp: started_with_def split: if_splits)
  moreover have "b64url_encode (dr_state dr) \<noteq> []" using assms(10) by (simp add: b64url_Nil_iff)
  moreover have "sf_state (begun_flow dr p q) = b64url_encode (dr_state dr)" by (simp add: begun_flow_def)
  ultimately show ?thesis
    using assms(9,11,12) taken by (intro verdict_of_taken) (simp_all add: equal_encoded)
qed

subsection \<open>A sample sign-in\<close>

definition corp_provider :: oidc_provider where
  "corp_provider = issuer_provider ''google'' ''https://id/'' [''corp.com'']"

definition sso_sample :: horizon_config where
  "sso_sample = token_config\<lparr>cfg_auth := (cfg_auth token_config)\<lparr>auth_sso := no_sso\<lparr>sso_providers := [corp_provider]\<rparr>\<rparr>\<rparr>"

definition drawn_sample :: drawn_texts where
  "drawn_sample = \<lparr>dr_state = ''sta'', dr_nonce = ''non'', dr_verifier = ''ver'', dr_handle = ''han''\<rparr>"

definition sample_claims_of :: json where
  "sample_claims_of =
     JObj [(''nonce'', JStr (b64url_encode ''non'')), (''email'', JStr ''Ann@corp.com''), (''email_verified'', JStr ''true'')]"

definition sso_world :: login_world where
  "sso_world = sample_login_world\<lparr>lw_provider := sample_provider_world (Some sample_claims_of)\<rparr>"

definition sample_return :: callback_request where
  "sample_return =
     \<lparr>cb_query = [''state'' \<mapsto> b64url_encode ''sta'', ''code'' \<mapsto> ''c''], cb_handle = Some (b64url_encode ''han''), cb_origin = []\<rparr>"

abbreviation sample_begin :: server_event where
  "sample_begin \<equiv> SsoBegin drawn_sample [] Map.empty 7"

lemma sso_sample_facts:
  "oidc_enabled sso_sample" "chosen_provider sso_sample Map.empty = Some corp_provider" "op_kind corp_provider = OpenId"
  "find_provider sso_sample ''google'' = Some corp_provider" "op_id corp_provider = ''google''" "op_client_secret corp_provider \<noteq> []"
  "op_issuer corp_provider = ''https://id/''"
  by (simp_all add: sso_sample_def oidc_enabled_def chosen_provider_def find_provider_def corp_provider_def issuer_provider_def token_config_def
      sample_config_def no_sso_def Let_def)

lemma sample_started: "started_with (lw_provider sso_world) sso_sample 7 Map.empty (sv_sso new_server) = Some corp_provider"
  by (simp add: started_with_def sso_sample_facts new_server_def sso_world_def sample_discovery Let_def)

lemma sample_exchange:
  "exchange_code (sample_provider_world c) now corp_provider endpoint form =
     Inr (JObj [(''id_token'', JStr ''signed''), (''access_token'', JStr ''opaque'')])"
proof -
  let ?s = "json_stringify (JObj [(''id_token'', JStr ''signed''), (''access_token'', JStr ''opaque'')])"
  have "length ?s < 300" and j: "json_parse (utf8_decode ?s) = Some (JObj [(''id_token'', JStr ''signed''), (''access_token'', JStr ''opaque'')])"
    by code_simp+
  then have "length ?s \<le> max_provider_body" by (simp only: max_provider_body_def)
  from read_plain_reply [OF this] show ?thesis
    unfolding j by (simp add: exchange_code_def sample_provider_world_def sso_sample_facts json_property_def json_truthy_def del: json_stringify.simps)
qed

lemma sample_complete:
  "fst (complete_flow (sample_provider_world (Some sample_claims_of)) sso_sample now (begun_flow drawn_sample corp_provider Map.empty) sample_return []) =
     SsoLetIn corp_provider ''ann@corp.com'' [''viewer''] None ''/''"
proof -
  have "json_property sample_claims_of ''nonce'' = Some (JStr (b64url_encode ''non''))" "b64url_encode ''non'' \<noteq> []"
      "json_property sample_claims_of ''email'' = Some (JStr ''Ann@corp.com'')"
      "json_property sample_claims_of ''email_verified'' = Some (JStr ''true'')" "json_property sample_claims_of ''name'' = None"
      "json_property sample_claims_of ''preferred_username'' = None" "to_lower ''Ann@corp.com'' = ''ann@corp.com''"
    by code_simp+
  note claims = this
  have judged: "domain_allowed corp_provider ''ann@corp.com''"
      "roles_for_email (sso_role_table (auth_sso (cfg_auth sso_sample))) ''ann@corp.com'' = [''viewer'']" "safe_next None = ''/''"
    by code_simp+
  have "sf_provider (begun_flow drawn_sample corp_provider Map.empty) = ''google''"
      "sf_nonce (begun_flow drawn_sample corp_provider Map.empty) = b64url_encode ''non''"
      "sf_next (begun_flow drawn_sample corp_provider Map.empty) = ''/''"
    by (simp_all add: begun_flow_def drawn_sample_def sso_sample_facts judged)
  note flow = this
  have "json_property (JObj [(''id_token'', JStr ''signed''), (''access_token'', JStr ''opaque'')]) ''id_token'' = Some (JStr ''signed'')"
      "pw_verify (sample_provider_world c) = (\<lambda>now jwks iss aud tok. c)" for c
    by (simp_all add: json_property_def sample_provider_world_def)
  then show ?thesis
    by (simp add: complete_flow_def flow endpoints_of_def sso_sample_facts sample_discovery Let_def sample_exchange identify_def read_id_claims_def
        claims constant_time_equal_def js_text_of_def judge_def judged del: to_lower_simps)
qed

text \<open>The sample provider's document is in the cache when the person comes back.\<close>

lemma sample_complete_cached:
  "fst (complete_flow (lw_provider sso_world) sso_sample 9 (begun_flow drawn_sample corp_provider Map.empty) sample_return
      (so_discovered (sv_sso (server_run sso_world sso_sample [sample_begin])))) =
     SsoLetIn corp_provider ''ann@corp.com'' [''viewer''] None ''/''"
proof -
  let ?w = "sample_provider_world (Some sample_claims_of)"
  have d: "so_discovered (sv_sso (server_run sso_world sso_sample [sample_begin])) = snd (discover ?w 7 ''https://id/'' [])"
    by (simp add: sso_start_def sso_sample_facts new_server_def sso_world_def sample_discovery Let_def split: prod.split)
  have "fst (discover ?w 9 ''https://id/'' (snd (discover ?w 7 ''https://id/'' []))) = fst (discover ?w 9 ''https://id/'' [])"
    by (simp add: sample_discovery Let_def) (simp add: discover_def strip_slashes_def discovery_cache_ms_def Let_def)
  then have "fst (endpoints_of ?w 9 corp_provider (snd (discover ?w 7 ''https://id/'' []))) = fst (endpoints_of ?w 9 corp_provider [])"
    by (intro endpoints_by_discovery) (simp only: sso_sample_facts)
  then have "fst (complete_flow ?w sso_sample 9 (begun_flow drawn_sample corp_provider Map.empty) sample_return (snd (discover ?w 7 ''https://id/'' []))) =
      fst (complete_flow ?w sso_sample 9 (begun_flow drawn_sample corp_provider Map.empty) sample_return [])"
    by (intro complete_by_endpoints [where p = corp_provider]) (simp_all add: begun_flow_def sso_sample_facts)
  then show ?thesis unfolding d by (simp add: sample_complete sso_world_def)
qed

lemma sample_answered:
  "fst (sso_verdict_of (lw_provider sso_world) sso_sample 9 sample_return (sv_sso (server_run sso_world sso_sample [sample_begin]))) =
     fst (complete_flow (lw_provider sso_world) sso_sample 9 (begun_flow drawn_sample corp_provider Map.empty) sample_return
       (so_discovered (sv_sso (server_run sso_world sso_sample [sample_begin]))))"
proof (rule verdict_of_taken)
  have "attempts sso_world sso_sample [sample_begin] = [PutFlow ''han'' (begun_flow drawn_sample corp_provider Map.empty) 7]"
    using sample_started by (simp add: drawn_sample_def)
  moreover have "fst (take_flow flow_ttl_ms 9 (Some (flow_handle ''han'')) (flow_run flow_ttl_ms ([] @ PutFlow ''han'' f 7 # []))) = Some f" for f
    by (rule flow_found) (simp_all add: flow_ttl_ms_def max_flows_def)
  ultimately show "fst (take_flow flow_ttl_ms 9 (cb_handle sample_return) (so_flows (sv_sso (server_run sso_world sso_sample [sample_begin])))) =
      Some (begun_flow drawn_sample corp_provider Map.empty)"
    unfolding attempts_flows by (simp add: sample_return_def flow_handle_def)
  have "b64url_encode ''sta'' \<noteq> []" by code_simp
  then show "truthy (cb_query sample_return ''state'')" by (simp add: sample_return_def)
qed (simp_all add: sso_sample_facts sample_return_def begun_flow_def drawn_sample_def equal_encoded)

lemmas sample_let_in_sso = sample_answered [unfolded sample_complete_cached]

theorem sso_return_was_begun_witness:
  "\<exists>later dr origin q t earlier. [sample_begin] = later @ SsoBegin dr origin q t # earlier \<and>
     cb_handle sample_return = Some (b64url_encode (dr_handle dr))"
  using sso_return_was_begun [OF sample_let_in_sso] by blast

theorem sso_identity_proven_witness:
  "\<exists>jwks token payload. pw_verify (lw_provider sso_world) 9 jwks (strip_slashes (op_issuer corp_provider)) (op_client_id corp_provider) token = Some payload \<and>
     js_text_of (json_property payload ''email_verified'') = ''true''"
  using sso_identity_proven [OF sample_let_in_sso] sso_sample_facts(3) by blast

theorem sso_attempt_answered_witness:
  "fst (sso_verdict_of (lw_provider sso_world) sso_sample 9 sample_return
      (sv_sso (server_run sso_world sso_sample [Request (cookie_request ''x'') 8, sample_begin]))) \<noteq> SsoRefused ''login_expired''"
proof -
  let ?later = "[Request (cookie_request ''x'') 8]"
  have same: "sv_sso (server_run sso_world sso_sample (?later @ sample_begin # [])) = sv_sso (server_run sso_world sso_sample [sample_begin])"
    by simp
  have ne: "b64url_encode ''sta'' \<noteq> []" by code_simp
  have s: "started_with (lw_provider sso_world) sso_sample 7 Map.empty (sv_sso (server_run sso_world sso_sample [])) = Some corp_provider"
    using sample_started by simp
  from sso_attempt_answered [OF s, of ?later drawn_sample sample_return 9 "[]"]
  have "fst (sso_verdict_of (lw_provider sso_world) sso_sample 9 sample_return (sv_sso (server_run sso_world sso_sample (?later @ sample_begin # [])))) =
      fst (complete_flow (lw_provider sso_world) sso_sample 9 (begun_flow drawn_sample corp_provider Map.empty) sample_return
        (so_discovered (sv_sso (server_run sso_world sso_sample (?later @ sample_begin # [])))))"
    by (simp add: drawn_sample_def sample_return_def flow_ttl_ms_def max_flows_def)
  then show ?thesis unfolding same sample_complete_cached by simp
qed

theorem start_never_raises_witness:
  "fst (sso_start (lw_provider sso_world) sso_sample 7 drawn_sample [] Map.empty (sv_sso (server_run sso_world sso_sample []))) \<noteq> StartRaised"
proof -
  have "provider_issues sample_url corp_provider = []" by code_simp
  then have "\<forall>p \<in> set (sso_providers (auth_sso (cfg_auth sso_sample))). provider_issues (pw_parse (lw_provider sso_world)) p = []"
    by (simp add: sso_sample_def sso_world_def sample_provider_world_def)
  from start_never_raises [OF this] show ?thesis .
qed

end
