(* ===== verification/HourBuckets.thy ===== *)
theory HourBuckets
  imports Prelude
begin

text \<open>
  The hours the audit log is accounted by: \<open>hourBucketOf\<close> and \<open>hourBucketStart\<close> of
  \<open>apps/bff/src/store/audit/counters.ts\<close>, over the calendar of JavaScript's \<open>Date\<close> in UTC as its
  specification gives it.  A moment is a number of milliseconds since 1970.
\<close>

subsection \<open>The calendar\<close>

definition leap_year :: "nat \<Rightarrow> bool" where
  "leap_year y \<longleftrightarrow> (4 dvd y \<and> \<not> 100 dvd y) \<or> 400 dvd y"

text \<open>The number of the day a year begins with.\<close>

definition day_from_year :: "nat \<Rightarrow> nat" where
  "day_from_year y = 365 * (y - 1970) + (y - 1969) div 4 - (y - 1901) div 100 + (y - 1601) div 400"

lemma day_from_next_year:
  assumes "1970 \<le> y"
  shows "day_from_year (Suc y) = day_from_year y + (if leap_year y then 366 else 365)"
proof -
  obtain n where y: "y = 1970 + n" using assms le_Suc_ex by blast
  have four: "(n + 2) div 4 = (n + 1) div 4 + (if 4 dvd (n + 2) then 1 else 0)" by (simp add: div_Suc dvd_eq_mod_eq_0)
  have hundred: "(n + 70) div 100 = (n + 69) div 100 + (if 100 dvd (n + 70) then 1 else 0)"
    using div_Suc [of "n + 69" 100] by (simp add: dvd_eq_mod_eq_0 add.commute [of 70 n])
  have era: "(n + 370) div 400 = (n + 369) div 400 + (if 400 dvd (n + 370) then 1 else 0)"
    using div_Suc [of "n + 369" 400] by (simp add: dvd_eq_mod_eq_0 add.commute [of 370 n])
  have dvds: "4 dvd (1970 + n) \<longleftrightarrow> 4 dvd (n + 2)" "100 dvd (1970 + n) \<longleftrightarrow> 100 dvd (n + 70)" "400 dvd (1970 + n) \<longleftrightarrow> 400 dvd (n + 370)"
    using dvd_add_right_iff [of 4 1968 "n + 2"] dvd_add_right_iff [of 100 1900 "n + 70"] dvd_add_right_iff [of 400 1600 "n + 370"]
    by (simp_all add: add.commute)
  have sub: "100 dvd (n + 70) \<Longrightarrow> 4 dvd (n + 2)" "400 dvd (n + 370) \<Longrightarrow> 100 dvd (n + 70)"
  proof -
    assume "100 dvd (n + 70)"
    then have "4 dvd (n + 70)" by (rule dvd_trans [rotated]) simp
    then show "4 dvd (n + 2)" using dvd_add_right_iff [of 4 68 "n + 2"] by (simp add: add.commute [of 70 n])
  next
    assume "400 dvd (n + 370)"
    then have "100 dvd (n + 370)" by (rule dvd_trans [rotated]) simp
    then show "100 dvd (n + 70)" using dvd_add_right_iff [of 100 300 "n + 70"] by (simp add: add.commute [of 370 n] add.commute [of 70 n])
  qed
  have small: "(n + 69) div 100 \<le> 365 * n + (n + 1) div 4" by linarith
  define a b c where "a = (n + 1) div 4" and "b = (n + 69) div 100" and "c = (n + 369) div 400"
  have here: "day_from_year y = 365 * n + a - b + c"
    by (simp add: y day_from_year_def a_def b_def c_def add.commute)
  have "day_from_year (Suc y) = 365 * Suc n + (n + 2) div 4 - (n + 70) div 100 + (n + 370) div 400"
    by (simp add: y day_from_year_def add.commute)
  then have there: "day_from_year (Suc y) = 365 * Suc n + (a + (if 4 dvd (n + 2) then 1 else 0)) -
      (b + (if 100 dvd (n + 70) then 1 else 0)) + (c + (if 400 dvd (n + 370) then 1 else 0))"
    unfolding four hundred era a_def b_def c_def .
  have leap: "leap_year y \<longleftrightarrow> (4 dvd (n + 2) \<and> \<not> 100 dvd (n + 70)) \<or> 400 dvd (n + 370)"
    unfolding y leap_year_def dvds ..
  have "b \<le> 365 * n + a" using small by (simp add: a_def b_def)
  then show ?thesis using sub unfolding here there leap
    by (cases "4 dvd (n + 2)"; cases "100 dvd (n + 70)"; cases "400 dvd (n + 370)") simp_all
qed

lemma day_from_year_mono: "1970 \<le> y \<Longrightarrow> y \<le> z \<Longrightarrow> day_from_year y + 365 * (z - y) \<le> day_from_year z"
proof (induction z)
  case (Suc z)
  show ?case
  proof (cases "y = Suc z")
    case False
    then have "y \<le> z" "1970 \<le> z" using Suc.prems by auto
    then show ?thesis using Suc day_from_next_year [of z] by (auto simp: Suc_diff_le)
  qed simp
qed simp

text \<open>The year a day is in: the last one that begins no later.\<close>

function year_at :: "nat \<Rightarrow> nat \<Rightarrow> nat" where
  "year_at y d = (if 1970 \<le> y \<and> day_from_year (Suc y) \<le> d then year_at (Suc y) d else y)"
  by pat_completeness auto
termination
proof (relation "measure (\<lambda>(y, d). Suc d - day_from_year y)")
  fix y d assume "1970 \<le> y \<and> day_from_year (Suc y) \<le> d"
  then show "((Suc y, d), y, d) \<in> measure (\<lambda>(y, d). Suc d - day_from_year y)"
    using day_from_next_year [of y] by (auto split: if_splits)
qed simp

declare year_at.simps [simp del]

definition year_of_day :: "nat \<Rightarrow> nat" where
  "year_of_day d = year_at 1970 d"

lemma year_at_bounds:
  "1970 \<le> y \<Longrightarrow> day_from_year y \<le> d \<Longrightarrow>
   1970 \<le> year_at y d \<and> day_from_year (year_at y d) \<le> d \<and> d < day_from_year (Suc (year_at y d))"
proof (induction y d rule: year_at.induct)
  case (1 y d)
  show ?case
  proof (cases "day_from_year (Suc y) \<le> d")
    case True
    then have "year_at y d = year_at (Suc y) d" using "1.prems" by (simp add: year_at.simps [of y])
    then show ?thesis using 1 True by simp
  next
    case False
    then have "year_at y d = y" by (simp add: year_at.simps [of y])
    then show ?thesis using 1 False by simp
  qed
qed

lemma year_of_day_bounds:
  "1970 \<le> year_of_day d" "day_from_year (year_of_day d) \<le> d" "d < day_from_year (Suc (year_of_day d))"
  using year_at_bounds [of 1970 d] by (simp_all add: year_of_day_def day_from_year_def)

text \<open>The day of the year each month begins with.\<close>

definition month_starts :: "bool \<Rightarrow> nat list" where
  "month_starts leap =
     (let l = (if leap then 1 else 0) in
      [0, 31, 59 + l, 90 + l, 120 + l, 151 + l, 181 + l, 212 + l, 243 + l, 273 + l, 304 + l, 334 + l])"

definition month_of :: "bool \<Rightarrow> nat \<Rightarrow> nat" where
  "month_of leap n = length (filter (\<lambda>s. s \<le> n) (month_starts leap))"

definition date_of :: "bool \<Rightarrow> nat \<Rightarrow> nat" where
  "date_of leap n = n - month_starts leap ! (month_of leap n - 1) + 1"

lemma count_sorted:
  "sorted xs \<Longrightarrow> i < length xs \<Longrightarrow> xs ! i \<le> n \<longleftrightarrow> i < length (filter (\<lambda>s. s \<le> n) xs)" for xs :: "nat list"
proof (induction xs arbitrary: i)
  case (Cons x xs)
  show ?case
  proof (cases "x \<le> n")
    case True
    then show ?thesis using Cons by (cases i) auto
  next
    case False
    then have "\<forall>y \<in> set (x # xs). \<not> y \<le> n" using Cons.prems(1) by auto
    then have "filter (\<lambda>s. s \<le> n) (x # xs) = []" "\<not> (x # xs) ! i \<le> n"
      using nth_mem [OF Cons.prems(2)] unfolding filter_empty_conv by blast+
    then show ?thesis by (simp only: list.size) simp
  qed
qed simp

lemma month_starts_facts:
  "length (month_starts leap) = 12" "sorted (month_starts leap)" "month_starts leap ! 0 = 0"
  "month_starts leap ! 11 + 31 = (if leap then 366 else 365)"
  by (auto simp: month_starts_def Let_def)

lemma month_lengths: "1 \<le> m \<Longrightarrow> m < 12 \<Longrightarrow> month_starts leap ! m \<le> month_starts leap ! (m - 1) + 31"
proof -
  assume "1 \<le> m" "m < 12"
  then have "m = 1 \<or> m = 2 \<or> m = 3 \<or> m = 4 \<or> m = 5 \<or> m = 6 \<or> m = 7 \<or> m = 8 \<or> m = 9 \<or> m = 10 \<or> m = 11" by arith
  then show ?thesis by (elim disjE) (simp_all add: month_starts_def Let_def)
qed

lemma month_facts:
  assumes "n < (if leap then 366 else 365)"
  shows "1 \<le> month_of leap n" "month_of leap n \<le> 12" "1 \<le> date_of leap n" "date_of leap n \<le> 31"
    "month_starts leap ! (month_of leap n - 1) + (date_of leap n - 1) = n"
proof -
  let ?m = "month_of leap n" and ?s = "month_starts leap"
  have count: "i < 12 \<Longrightarrow> ?s ! i \<le> n \<longleftrightarrow> i < ?m" for i
    using count_sorted [OF month_starts_facts(2), of i leap n] month_starts_facts(1) by (simp add: month_of_def)
  show m: "1 \<le> ?m" using count [of 0] month_starts_facts(3) by simp
  show "?m \<le> 12" using length_filter_le [of "\<lambda>s. s \<le> n" ?s] by (simp add: month_of_def month_starts_facts(1))
  then have le: "?s ! (?m - 1) \<le> n" using count [of "?m - 1"] m by simp
  have "n < ?s ! (?m - 1) + 31"
  proof (cases "?m = 12")
    case True
    then show ?thesis using assms month_starts_facts(4) [of leap] by simp
  next
    case False
    then have "?m < 12" using \<open>?m \<le> 12\<close> by simp
    then have "n < ?s ! ?m" using count [of ?m] by simp
    then show ?thesis using month_lengths [OF m \<open>?m < 12\<close>, of leap] by linarith
  qed
  then show "1 \<le> date_of leap n" "date_of leap n \<le> 31" "?s ! (?m - 1) + (date_of leap n - 1) = n"
    using le by (simp_all add: date_of_def)
qed

lemma month_mono: "n \<le> n' \<Longrightarrow> month_of leap n \<le> month_of leap n'"
proof -
  assume "n \<le> n'"
  then have "set (filter (\<lambda>s. s \<le> n) xs) \<subseteq> set (filter (\<lambda>s. s \<le> n') xs)" "length (filter (\<lambda>s. s \<le> n) xs) \<le> length (filter (\<lambda>s. s \<le> n') xs)"
    for xs :: "nat list" by (induction xs) auto
  then show ?thesis by (simp add: month_of_def)
qed

lemma date_mono: "month_of leap n = month_of leap n' \<Longrightarrow> n \<le> n' \<Longrightarrow> date_of leap n \<le> date_of leap n'"
  unfolding date_of_def by (metis add_le_mono1 diff_le_mono)

lemma date_strict:
  "month_of leap n = month_of leap n' \<Longrightarrow> n < n' \<Longrightarrow> n < (if leap then 366 else 365) \<Longrightarrow> date_of leap n < date_of leap n'"
  using month_facts(5) [of n leap] unfolding date_of_def by simp

subsection \<open>Buckets\<close>

definition hour_bucket_of :: "nat \<Rightarrow> nat" where
  "hour_bucket_of at =
     (let d = at div 86400000; y = year_of_day d; n = d - day_from_year y; leap = leap_year y in
      y * 1000000 + month_of leap n * 10000 + date_of leap n * 100 + at mod 86400000 div 3600000)"

text \<open>\<open>Date.UTC\<close> of a year, a month counted from one, a day and an hour.\<close>

definition date_utc :: "nat \<Rightarrow> nat \<Rightarrow> nat \<Rightarrow> nat \<Rightarrow> nat" where
  "date_utc y m d h = (day_from_year y + month_starts (leap_year y) ! (m - 1) + (d - 1)) * 86400000 + h * 3600000"

definition hour_bucket_start :: "nat \<Rightarrow> nat" where
  "hour_bucket_start bucket =
     (let hour = bucket mod 100; day = bucket div 100 mod 100; month = bucket div 10000 mod 100; year = bucket div 1000000 in
      date_utc year month day hour)"

subsection \<open>Properties\<close>

lemma hour_below: "at mod 86400000 div 3600000 < (24 :: nat)"
  by (rule less_mult_imp_div_less) simp

lemma bucket_parts:
  assumes "h < 100" "d < 100" "m < 100"
  shows "(y * 1000000 + m * 10000 + d * 100 + h) mod 100 = (h :: nat)"
    "(y * 1000000 + m * 10000 + d * 100 + h) div 100 mod 100 = d"
    "(y * 1000000 + m * 10000 + d * 100 + h) div 10000 mod 100 = m" "(y * 1000000 + m * 10000 + d * 100 + h) div 1000000 = y"
proof -
  have eq: "y * 1000000 + m * 10000 + d * 100 + h = h + (d + (y * 100 + m) * 100) * 100" by simp
  have one: "(y * 1000000 + m * 10000 + d * 100 + h) div 100 = d + (y * 100 + m) * 100"
      "(y * 1000000 + m * 10000 + d * 100 + h) mod 100 = h" unfolding eq using assms(1) by (simp_all del: distrib_right_numeral)
  have two: "(d + (y * 100 + m) * 100) div 100 = m + y * 100" "(d + (y * 100 + m) * 100) mod 100 = d"
    using assms(2) by (simp_all del: distrib_right_numeral)
  have three: "(m + y * 100) div 100 = y" "(m + y * 100) mod 100 = m"
    using assms(3) by (simp_all del: distrib_right_numeral)
  have "x div 10000 = x div 100 div 100" "x div 1000000 = x div 100 div 100 div 100" for x :: nat by (simp_all add: div_mult2_eq [symmetric])
  then show "(y * 1000000 + m * 10000 + d * 100 + h) mod 100 = h" "(y * 1000000 + m * 10000 + d * 100 + h) div 100 mod 100 = d"
    "(y * 1000000 + m * 10000 + d * 100 + h) div 10000 mod 100 = m" "(y * 1000000 + m * 10000 + d * 100 + h) div 1000000 = y"
    by (simp_all only: one two three)
qed

lemma day_in_year: "d - day_from_year (year_of_day d) < (if leap_year (year_of_day d) then 366 else 365)"
  using year_of_day_bounds [of d] day_from_next_year [OF year_of_day_bounds(1), of d] by (auto split: if_splits)

text \<open>A bucket names its hour.  The start of the hour a moment's bucket names is the start of the hour the
  moment is in, for every moment since 1970.\<close>

lemma hour_start_of: "hour_bucket_start (hour_bucket_of at) = at - at mod 3600000"
proof -
  let ?d = "at div 86400000" let ?y = "year_of_day ?d" let ?n = "?d - day_from_year ?y" let ?l = "leap_year ?y"
  have n: "?n < (if ?l then 366 else 365)" by (rule day_in_year)
  have small: "at mod 86400000 div 3600000 < 100" "date_of ?l ?n < 100" "month_of ?l ?n < 100"
    using hour_below [of at] month_facts(2,4) [OF n] by linarith+
  have "hour_bucket_start (hour_bucket_of at) = (day_from_year ?y + ?n) * 86400000 + at mod 86400000 div 3600000 * 3600000"
    unfolding hour_bucket_start_def hour_bucket_of_def Let_def bucket_parts [OF small] date_utc_def
    using month_facts(5) [OF n] by (simp add: add.assoc)
  also have "day_from_year ?y + ?n = ?d" using year_of_day_bounds(2) [of ?d] by simp
  also have "?d * 86400000 + at mod 86400000 div 3600000 * 3600000 = at - at mod 3600000"
  proof -
    have "at mod 86400000 = at mod 86400000 div 3600000 * 3600000 + at mod 86400000 mod 3600000" by simp
    moreover have "at mod 86400000 mod 3600000 = at mod 3600000" by (simp add: mod_mod_cancel)
    moreover have "at = ?d * 86400000 + at mod 86400000" by simp
    ultimately show ?thesis by linarith
  qed
  finally show ?thesis .
qed

lemma year_of_day_mono: "d \<le> d' \<Longrightarrow> year_of_day d \<le> year_of_day d'"
proof (rule ccontr)
  assume "d \<le> d'" "\<not> year_of_day d \<le> year_of_day d'"
  then have "Suc (year_of_day d') \<le> year_of_day d" by simp
  then have "day_from_year (Suc (year_of_day d')) \<le> day_from_year (year_of_day d)"
    using day_from_year_mono [of "Suc (year_of_day d')" "year_of_day d"] year_of_day_bounds(1) [of d'] by linarith
  then show False using year_of_day_bounds(2) [of d] year_of_day_bounds(3) [of d'] \<open>d \<le> d'\<close> by linarith
qed

lemma hour_in_year_mono:
  assumes "n \<le> n'" "n' < (if leap then 366 else 365)" "h < 24" "n = n' \<Longrightarrow> h \<le> h'"
  shows "month_of leap n * 10000 + date_of leap n * 100 + h \<le> month_of leap n' * 10000 + date_of leap n' * 100 + h'"
proof -
  have n: "n < (if leap then 366 else 365)" using assms(1,2) by simp
  consider "month_of leap n < month_of leap n'" | "month_of leap n = month_of leap n'" "n < n'" | "n = n'"
    using month_mono [OF assms(1), of leap] assms(1) by linarith
  then show ?thesis
  proof cases
    case 1
    then show ?thesis using month_facts(4) [OF n] month_facts(3) [OF assms(2)] assms(3) by linarith
  next
    case 2
    then show ?thesis using date_strict [OF 2 n] assms(3) by linarith
  next
    case 3
    then show ?thesis using assms(4) by simp
  qed
qed

lemma hour_bucket_mono: "at \<le> at' \<Longrightarrow> hour_bucket_of at \<le> hour_bucket_of at'"
proof -
  assume le: "at \<le> at'"
  define d where "d = at div 86400000"
  define d' where "d' = at' div 86400000"
  define y where "y = year_of_day d"
  define y' where "y' = year_of_day d'"
  define h where "h = at mod 86400000 div 3600000"
  define h' where "h' = at' mod 86400000 div 3600000"
  define md where "md = month_of (leap_year y) (d - day_from_year y) * 10000 + date_of (leap_year y) (d - day_from_year y) * 100 + h"
  define md' where "md' = month_of (leap_year y') (d' - day_from_year y') * 10000 + date_of (leap_year y') (d' - day_from_year y') * 100 + h'"
  have b: "hour_bucket_of at = y * 1000000 + md" "hour_bucket_of at' = y' * 1000000 + md'"
    unfolding hour_bucket_of_def Let_def md_def md'_def y_def y'_def d_def d'_def h_def h'_def by simp_all
  have dd: "d \<le> d'" using le unfolding d_def d'_def by (rule div_le_mono)
  have small: "h < 24" unfolding h_def by (rule hour_below)
  have "h \<le> h'" if "d = d'"
  proof -
    have "at mod 86400000 \<le> at' mod 86400000" using le that unfolding d_def d'_def by (metis div_mult_mod_eq nat_add_left_cancel_le)
    then show ?thesis unfolding h_def h'_def by (rule div_le_mono)
  qed
  note hours = this
  show ?thesis
  proof (cases "y = y'")
    case True
    have "md \<le> md'" unfolding md_def md'_def True
    proof (rule hour_in_year_mono)
      show "d - day_from_year y' \<le> d' - day_from_year y'" using dd by (rule diff_le_mono)
      show "d' - day_from_year y' < (if leap_year y' then 366 else 365)" unfolding y'_def by (rule day_in_year)
      show "h \<le> h'" if "d - day_from_year y' = d' - day_from_year y'"
      proof (rule hours)
        have "day_from_year y' \<le> d" "day_from_year y' \<le> d'" using year_of_day_bounds(2) True unfolding y_def y'_def by metis+
        then show "d = d'" using that by simp
      qed
    qed (rule small)
    then show ?thesis using b True by simp
  next
    case False
    then have "Suc y \<le> y'" using year_of_day_mono [OF dd] unfolding y_def y'_def by simp
    then have "Suc y * 1000000 \<le> y' * 1000000" by (rule mult_le_mono1)
    moreover have "md < 1000000"
      using month_facts(2,4) [OF day_in_year [of d]] small unfolding md_def y_def by linarith
    ultimately show ?thesis unfolding b by simp
  qed
qed

text \<open>Buckets compare as the hours they name, so that a later bucket is a later hour.\<close>

lemma hour_bucket_eq: "hour_bucket_of at = hour_bucket_of at' \<longleftrightarrow> at div 3600000 = at' div 3600000"
proof
  assume "hour_bucket_of at = hour_bucket_of at'"
  then have "at - at mod 3600000 = at' - at' mod 3600000" using hour_start_of by metis
  then show "at div 3600000 = at' div 3600000" by (metis div_mult_self_is_m minus_mod_eq_div_mult zero_less_numeral)
next
  assume eq: "at div 3600000 = at' div 3600000"
  have "x div 86400000 = x div 3600000 div 24" "x mod 86400000 div 3600000 = x div 3600000 mod 24" for x :: nat
    using div_mult2_eq [of x 3600000 24] mod_mult2_eq [of x 3600000 24] by simp_all
  then show "hour_bucket_of at = hour_bucket_of at'" unfolding hour_bucket_of_def Let_def by (simp add: eq)
qed

lemma hour_bucket_less: "hour_bucket_of at < hour_bucket_of at' \<longleftrightarrow> at div 3600000 < at' div 3600000"
proof
  assume less: "hour_bucket_of at < hour_bucket_of at'"
  then have "at < at'" using hour_bucket_mono [of at' at] by fastforce
  then have "at div 3600000 \<le> at' div 3600000" by (intro div_le_mono) simp
  then show "at div 3600000 < at' div 3600000" using less hour_bucket_eq [of at at'] by simp
next
  assume less: "at div 3600000 < at' div 3600000"
  then have "at \<le> at'" using div_le_mono [of at' at 3600000] by fastforce
  then show "hour_bucket_of at < hour_bucket_of at'" using less hour_bucket_mono [of at at'] hour_bucket_eq [of at at'] by simp
qed

text \<open>The first hours of all.\<close>

lemma first_hours:
  "hour_bucket_of 0 = 1970010100" "hour_bucket_of 3600000 = 1970010101" "hour_bucket_of 7200000 = 1970010102"
  "hour_bucket_of 10800000 = 1970010103"
proof -
  have year: "year_of_day 0 = 1970" unfolding year_of_day_def by (subst year_at.simps) (simp add: day_from_year_def)
  have leap: "leap_year 1970 = False" by (simp add: leap_year_def)
  have day: "day_from_year 1970 = 0" by (simp add: day_from_year_def)
  have month: "month_of False 0 = 1" by (simp add: month_of_def month_starts_def)
  have date: "date_of False 0 = 1" unfolding date_of_def month by (simp add: month_starts_def)
  show "hour_bucket_of 0 = 1970010100" "hour_bucket_of 3600000 = 1970010101" "hour_bucket_of 7200000 = 1970010102"
    "hour_bucket_of 10800000 = 1970010103"
    unfolding hour_bucket_of_def Let_def by (simp_all add: year leap day month date)
qed

end
