(* ===== verification/AuditCounters.thy ===== *)
theory AuditCounters
  imports HourBuckets Sessions
begin

text \<open>
  The accounting behind the audit log: the hourly write budget and the statistics of
  \<open>apps/bff/src/store/audit/counters.ts\<close>.  Every operation takes the moment it is about, and those moments
  need not come in order.
\<close>

subsection \<open>State\<close>

definition max_hour_buckets :: nat where "max_hour_buckets = 3"

record login_counts =
  lc_local :: nat
  lc_ldap :: nat
  lc_oidc :: nat
  lc_oauth :: nat

record stat_accum =
  ac_login :: login_counts
  ac_rejected :: nat
  ac_over_budget :: nat

definition empty_stat :: stat_accum where
  "empty_stat =
     \<lparr>ac_login = \<lparr>lc_local = 0, lc_ldap = 0, lc_oidc = 0, lc_oauth = 0\<rparr>, ac_rejected = 0, ac_over_budget = 0\<rparr>"

definition is_empty_stat :: "stat_accum \<Rightarrow> bool" where
  "is_empty_stat s \<longleftrightarrow>
     lc_local (ac_login s) = 0 \<and> lc_ldap (ac_login s) = 0 \<and> lc_oidc (ac_login s) = 0 \<and> lc_oauth (ac_login s) = 0 \<and>
     ac_rejected s = 0 \<and> ac_over_budget s = 0"

record audit_counters =
  co_stats :: "(nat, stat_accum) jsmap"
  co_evicted_through :: nat
  co_budget_hour :: nat
  co_rows :: nat
  co_per_principal :: "(string, nat) jsmap"
  co_over_budget :: nat
  co_unconfirmed :: nat

definition new_counters :: audit_counters where
  "new_counters =
     \<lparr>co_stats = [], co_evicted_through = 0, co_budget_hour = 0, co_rows = 0, co_per_principal = [], co_over_budget = 0,
      co_unconfirmed = 0\<rparr>"

subsection \<open>Operations\<close>

definition roll_to :: "nat \<Rightarrow> audit_counters \<Rightarrow> audit_counters" where
  "roll_to hour c =
     (if hour \<le> co_budget_hour c then c
      else c\<lparr>co_budget_hour := hour, co_rows := 0, co_over_budget := 0, co_per_principal := []\<rparr>)"

definition evict_stats :: "nat \<Rightarrow> audit_counters \<Rightarrow> audit_counters" where
  "evict_stats incoming c =
     (let hours = sort (map fst (co_stats c) @ [incoming]);
          doomed = filter (\<lambda>h. h \<noteq> incoming) (take (length hours - max_hour_buckets) hours) in
      fold (\<lambda>h c. c\<lparr>co_stats := map_del h (co_stats c), co_evicted_through := max (co_evicted_through c) h\<rparr>) doomed c)"

text \<open>The accumulator of an hour, created unless the hour is closed; what is added to that of a closed hour
  is lost.\<close>

definition open_hour :: "nat \<Rightarrow> audit_counters \<Rightarrow> audit_counters" where
  "open_hour hour c =
     (if map_of (co_stats c) hour \<noteq> None then c
      else if hour \<le> co_evicted_through c then c
      else (let c = evict_stats hour c in c\<lparr>co_stats := map_put hour empty_stat (co_stats c)\<rparr>))"

definition add_to_stat :: "nat \<Rightarrow> (stat_accum \<Rightarrow> stat_accum) \<Rightarrow> audit_counters \<Rightarrow> audit_counters" where
  "add_to_stat hour f c =
     (let c = open_hour hour c in
      case map_of (co_stats c) hour of
        Some s \<Rightarrow> c\<lparr>co_stats := map_put hour (f s) (co_stats c)\<rparr>
      | None \<Rightarrow> c)"

definition principal_share :: "nat \<Rightarrow> nat" where
  "principal_share max_rows = max 20 (max_rows div 10)"

definition count_over :: "stat_accum \<Rightarrow> stat_accum" where
  "count_over s = s\<lparr>ac_over_budget := ac_over_budget s + 1\<rparr>"

definition rows_used :: "string \<Rightarrow> audit_counters \<Rightarrow> nat" where
  "rows_used who c = (case map_of (co_per_principal c) who of Some n \<Rightarrow> n | None \<Rightarrow> 0)"

definition reserve_row :: "nat \<Rightarrow> nat \<Rightarrow> string \<Rightarrow> audit_counters \<Rightarrow> bool \<times> audit_counters" where
  "reserve_row max_rows at who c =
     (let hour = hour_bucket_of at; c = roll_to hour c; used = rows_used who c in
      if principal_share max_rows \<le> used
      then (False, add_to_stat hour count_over (c\<lparr>co_over_budget := co_over_budget c + 1\<rparr>))
      else if max_rows \<le> co_rows c
      then (False, add_to_stat hour count_over (c\<lparr>co_over_budget := co_over_budget c + 1\<rparr>))
      else (True, c\<lparr>co_per_principal := map_put who (used + 1) (co_per_principal c), co_rows := co_rows c + 1\<rparr>))"

text \<open>A sign-in as the counters see it.\<close>

record counted_event =
  ce_kind :: auth_source
  ce_granted :: bool
  ce_at :: nat
  ce_protocol :: "string option"
  ce_principal :: string

definition count_login :: "auth_source \<Rightarrow> string option \<Rightarrow> login_counts \<Rightarrow> login_counts" where
  "count_login kind protocol l =
     (case kind of
        FromLocal \<Rightarrow> l\<lparr>lc_local := lc_local l + 1\<rparr>
      | FromLdap \<Rightarrow> l\<lparr>lc_ldap := lc_ldap l + 1\<rparr>
      | FromBreakGlass \<Rightarrow> l\<lparr>lc_local := lc_local l + 1\<rparr>
      | FromSso \<Rightarrow> if protocol = Some ''oauth2'' then l\<lparr>lc_oauth := lc_oauth l + 1\<rparr> else l\<lparr>lc_oidc := lc_oidc l + 1\<rparr>
      | _ \<Rightarrow> l)"

definition count_event :: "counted_event \<Rightarrow> stat_accum \<Rightarrow> stat_accum" where
  "count_event ev s =
     (if \<not> ce_granted ev then s\<lparr>ac_rejected := ac_rejected s + 1\<rparr>
      else s\<lparr>ac_login := count_login (ce_kind ev) (ce_protocol ev) (ac_login s)\<rparr>)"

definition admit_event :: "nat \<Rightarrow> counted_event \<Rightarrow> audit_counters \<Rightarrow> bool \<times> audit_counters" where
  "admit_event max_rows ev c =
     (case reserve_row max_rows (ce_at ev) (ce_principal ev) c of
        (False, c') \<Rightarrow> (False, c')
      | (True, c') \<Rightarrow> (True, add_to_stat (hour_bucket_of (ce_at ev)) (count_event ev) c'))"

definition count_write_uncertain :: "nat \<Rightarrow> audit_counters \<Rightarrow> audit_counters" where
  "count_write_uncertain rows c = c\<lparr>co_unconfirmed := co_unconfirmed c + rows\<rparr>"

definition rows_at :: "nat \<Rightarrow> audit_counters \<Rightarrow> nat \<times> audit_counters" where
  "rows_at now c = (let c = roll_to (hour_bucket_of now) c in (co_rows c, c))"

definition over_budget_at :: "nat \<Rightarrow> audit_counters \<Rightarrow> nat \<times> audit_counters" where
  "over_budget_at now c = (let c = roll_to (hour_bucket_of now) c in (co_over_budget c, c))"

record audit_stat =
  at_hour :: nat
  at_node :: string
  at_figure :: stat_accum

definition take_stats :: "string \<Rightarrow> audit_counters \<Rightarrow> audit_stat list" where
  "take_stats node c =
     map (\<lambda>(h, s). \<lparr>at_hour = h, at_node = node, at_figure = s\<rparr>) (filter (\<lambda>(h, s). \<not> is_empty_stat s) (co_stats c))"

subsection \<open>A history of sign-ins\<close>

datatype counter_call = AdmitCall counted_event | HealthCall nat | UncertainCall nat

fun counter_step :: "nat \<Rightarrow> counter_call \<Rightarrow> audit_counters \<Rightarrow> audit_counters" where
  "counter_step max_rows (AdmitCall ev) c = snd (admit_event max_rows ev c)"
| "counter_step max_rows (HealthCall now) c = snd (over_budget_at now (snd (rows_at now c)))"
| "counter_step max_rows (UncertainCall n) c = count_write_uncertain n c"

text \<open>The calls so far, the latest first.\<close>

primrec counter_run :: "nat \<Rightarrow> counter_call list \<Rightarrow> audit_counters" where
  "counter_run max_rows [] = new_counters"
| "counter_run max_rows (x # xs) = counter_step max_rows x (counter_run max_rows xs)"

definition admits :: "nat \<Rightarrow> counted_event \<Rightarrow> audit_counters \<Rightarrow> bool" where
  "admits max_rows ev c = fst (admit_event max_rows ev c)"

text \<open>The rows let into the table, each with the hour of the budget it was charged to and its principal.\<close>

fun rows_spent :: "nat \<Rightarrow> counter_call list \<Rightarrow> (nat \<times> string) list" where
  "rows_spent max_rows [] = []"
| "rows_spent max_rows (AdmitCall ev # xs) =
     (let c = counter_run max_rows xs in
      if admits max_rows ev c
      then (max (co_budget_hour c) (hour_bucket_of (ce_at ev)), ce_principal ev) # rows_spent max_rows xs
      else rows_spent max_rows xs)"
| "rows_spent max_rows (x # xs) = rows_spent max_rows xs"

text \<open>What the history holds for one hour, counted over again.\<close>

fun tally :: "nat \<Rightarrow> nat \<Rightarrow> counter_call list \<Rightarrow> stat_accum" where
  "tally max_rows h [] = empty_stat"
| "tally max_rows h (AdmitCall ev # xs) =
     (if hour_bucket_of (ce_at ev) = h
      then (if admits max_rows ev (counter_run max_rows xs) then count_event ev else count_over) (tally max_rows h xs)
      else tally max_rows h xs)"
| "tally max_rows h (x # xs) = tally max_rows h xs"

subsection \<open>The budget\<close>

text \<open>What the budget's state says of the rows spent: it counts those of its own hour, and none of a later one.\<close>

definition budget_counts :: "nat \<Rightarrow> (nat \<times> string) list \<Rightarrow> audit_counters \<Rightarrow> bool" where
  "budget_counts max_rows rows c \<longleftrightarrow>
     (\<forall>(h, p) \<in> set rows. h \<le> co_budget_hour c) \<and>
     co_rows c = length (filter (\<lambda>r. fst r = co_budget_hour c) rows) \<and>
     (\<forall>p. rows_used p c = count_list rows (co_budget_hour c, p)) \<and>
     (\<forall>h. length (filter (\<lambda>r. fst r = h) rows) \<le> max_rows) \<and>
     (\<forall>h p. count_list rows (h, p) \<le> principal_share max_rows)"

lemma rows_used_simps [simp]:
  "rows_used p (c\<lparr>co_over_budget := n\<rparr>) = rows_used p c" "rows_used p (c\<lparr>co_stats := m\<rparr>) = rows_used p c"
  "rows_used p (c\<lparr>co_per_principal := map_put q k (co_per_principal c), co_rows := n\<rparr>) = (if p = q then k else rows_used p c)"
  "rows_used p (c\<lparr>co_unconfirmed := n\<rparr>) = rows_used p c"
  by (simp_all add: rows_used_def)

lemma add_to_stat_budget [simp]:
  "co_budget_hour (add_to_stat h f c) = co_budget_hour c" "co_rows (add_to_stat h f c) = co_rows c"
  "rows_used p (add_to_stat h f c) = rows_used p c"
proof -
  have ev: "co_budget_hour (fold (\<lambda>h c. c\<lparr>co_stats := map_del h (co_stats c), co_evicted_through := max (co_evicted_through c) h\<rparr>) ds c) = co_budget_hour c \<and>
    co_rows (fold (\<lambda>h c. c\<lparr>co_stats := map_del h (co_stats c), co_evicted_through := max (co_evicted_through c) h\<rparr>) ds c) = co_rows c \<and>
    co_per_principal (fold (\<lambda>h c. c\<lparr>co_stats := map_del h (co_stats c), co_evicted_through := max (co_evicted_through c) h\<rparr>) ds c) = co_per_principal c"
    for ds and c :: audit_counters
    by (induction ds arbitrary: c) simp_all
  show "co_budget_hour (add_to_stat h f c) = co_budget_hour c" "co_rows (add_to_stat h f c) = co_rows c"
    "rows_used p (add_to_stat h f c) = rows_used p c"
    using ev by (simp_all add: add_to_stat_def open_hour_def evict_stats_def Let_def rows_used_def split: option.split)
qed

lemma roll_budget:
  assumes "budget_counts max_rows rows c"
  shows "budget_counts max_rows rows (roll_to h c)"
proof (cases "h \<le> co_budget_hour c")
  case False
  have none: "r \<in> set rows \<Longrightarrow> fst r < h" for r using assms False unfolding budget_counts_def by fastforce
  then have "filter (\<lambda>r. fst r = h) rows = []" "count_list rows (h, p) = 0" for p
    by (force simp: filter_empty_conv count_list_0_iff)+
  moreover have "\<forall>(h', p) \<in> set rows. h' \<le> h" using none by fastforce
  ultimately show ?thesis using assms False unfolding budget_counts_def roll_to_def rows_used_def by simp
qed (use assms in \<open>simp add: roll_to_def\<close>)

lemma reserve_budget:
  assumes "budget_counts max_rows rows c" and "reserve_row max_rows at who c = (ok, c')"
  shows "budget_counts max_rows (if ok then (co_budget_hour c', who) # rows else rows) c'"
    and "co_budget_hour c' = max (co_budget_hour c) (hour_bucket_of at)"
proof -
  define d where "d = roll_to (hour_bucket_of at) c"
  have d: "budget_counts max_rows rows d" unfolding d_def by (rule roll_budget) (rule assms(1))
  have hour: "co_budget_hour d = max (co_budget_hour c) (hour_bucket_of at)" by (simp add: d_def roll_to_def)
  show "budget_counts max_rows (if ok then (co_budget_hour c', who) # rows else rows) c'"
    and "co_budget_hour c' = max (co_budget_hour c) (hour_bucket_of at)"
    using assms(2) d hour unfolding reserve_row_def Let_def d_def [symmetric] budget_counts_def
    by (auto split: if_splits option.splits)
qed

lemma admit_budget:
  assumes "budget_counts max_rows rows c"
  shows "budget_counts max_rows (if admits max_rows ev c then (max (co_budget_hour c) (hour_bucket_of (ce_at ev)), ce_principal ev) # rows else rows)
    (snd (admit_event max_rows ev c))"
proof -
  obtain ok c' where r: "reserve_row max_rows (ce_at ev) (ce_principal ev) c = (ok, c')" by force
  have keep: "budget_counts max_rows rs (add_to_stat h f e) = budget_counts max_rows rs e" for rs h f e
    by (simp add: budget_counts_def)
  show ?thesis using reserve_budget [OF assms r] by (cases ok) (simp_all add: admits_def admit_event_def r keep)
qed

lemma run_budget: "budget_counts max_rows (rows_spent max_rows xs) (counter_run max_rows xs)"
proof (induction xs)
  case Nil
  show ?case by (simp add: budget_counts_def new_counters_def rows_used_def)
next
  case (Cons x xs)
  show ?case
  proof (cases x)
    case (AdmitCall ev)
    then show ?thesis using admit_budget [OF Cons.IH, of ev] by (simp add: Let_def)
  next
    case (HealthCall now)
    have "snd (over_budget_at now (snd (rows_at now c))) = roll_to (hour_bucket_of now) (roll_to (hour_bucket_of now) c)" for c
      by (simp add: over_budget_at_def rows_at_def Let_def)
    then show ?thesis using HealthCall roll_budget [OF roll_budget [OF Cons.IH]] by simp
  next
    case (UncertainCall n)
    then show ?thesis using Cons.IH by (simp add: budget_counts_def count_write_uncertain_def)
  qed
qed

text \<open>The hourly write budget holds.  However sign-ins arrive, at whatever moments, the rows let into the audit table
  in one budget window are never more than the configured ones, those of one principal never more than a
  tenth of them (and never more than 20 where that is less), and a window once left is never charged again.\<close>

theorem audit_budget_holds:
  "length (filter (\<lambda>r. fst r = h) (rows_spent max_rows xs)) \<le> max_rows \<and>
   count_list (rows_spent max_rows xs) (h, who) \<le> principal_share max_rows \<and>
   (\<forall>r \<in> set (rows_spent max_rows xs). fst r \<le> co_budget_hour (counter_run max_rows xs))"
  using run_budget [of max_rows xs] unfolding budget_counts_def by fastforce

subsection \<open>The statistics\<close>

definition figures_are :: "(nat \<Rightarrow> stat_accum) \<Rightarrow> audit_counters \<Rightarrow> bool" where
  "figures_are t c \<longleftrightarrow>
     distinct (map fst (co_stats c)) \<and>
     (\<forall>h s. map_of (co_stats c) h = Some s \<longrightarrow> s = t h) \<and>
     (\<forall>h. map_of (co_stats c) h = None \<longrightarrow> co_evicted_through c < h \<longrightarrow> t h = empty_stat)"

definition drop_hours :: "nat list \<Rightarrow> audit_counters \<Rightarrow> audit_counters" where
  "drop_hours ds c =
     fold (\<lambda>h c. c\<lparr>co_stats := map_del h (co_stats c), co_evicted_through := max (co_evicted_through c) h\<rparr>) ds c"

lemma drop_hours_facts:
  "(distinct (map fst (co_stats c)) \<longrightarrow> distinct (map fst (co_stats (drop_hours ds c)))) \<and>
   map_of (co_stats (drop_hours ds c)) h = (if h \<in> set ds then None else map_of (co_stats c) h) \<and>
   co_evicted_through c \<le> co_evicted_through (drop_hours ds c) \<and>
   (h \<in> set ds \<longrightarrow> h \<le> co_evicted_through (drop_hours ds c))"
proof (induction ds arbitrary: c)
  case (Cons d ds)
  let ?c = "c\<lparr>co_stats := map_del d (co_stats c), co_evicted_through := max (co_evicted_through c) d\<rparr>"
  have step: "drop_hours (d # ds) c = drop_hours ds ?c" by (simp add: drop_hours_def)
  show ?case using Cons.IH [of ?c] unfolding step by (auto intro: distinct_map_del)
qed (simp add: drop_hours_def)

lemma evict_stats_drop:
  "\<exists>ds. evict_stats incoming c = drop_hours ds c \<and> incoming \<notin> set ds"
  unfolding evict_stats_def Let_def drop_hours_def by fastforce

lemma open_hour_figures:
  assumes "figures_are t c"
  shows "figures_are t (open_hour hour c)"
    and "map_of (co_stats (open_hour hour c)) hour = None \<Longrightarrow> hour \<le> co_evicted_through (open_hour hour c)"
proof -
  have "figures_are t (open_hour hour c) \<and>
    (map_of (co_stats (open_hour hour c)) hour = None \<longrightarrow> hour \<le> co_evicted_through (open_hour hour c))"
  proof (cases "map_of (co_stats c) hour = None \<and> \<not> hour \<le> co_evicted_through c")
    case True
    obtain ds where ds: "evict_stats hour c = drop_hours ds c" using evict_stats_drop by blast
    have "t hour = empty_stat" using assms True unfolding figures_are_def by (auto dest: spec [of _ hour])
    moreover have "figures_are t (drop_hours ds c)"
      using assms drop_hours_facts [of c ds] unfolding figures_are_def by (metis le_less_trans not_less option.distinct(1))
    ultimately show ?thesis using True unfolding open_hour_def ds Let_def figures_are_def
      by (auto simp: distinct_map_put)
  qed (use assms in \<open>auto simp: open_hour_def\<close>)
  then show "figures_are t (open_hour hour c)"
    and "map_of (co_stats (open_hour hour c)) hour = None \<Longrightarrow> hour \<le> co_evicted_through (open_hour hour c)" by auto
qed

lemma add_to_stat_figures:
  assumes "figures_are t c"
  shows "figures_are (t(hour := f (t hour))) (add_to_stat hour f c)"
proof -
  define d where "d = open_hour hour c"
  have d: "figures_are t d" unfolding d_def by (rule open_hour_figures(1)) (rule assms)
  show ?thesis
  proof (cases "map_of (co_stats d) hour")
    case None
    then have "hour \<le> co_evicted_through d" using open_hour_figures(2) [OF assms] by (simp add: d_def)
    then have "hour \<le> co_evicted_through d" using open_hour_figures(2) [OF assms, of hour] by (simp add: d_def)
    moreover have "add_to_stat hour f c = d" unfolding add_to_stat_def Let_def d_def [symmetric] None by simp
    ultimately show ?thesis using d None unfolding figures_are_def by auto
  next
    case (Some s)
    then have "s = t hour" using d unfolding figures_are_def by (auto dest: spec [of _ hour])
    then show ?thesis using d Some unfolding add_to_stat_def Let_def d_def [symmetric] figures_are_def
      by (auto simp: distinct_map_put)
  qed
qed

lemma figures_frame: "co_stats c = co_stats d \<Longrightarrow> co_evicted_through c = co_evicted_through d \<Longrightarrow> figures_are t c = figures_are t d"
  by (simp add: figures_are_def)

lemma roll_to_figures: "figures_are t (roll_to h c) = figures_are t c"
  by (rule figures_frame) (simp_all add: roll_to_def)

lemma admit_figures:
  assumes "figures_are t c"
  shows "figures_are (t(hour_bucket_of (ce_at ev) :=
      (if admits max_rows ev c then count_event ev else count_over) (t (hour_bucket_of (ce_at ev))))) (snd (admit_event max_rows ev c))"
proof -
  obtain ok c' where r: "reserve_row max_rows (ce_at ev) (ce_principal ev) c = (ok, c')" by force
  define d where "d = roll_to (hour_bucket_of (ce_at ev)) c"
  have d: "figures_are t d" unfolding d_def roll_to_figures by (rule assms)
  have over: "figures_are t (d\<lparr>co_over_budget := n\<rparr>)" for n using d by (simp add: figures_are_def)
  show ?thesis
  proof (cases ok)
    case True
    then have "figures_are t c'" using r d unfolding reserve_row_def Let_def d_def [symmetric]
      by (auto simp: figures_are_def split: if_splits)
    then show ?thesis using True by (simp add: admits_def admit_event_def r add_to_stat_figures)
  next
    case False
    then have "c' = add_to_stat (hour_bucket_of (ce_at ev)) count_over (d\<lparr>co_over_budget := co_over_budget d + 1\<rparr>)"
      using r unfolding reserve_row_def Let_def d_def [symmetric] by (auto split: if_splits)
    then show ?thesis using False by (simp add: admits_def admit_event_def r add_to_stat_figures [OF over])
  qed
qed

lemma run_figures: "figures_are (\<lambda>h. tally max_rows h xs) (counter_run max_rows xs)"
proof (induction xs)
  case Nil
  show ?case by (simp add: figures_are_def new_counters_def)
next
  case (Cons x xs)
  show ?case
  proof (cases x)
    case (AdmitCall ev)
    have "(\<lambda>h. tally max_rows h (x # xs)) = (\<lambda>h. tally max_rows h xs)(hour_bucket_of (ce_at ev) :=
        (if admits max_rows ev (counter_run max_rows xs) then count_event ev else count_over)
          (tally max_rows (hour_bucket_of (ce_at ev)) xs))"
      by (auto simp: AdmitCall)
    then show ?thesis using admit_figures [OF Cons.IH, of ev max_rows] by (simp add: AdmitCall)
  next
    case (HealthCall now)
    then show ?thesis using Cons.IH by (simp add: over_budget_at_def rows_at_def Let_def roll_to_figures)
  next
    case (UncertainCall n)
    then show ?thesis using Cons.IH by (simp add: count_write_uncertain_def figures_are_def)
  qed
qed

definition figure_le :: "stat_accum \<Rightarrow> stat_accum \<Rightarrow> bool" where
  "figure_le a b \<longleftrightarrow>
     lc_local (ac_login a) \<le> lc_local (ac_login b) \<and> lc_ldap (ac_login a) \<le> lc_ldap (ac_login b) \<and>
     lc_oidc (ac_login a) \<le> lc_oidc (ac_login b) \<and> lc_oauth (ac_login a) \<le> lc_oauth (ac_login b) \<and>
     ac_rejected a \<le> ac_rejected b \<and> ac_over_budget a \<le> ac_over_budget b"

lemma figure_le_refl [simp]: "figure_le a a" by (simp add: figure_le_def)

lemma figure_le_trans: "figure_le a b \<Longrightarrow> figure_le b c \<Longrightarrow> figure_le a c" by (auto simp: figure_le_def)

lemma figure_le_count: "figure_le s (count_event ev s)" "figure_le s (count_over s)"
  by (auto simp: figure_le_def count_event_def count_over_def count_login_def split: auth_source.split)

lemma tally_grows: "figure_le (tally max_rows h xs) (tally max_rows h (ys @ xs))"
proof (induction ys)
  case (Cons y ys)
  have "figure_le (tally max_rows h (ys @ xs)) (tally max_rows h (y # ys @ xs))"
    by (cases y) (auto simp: figure_le_count)
  then show ?case using Cons figure_le_trans by auto
qed simp

lemma take_stats_tally:
  "r \<in> set (take_stats node (counter_run max_rows xs)) \<Longrightarrow> at_node r = node \<and> at_figure r = tally max_rows (at_hour r) xs"
proof -
  assume "r \<in> set (take_stats node (counter_run max_rows xs))"
  then obtain h s where hs: "(h, s) \<in> set (co_stats (counter_run max_rows xs))" and r: "r = \<lparr>at_hour = h, at_node = node, at_figure = s\<rparr>"
    by (auto simp: take_stats_def)
  have fig: "figures_are (\<lambda>h. tally max_rows h xs) (counter_run max_rows xs)" by (rule run_figures)
  then have "map_of (co_stats (counter_run max_rows xs)) h = Some s" using hs by (simp add: figures_are_def)
  then have "s = tally max_rows h xs" using fig unfolding figures_are_def by (auto dest: spec [of _ h])
  then show ?thesis by (simp add: r)
qed

text \<open>A statistic is never replaced by a smaller one.  Each row a flush hands the store is what the whole history
  holds for its hour, however late its sign-ins came and whatever was evicted in between, so that a figure
  handed over later is at least the one it replaces, column by column.\<close>

theorem figures_never_fall:
  assumes "r \<in> set (take_stats node (counter_run max_rows xs))"
    and "r' \<in> set (take_stats node (counter_run max_rows (ys @ xs)))" and "at_hour r' = at_hour r"
  shows "at_figure r = tally max_rows (at_hour r) xs \<and> figure_le (at_figure r) (at_figure r')"
  using take_stats_tally [OF assms(1)] take_stats_tally [OF assms(2)] tally_grows [of max_rows "at_hour r" xs ys] assms(3) by simp

definition sample_event :: "nat \<Rightarrow> string \<Rightarrow> counted_event" where
  "sample_event at who = \<lparr>ce_kind = FromLocal, ce_granted = True, ce_at = at, ce_protocol = None, ce_principal = who\<rparr>"

definition sample_calls :: "counter_call list" where
  "sample_calls = [AdmitCall (sample_event 0 ''alice'')]"

lemma admits_first: "0 < m \<Longrightarrow> admits m ev new_counters"
  by (simp add: admits_def admit_event_def reserve_row_def Let_def roll_to_def new_counters_def rows_used_def principal_share_def)

theorem audit_budget_holds_witness:
  "(1970010100, ''alice'') \<in> set (rows_spent 5 sample_calls) \<and> 1970010100 \<le> co_budget_hour (counter_run 5 sample_calls)"
proof -
  have "(1970010100, ''alice'') \<in> set (rows_spent 5 sample_calls)"
    by (simp add: sample_calls_def Let_def admits_first) (simp add: new_counters_def sample_event_def first_hours)
  then show ?thesis using audit_budget_holds [of 1970010100 5 sample_calls] by force
qed

lemma admit_first:
  assumes "hour_bucket_of (ce_at ev) = h" "0 < h" "0 < m"
  shows "snd (admit_event m ev new_counters) =
    new_counters\<lparr>co_stats := [(h, count_event ev empty_stat)], co_budget_hour := h, co_rows := 1, co_per_principal := [(ce_principal ev, 1)]\<rparr>"
proof -
  have roll: "roll_to h new_counters = new_counters\<lparr>co_budget_hour := h\<rparr>" using assms(2) by (simp add: roll_to_def new_counters_def)
  have share: "\<not> principal_share m \<le> 0" by (simp add: principal_share_def)
  have row: "reserve_row m (ce_at ev) (ce_principal ev) new_counters =
      (True, new_counters\<lparr>co_budget_hour := h, co_per_principal := [(ce_principal ev, 1)], co_rows := 1\<rparr>)"
    using assms(3) share unfolding reserve_row_def Let_def assms(1) roll by (simp add: rows_used_def new_counters_def)
  show ?thesis unfolding admit_event_def row using assms(1,2)
    by (simp add: add_to_stat_def open_hour_def evict_stats_def max_hour_buckets_def Let_def new_counters_def)
qed

lemma admit_again:
  assumes "hour_bucket_of (ce_at ev) = h" "co_stats c = [(h, s)]" "co_budget_hour c = h" "rows_used (ce_principal ev) c = 1" "co_rows c = 1" "1 < m"
  shows "co_stats (snd (admit_event m ev c)) = [(h, count_event ev s)]"
proof -
  have share: "\<not> principal_share m \<le> Suc 0" by (simp add: principal_share_def)
  have row: "reserve_row m (ce_at ev) (ce_principal ev) c = (True, c\<lparr>co_per_principal := map_put (ce_principal ev) 2 (co_per_principal c), co_rows := 2\<rparr>)"
    using assms share by (simp add: reserve_row_def Let_def roll_to_def numeral_2_eq_2)
  show ?thesis unfolding admit_event_def row using assms(1,2) by (simp add: add_to_stat_def open_hour_def Let_def)
qed

lemma sample_counted:
  "co_stats (counter_run 5 sample_calls) = [(1970010100, count_event (sample_event 0 ''alice'') empty_stat)]"
  "co_stats (counter_run 5 (sample_calls @ sample_calls)) =
     [(1970010100, count_event (sample_event 0 ''alice'') (count_event (sample_event 0 ''alice'') empty_stat))]"
proof -
  let ?ev = "sample_event 0 ''alice''"
  have at: "hour_bucket_of (ce_at ?ev) = 1970010100" by (simp add: sample_event_def first_hours(1))
  note one = admit_first [OF at, of 5, simplified]
  show "co_stats (counter_run 5 sample_calls) = [(1970010100, count_event ?ev empty_stat)]"
    by (simp add: sample_calls_def one)
  show "co_stats (counter_run 5 (sample_calls @ sample_calls)) = [(1970010100, count_event ?ev (count_event ?ev empty_stat))]"
    using admit_again [OF at, of "snd (admit_event 5 ?ev new_counters)" "count_event ?ev empty_stat" 5]
    by (simp add: sample_calls_def one rows_used_def)
qed

theorem figures_never_fall_witness:
  "\<exists>r r' :: audit_stat. r \<in> set (take_stats ''n'' (counter_run 5 sample_calls)) \<and>
     r' \<in> set (take_stats ''n'' (counter_run 5 (sample_calls @ sample_calls))) \<and> figure_le (at_figure r) (at_figure r')"
proof -
  let ?e = "count_event (sample_event 0 ''alice'')"
  let ?r = "\<lambda>s. \<lparr>at_hour = 1970010100, at_node = ''n'', at_figure = s\<rparr>"
  have full: "\<not> is_empty_stat (?e s)" for s by (simp add: is_empty_stat_def count_event_def sample_event_def count_login_def)
  have one: "?r (?e empty_stat) \<in> set (take_stats ''n'' (counter_run 5 sample_calls))"
    by (simp add: take_stats_def sample_counted full)
  have two: "?r (?e (?e empty_stat)) \<in> set (take_stats ''n'' (counter_run 5 (sample_calls @ sample_calls)))"
    by (simp add: take_stats_def sample_counted full)
  from figures_never_fall [OF one two, unfolded audit_stat.select_convs(1), OF refl] have "figure_le (at_figure (?r (?e empty_stat))) (at_figure (?r (?e (?e empty_stat))))" by blast
  with one two show ?thesis by blast
qed

text \<open>The hours held are few: three, and one more where the newest to come was an old one.\<close>

lemma length_evicted:
  assumes "distinct (map fst (co_stats c))" "incoming \<notin> fst ` set (co_stats c)"
  shows "length (co_stats (evict_stats incoming c)) \<le> max_hour_buckets"
proof -
  define hours where "hours = sort (map fst (co_stats c) @ [incoming])"
  define ds where "ds = filter (\<lambda>h. h \<noteq> incoming) (take (length hours - max_hour_buckets) hours)"
  have ev: "evict_stats incoming c = drop_hours ds c" by (simp add: evict_stats_def drop_hours_def ds_def hours_def Let_def)
  have dist: "distinct hours" "length hours = Suc (length (co_stats c))" "set hours = insert incoming (fst ` set (co_stats c))"
    using assms by (simp_all add: hours_def)
  have ds: "distinct ds" "set ds \<subseteq> fst ` set (co_stats c)"
    using dist(1,3) by (auto simp: ds_def dest: in_set_takeD)
  have "length (filter (\<lambda>h. h = incoming) xs) \<le> 1" if "distinct xs" for xs :: "nat list"
    using that by (induction xs) (auto simp: filter_empty_conv)
  from this [of "take (length hours - max_hour_buckets) hours"] dist(1)
  have "length (filter (\<lambda>h. h = incoming) (take (length hours - max_hour_buckets) hours)) \<le> 1" by (simp add: distinct_take)
  then have many: "length hours - max_hour_buckets \<le> Suc (length ds)"
    using sum_length_filter_compl [of "\<lambda>h. h = incoming" "take (length hours - max_hour_buckets) hours"] by (simp add: ds_def)
  have d: "distinct (map fst (co_stats (drop_hours ds c)))" using drop_hours_facts assms(1) by blast
  have "dom (map_of (co_stats (drop_hours ds c))) = dom (map_of (co_stats c)) - set ds"
    using drop_hours_facts [of c ds] by (auto simp: dom_def split: if_splits)
  then have "fst ` set (co_stats (drop_hours ds c)) = fst ` set (co_stats c) - set ds" by (simp add: dom_map_of_conv_image_fst)
  moreover have "card (fst ` set (co_stats c)) = length (co_stats c)" "card (fst ` set (co_stats (drop_hours ds c))) = length (co_stats (drop_hours ds c))"
    "card (set ds) = length ds"
    using distinct_card [OF assms(1)] distinct_card [OF d] distinct_card [OF ds(1)] by simp_all
  ultimately have "length (co_stats (drop_hours ds c)) = length (co_stats c) - length ds"
    using card_Diff_subset [OF _ ds(2)] by simp
  then show ?thesis using many dist(2) unfolding ev by simp
qed

lemma length_put_held: "k \<in> fst ` set m \<Longrightarrow> length (map_put k v m) = length m" "length (map_put k v m) \<le> Suc (length m)"
  by (induction k v m rule: map_put.induct) auto

lemma add_to_stat_held:
  assumes "figures_are t c" "length (co_stats c) \<le> Suc max_hour_buckets"
  shows "length (co_stats (add_to_stat h f c)) \<le> Suc max_hour_buckets"
proof -
  have open_: "length (co_stats (open_hour h c)) \<le> Suc max_hour_buckets"
  proof (cases "map_of (co_stats c) h = None \<and> \<not> h \<le> co_evicted_through c")
    case True
    then have "length (co_stats (evict_stats h c)) \<le> max_hour_buckets"
      using length_evicted [of c h] assms(1) by (simp add: figures_are_def map_of_eq_None_iff)
    then show ?thesis using True length_put_held(2) [of h empty_stat "co_stats (evict_stats h c)"] by (simp add: open_hour_def Let_def)
  qed (use assms(2) in \<open>auto simp: open_hour_def\<close>)
  then show ?thesis
    by (auto simp: add_to_stat_def Let_def length_put_held(1) map_of_eq_None_iff split: option.split dest!: map_of_SomeD)
      (metis fst_conv image_eqI length_put_held(1))
qed

lemma hours_held_bounded: "length (co_stats (counter_run max_rows xs)) \<le> Suc max_hour_buckets"
proof (induction xs)
  case Nil
  show ?case by (simp add: new_counters_def)
next
  case (Cons x xs)
  define c where "c = counter_run max_rows xs"
  have c: "figures_are (\<lambda>h. tally max_rows h xs) c" unfolding c_def by (rule run_figures)
  have frame: "figures_are t (d\<lparr>co_over_budget := n\<rparr>) = figures_are t d" "figures_are t (d\<lparr>co_per_principal := m, co_rows := k\<rparr>) = figures_are t d"
    for t d n m k by (simp_all add: figures_are_def)
  have roll: "co_stats (roll_to h d) = co_stats d" for h d by (simp add: roll_to_def)
  show ?case
  proof (cases x)
    case (AdmitCall ev)
    then show ?thesis using Cons.IH
      by (auto simp: admit_event_def reserve_row_def Let_def c_def [symmetric] roll frame roll_to_figures
          intro!: add_to_stat_held [of "\<lambda>h. tally max_rows h xs"] c split: bool.split)
  qed (use Cons.IH in \<open>simp_all add: over_budget_at_def rows_at_def Let_def roll count_write_uncertain_def\<close>)
qed

end
