(* ===== verification/TokenUsage.thy ===== *)
theory TokenUsage
  imports HourBuckets Authenticate "HOL-Library.Multiset"
begin

text \<open>
  The statistic of API token uses: the counting in memory of \<open>apps/bff/src/store/audit/token-counters.ts\<close>,
  the summary of a window of hours of \<open>token-usage.ts\<close>, and the flushing and reading of
  \<open>service.ts\<close> that tie them to a store.  A cell is keyed by its hour and its token, which the text the code
  makes of the two determines.  What a comparison by locale says of two token ids is an argument.
\<close>

subsection \<open>Counting\<close>

definition max_token_hours :: nat where "max_token_hours = 3"

record token_cell =
  tc_hour :: nat
  tc_token :: string
  tc_username :: string
  tc_pending :: nat
  tc_stored :: nat

record token_usage =
  tk_hour :: nat
  tk_token :: string
  tk_username :: string
  tk_count :: nat

record usage_entry =
  en_hour :: nat
  en_at :: nat
  en_token :: string
  en_username :: string
  en_count :: nat
  en_node :: string

type_synonym token_cells = "(nat \<times> string, token_cell) jsmap"

definition doomed_hours :: "nat \<Rightarrow> token_cells \<Rightarrow> nat list" where
  "doomed_hours incoming cells =
     (let hours = sort (remdups (map (\<lambda>e. tc_hour (snd e)) cells @ [incoming])) in
      filter (\<lambda>h. h \<noteq> incoming) (take (length hours - max_token_hours) hours))"

definition evict_cells :: "nat \<Rightarrow> token_cells \<Rightarrow> token_cells" where
  "evict_cells incoming cells = filter (\<lambda>e. tc_hour (snd e) \<notin> set (doomed_hours incoming cells)) cells"

definition count_use :: "token_use \<Rightarrow> token_cells \<Rightarrow> token_cells" where
  "count_use u cells =
     (let hour = hour_bucket_of (us_at u); key = (hour, us_token_id u) in
      case map_of cells key of
        Some c \<Rightarrow> map_put key (c\<lparr>tc_pending := tc_pending c + 1\<rparr>) cells
      | None \<Rightarrow>
          map_put key \<lparr>tc_hour = hour, tc_token = us_token_id u, tc_username = us_username u, tc_pending = 1, tc_stored = 0\<rparr>
            (evict_cells hour cells))"

definition unwritten :: "token_cells \<Rightarrow> nat" where
  "unwritten cells = sum_list (map (\<lambda>e. tc_pending (snd e)) cells)"

definition cell_entry :: "string \<Rightarrow> token_cell \<Rightarrow> usage_entry" where
  "cell_entry node c =
     \<lparr>en_hour = tc_hour c, en_at = hour_bucket_start (tc_hour c), en_token = tc_token c, en_username = tc_username c,
      en_count = tc_stored c + tc_pending c, en_node = node\<rparr>"

definition running_totals :: "string \<Rightarrow> token_cells \<Rightarrow> usage_entry list" where
  "running_totals node cells = map (\<lambda>e. cell_entry node (snd e)) cells"

definition pending_entries :: "string \<Rightarrow> token_cells \<Rightarrow> usage_entry list" where
  "pending_entries node cells =
     map (\<lambda>e. (cell_entry node (snd e))\<lparr>en_count := tc_pending (snd e)\<rparr>) (filter (\<lambda>e. tc_pending (snd e) \<noteq> 0) cells)"

definition pending_usage :: "token_cells \<Rightarrow> token_usage list" where
  "pending_usage cells =
     map (\<lambda>e. \<lparr>tk_hour = tc_hour (snd e), tk_token = tc_token (snd e), tk_username = tc_username (snd e),
                tk_count = tc_stored (snd e) + tc_pending (snd e)\<rparr>)
       (filter (\<lambda>e. tc_pending (snd e) \<noteq> 0) cells)"

definition settle_cell :: "nat \<Rightarrow> token_cell \<Rightarrow> token_cell" where
  "settle_cell n c =
     (let just_written = int n - int (tc_stored c) in
      c\<lparr>tc_stored := n, tc_pending := nat (max 0 (int (tc_pending c) - just_written))\<rparr>)"

definition mark_written :: "token_usage list \<Rightarrow> token_cells \<Rightarrow> token_cells" where
  "mark_written rows cells =
     fold (\<lambda>r cells. case map_of cells (tk_hour r, tk_token r) of
                       None \<Rightarrow> cells
                     | Some c \<Rightarrow> map_put (tk_hour r, tk_token r) (settle_cell (tk_count r) c) cells) rows cells"

subsection \<open>A window of hours\<close>

definition max_token_usage_hours :: nat where "max_token_usage_hours = 12"

definition top_tokens_per_hour :: nat where "top_tokens_per_hour = 10"

definition window_buckets :: "nat \<Rightarrow> nat \<Rightarrow> nat list" where
  "window_buckets since until =
     (let newest = hour_bucket_start (hour_bucket_of (until - 1));
          oldest = hour_bucket_start (hour_bucket_of since);
          touched = max 1 ((newest - oldest) div 3600000 + 1);
          count = min touched max_token_usage_hours in
      map (\<lambda>i. hour_bucket_of (newest - i * 3600000)) [0..<count])"

record credential_usage =
  cu_hour :: nat
  cu_at :: nat
  cu_token :: string
  cu_username :: string
  cu_count :: nat

record usage_hour =
  uh_hour :: nat
  uh_at :: nat
  uh_total :: nat
  uh_credentials :: nat
  uh_top :: "credential_usage list"

record usage_result =
  ur_hours :: "usage_hour list"
  ur_from :: nat
  ur_until :: nat

type_synonym hour_map = "(string, credential_usage) jsmap"

definition merge_row :: "usage_entry \<Rightarrow> hour_map \<Rightarrow> hour_map" where
  "merge_row r hour =
     (case map_of hour (en_token r) of
        Some c \<Rightarrow> map_put (en_token r) (c\<lparr>cu_count := cu_count c + en_count r\<rparr>) hour
      | None \<Rightarrow>
          map_put (en_token r)
            \<lparr>cu_hour = en_hour r, cu_at = hour_bucket_start (en_hour r), cu_token = en_token r,
             cu_username = en_username r, cu_count = en_count r\<rparr> hour)"

definition hour_of_map :: "nat \<Rightarrow> (nat, hour_map) jsmap \<Rightarrow> hour_map" where
  "hour_of_map h m = (case map_of m h of Some hour \<Rightarrow> hour | None \<Rightarrow> [])"

definition group_rows :: "usage_entry list \<Rightarrow> (nat, hour_map) jsmap" where
  "group_rows rows = fold (\<lambda>r m. map_put (en_hour r) (merge_row r (hour_of_map (en_hour r) m)) m) rows []"

text \<open>The order of the list: the busier first, and among equals as the ids compare.\<close>

definition ranks_before :: "(string \<Rightarrow> string \<Rightarrow> bool) \<Rightarrow> credential_usage \<Rightarrow> credential_usage \<Rightarrow> bool" where
  "ranks_before before a b \<longleftrightarrow> cu_count b < cu_count a \<or> cu_count a = cu_count b \<and> before (cu_token a) (cu_token b)"

fun rank_in :: "(string \<Rightarrow> string \<Rightarrow> bool) \<Rightarrow> credential_usage \<Rightarrow> credential_usage list \<Rightarrow> credential_usage list" where
  "rank_in before c [] = [c]"
| "rank_in before c (d # ds) = (if ranks_before before d c then d # rank_in before c ds else c # d # ds)"

definition ranked :: "(string \<Rightarrow> string \<Rightarrow> bool) \<Rightarrow> credential_usage list \<Rightarrow> credential_usage list" where
  "ranked before cs = foldr (rank_in before) cs []"

definition summarize_hour :: "(string \<Rightarrow> string \<Rightarrow> bool) \<Rightarrow> (nat, hour_map) jsmap \<Rightarrow> nat \<Rightarrow> usage_hour" where
  "summarize_hour before by_hour h =
     (let credentials = ranked before (map snd (hour_of_map h by_hour)) in
      \<lparr>uh_hour = h, uh_at = hour_bucket_start h, uh_total = sum_list (map cu_count credentials),
       uh_credentials = length credentials, uh_top = take top_tokens_per_hour credentials\<rparr>)"

definition summarize_window :: "(string \<Rightarrow> string \<Rightarrow> bool) \<Rightarrow> usage_entry list \<Rightarrow> nat \<Rightarrow> nat \<Rightarrow> usage_result" where
  "summarize_window before rows since until =
     (let by_hour = group_rows rows; hours = map (summarize_hour before by_hour) (window_buckets since until) in
      \<lparr>ur_hours = hours,
       ur_from = (if hours = [] then since else uh_at (last hours)),
       ur_until = (if hours = [] then until else uh_at (hd hours) + 3600000)\<rparr>)"

subsection \<open>Flushing and reading\<close>

text \<open>The counters of one process, the rows a write under way has submitted, and what its write paths have left
  in the store.  Of two calls to flush the second joins the first.\<close>

record token_service =
  ts_cells :: token_cells
  ts_flight :: "token_usage list option"
  ts_store :: "(nat \<times> string, token_usage) jsmap"

definition new_token_service :: token_service where
  "new_token_service = \<lparr>ts_cells = [], ts_flight = None, ts_store = []\<rparr>"

definition write_usage :: "token_usage list \<Rightarrow> (nat \<times> string, token_usage) jsmap \<Rightarrow> (nat \<times> string, token_usage) jsmap" where
  "write_usage rows store = fold (\<lambda>r s. map_put (tk_hour r, tk_token r) r s) rows store"

text \<open>A write begins, its rows land in the store, and the call ends with an acknowledgement or without one; a write
  that is not acknowledged may have landed all the same.\<close>

datatype token_call = UseCall token_use | FlushBegin | FlushLands | FlushEnds bool

fun token_step :: "token_call \<Rightarrow> token_service \<Rightarrow> token_service" where
  "token_step (UseCall u) s = s\<lparr>ts_cells := count_use u (ts_cells s)\<rparr>"
| "token_step FlushBegin s =
     (if ts_flight s \<noteq> None then s
      else (let rows = pending_usage (ts_cells s) in if rows = [] then s else s\<lparr>ts_flight := Some rows\<rparr>))"
| "token_step FlushLands s =
     (case ts_flight s of None \<Rightarrow> s | Some rows \<Rightarrow> s\<lparr>ts_store := write_usage rows (ts_store s)\<rparr>)"
| "token_step (FlushEnds acknowledged) s =
     (case ts_flight s of
        None \<Rightarrow> s
      | Some rows \<Rightarrow>
          if acknowledged
          then s\<lparr>ts_flight := None, ts_store := write_usage rows (ts_store s), ts_cells := mark_written rows (ts_cells s)\<rparr>
          else s\<lparr>ts_flight := None\<rparr>)"

primrec token_run :: "token_call list \<Rightarrow> token_service" where
  "token_run [] = new_token_service"
| "token_run (x # xs) = token_step x (token_run xs)"

text \<open>The rows of this node as a reader gets them, and what \<open>queryTokenUsage\<close> answers: the rows the store
  gave, before this node's own for the hours and tokens still held, and those instead.\<close>

definition stored_entries :: "string \<Rightarrow> (nat \<times> string, token_usage) jsmap \<Rightarrow> usage_entry list" where
  "stored_entries node store =
     map (\<lambda>e. let r = snd e in
        \<lparr>en_hour = tk_hour r, en_at = hour_bucket_start (tk_hour r), en_token = tk_token r, en_username = tk_username r,
         en_count = tk_count r, en_node = node\<rparr>) store"

definition query_token_usage ::
  "(string \<Rightarrow> string \<Rightarrow> bool) \<Rightarrow> string \<Rightarrow> usage_entry list \<Rightarrow> token_cells \<Rightarrow> nat \<Rightarrow> nat \<Rightarrow> usage_result" where
  "query_token_usage before node stored cells since until =
     (let mine = running_totals node cells;
          held = map (\<lambda>r. (en_hour r, en_token r)) mine;
          theirs = filter (\<lambda>r. \<not> (en_node r = node \<and> (en_hour r, en_token r) \<in> set held)) stored in
      summarize_window before (theirs @ mine) since until)"

text \<open>The uses of a history, the latest first, and how many of them one hour and one token have.\<close>

fun uses_of :: "token_call list \<Rightarrow> (nat \<times> string) list" where
  "uses_of [] = []"
| "uses_of (UseCall u # xs) = (hour_bucket_of (us_at u), us_token_id u) # uses_of xs"
| "uses_of (x # xs) = uses_of xs"

definition in_order :: "token_call list \<Rightarrow> bool" where
  "in_order xs \<longleftrightarrow> sorted (rev (map fst (uses_of xs)))"

subsection \<open>The summary\<close>

lemma sum_map_put:
  "map_of m k = Some c \<Longrightarrow> sum_list (map (\<lambda>e. f (snd e)) (map_put k v m)) + f c = sum_list (map (\<lambda>e. f (snd e)) m) + (f v :: nat)"
  "map_of m k = None \<Longrightarrow> sum_list (map (\<lambda>e. f (snd e)) (map_put k v m)) = sum_list (map (\<lambda>e. f (snd e)) m) + f v"
  by (induction k v m rule: map_put.induct) (auto split: if_splits)

lemma rank_in_mset: "mset (rank_in before c ds) = add_mset c (mset ds)"
  by (induction ds) auto

lemma ranked_mset: "mset (ranked before cs) = mset cs"
  by (induction cs) (simp_all add: ranked_def rank_in_mset)

lemma rank_in_sorted:
  "sorted_wrt (\<lambda>a b. cu_count b \<le> cu_count a) ds \<Longrightarrow> sorted_wrt (\<lambda>a b. cu_count b \<le> cu_count a) (rank_in before c ds)"
proof (induction ds)
  case (Cons d ds)
  have set: "set (rank_in before c ds) = insert c (set ds)" using rank_in_mset [of before c ds] by (metis set_mset_add_mset_insert set_mset_mset)
  show ?case using Cons by (auto simp: set ranks_before_def)
qed simp

lemma ranked_sorted: "sorted_wrt (\<lambda>a b. cu_count b \<le> cu_count a) (ranked before cs)"
  by (induction cs) (simp_all add: ranked_def rank_in_sorted)

definition hour_sum :: "hour_map \<Rightarrow> nat" where
  "hour_sum hour = sum_list (map (\<lambda>e. cu_count (snd e)) hour)"

definition rows_sum :: "nat \<Rightarrow> usage_entry list \<Rightarrow> nat" where
  "rows_sum h rows = sum_list (map en_count (filter (\<lambda>r. en_hour r = h) rows))"

lemma merge_row_sum: "hour_sum (merge_row r hour) = hour_sum hour + en_count r"
proof (cases "map_of hour (en_token r)")
  case None
  then show ?thesis using sum_map_put(2) [where f = cu_count, OF None] by (simp add: merge_row_def hour_sum_def)
next
  case (Some c)
  then show ?thesis using sum_map_put(1) [where f = cu_count, OF Some, of "c\<lparr>cu_count := cu_count c + en_count r\<rparr>"]
    by (simp add: merge_row_def hour_sum_def)
qed

lemma merge_row_keys:
  "fst ` set (merge_row r hour) = insert (en_token r) (fst ` set hour)"
  "distinct (map fst hour) \<Longrightarrow> distinct (map fst (merge_row r hour))"
  by (auto simp: merge_row_def keys_map_put distinct_map_put split: option.splits)

lemma hour_of_map_put: "hour_of_map h (map_put g v m) = (if h = g then v else hour_of_map h m)"
  by (simp add: hour_of_map_def)

lemma group_rows_snoc:
  "group_rows (rows @ [r]) = map_put (en_hour r) (merge_row r (hour_of_map (en_hour r) (group_rows rows))) (group_rows rows)"
  by (simp add: group_rows_def)

lemma group_rows_facts:
  "hour_sum (hour_of_map h (group_rows rows)) = rows_sum h rows"
  "fst ` set (hour_of_map h (group_rows rows)) = en_token ` {r \<in> set rows. en_hour r = h}"
  "distinct (map fst (hour_of_map h (group_rows rows)))"
proof (induction rows rule: rev_induct)
  case Nil
  { case 1 show ?case by (simp add: group_rows_def hour_of_map_def hour_sum_def rows_sum_def) next
    case 2 show ?case by (simp add: group_rows_def hour_of_map_def) next
    case 3 show ?case by (simp add: group_rows_def hour_of_map_def) }
next
  case (snoc r rows)
  { case 1 show ?case using snoc.IH(1) by (auto simp: group_rows_snoc hour_of_map_put merge_row_sum rows_sum_def) next
    case 2 show ?case using snoc.IH(2) by (auto simp: group_rows_snoc hour_of_map_put merge_row_keys(1)) next
    case 3 show ?case using snoc.IH(3) by (auto simp: group_rows_snoc hour_of_map_put merge_row_keys(2)) }
qed

lemma ranked_facts:
  "sum_list (map cu_count (ranked before (map snd hour))) = hour_sum hour" "length (ranked before cs) = length cs"
  "set (ranked before cs) = set cs"
proof -
  have "mset (map cu_count (ranked before (map snd hour))) = mset (map cu_count (map snd hour))" by (simp add: ranked_mset multiset.map_comp)
  then have "sum_list (map cu_count (ranked before (map snd hour))) = sum_list (map cu_count (map snd hour))" by (metis sum_mset_sum_list)
  then show "sum_list (map cu_count (ranked before (map snd hour))) = hour_sum hour" by (simp add: hour_sum_def comp_def)
  show "length (ranked before cs) = length cs" by (metis ranked_mset size_mset)
  show "set (ranked before cs) = set cs" by (metis ranked_mset set_mset_mset)
qed

lemma summarize_hour_total: "uh_total (summarize_hour before (group_rows rows) h) = rows_sum h rows"
  by (simp add: summarize_hour_def Let_def ranked_facts(1) group_rows_facts(1))

text \<open>A window is summed up exactly.  The hours come back one for one, quiet ones as zeroes; an hour's total is the
  sum of its rows over every token and node; its credentials are the different tokens of its rows; and at
  most ten are named, none of them used less than one that is not named.\<close>

theorem window_summed_exactly:
  assumes "u \<in> set (ur_hours (summarize_window before rows since until))"
  shows "uh_total u = rows_sum (uh_hour u) rows \<and>
    uh_credentials u = card (en_token ` {r \<in> set rows. en_hour r = uh_hour u}) \<and>
    length (uh_top u) = min 10 (uh_credentials u) \<and>
    (\<exists>unnamed. mset (uh_top u @ unnamed) = mset (map snd (hour_of_map (uh_hour u) (group_rows rows))) \<and>
      (\<forall>c \<in> set (uh_top u). \<forall>d \<in> set unnamed. cu_count d \<le> cu_count c))"
proof -
  obtain h where u: "u = summarize_hour before (group_rows rows) h" using assms by (auto simp: summarize_window_def Let_def)
  let ?hour = "hour_of_map h (group_rows rows)" let ?cs = "ranked before (map snd ?hour)"
  have hour: "uh_hour u = h" by (simp add: u summarize_hour_def Let_def)
  have "uh_credentials u = length ?hour" by (simp add: u summarize_hour_def Let_def ranked_facts(2))
  also have "\<dots> = card (fst ` set ?hour)" using distinct_card [OF group_rows_facts(3) [of h rows]] by simp
  finally have creds: "uh_credentials u = card (en_token ` {r \<in> set rows. en_hour r = h})" by (simp add: group_rows_facts(2))
  have top: "uh_top u = take 10 ?cs" "uh_credentials u = length ?cs"
    by (simp_all add: u summarize_hour_def Let_def top_tokens_per_hour_def)
  have "sorted_wrt (\<lambda>a b. cu_count b \<le> cu_count a) (take 10 ?cs @ drop 10 ?cs)" unfolding append_take_drop_id by (rule ranked_sorted)
  then have "\<forall>c \<in> set (take 10 ?cs). \<forall>d \<in> set (drop 10 ?cs). cu_count d \<le> cu_count c" unfolding sorted_wrt_append by blast
  moreover have "mset (take 10 ?cs @ drop 10 ?cs) = mset (map snd ?hour)" unfolding append_take_drop_id by (rule ranked_mset)
  ultimately have "\<exists>unnamed. mset (uh_top u @ unnamed) = mset (map snd ?hour) \<and> (\<forall>c \<in> set (uh_top u). \<forall>d \<in> set unnamed. cu_count d \<le> cu_count c)"
    unfolding top(1) by blast
  moreover have "length (uh_top u) = min 10 (uh_credentials u)" unfolding top by simp
  moreover have "uh_total u = rows_sum h rows" by (simp add: u summarize_hour_total)
  ultimately show ?thesis unfolding hour using creds by blast
qed

lemma hour_start_div: "hour_bucket_start (hour_bucket_of t) = t div 3600000 * 3600000"
  unfolding hour_start_of by (simp add: minus_mod_eq_div_mult)

text \<open>No moment asked for is left out.  The hours a window reports on are at least one and at most twelve, each once
  and newest first, and every moment from its start up to its end is in one of them, when the window touches no more than
  twelve.\<close>

theorem window_covers:
  assumes "since \<le> t" "t < until" "(until - 1) div 3600000 < since div 3600000 + 12"
  shows "hour_bucket_of t \<in> set (window_buckets since until) \<and>
    sorted_wrt (\<lambda>a b. b < a) (window_buckets since until) \<and> length (window_buckets since until) \<le> 12"
proof -
  define oo n where "oo = since div 3600000" and "n = (until - 1) div 3600000"
  have le: "oo \<le> t div 3600000" "t div 3600000 \<le> n" unfolding oo_def n_def using assms(1,2) by (auto intro: div_le_mono)
  have few: "n - oo < 12" using assms(3) unfolding oo_def n_def by linarith
  have "(n * 3600000 - oo * 3600000) div 3600000 = n - oo"
    by (metis diff_mult_distrib nonzero_mult_div_cancel_right zero_neq_numeral)
  then have w: "window_buckets since until = map (\<lambda>i. hour_bucket_of (n * 3600000 - i * 3600000)) [0..<n - oo + 1]"
    using few unfolding window_buckets_def Let_def hour_start_div oo_def [symmetric] n_def [symmetric] max_token_usage_hours_def by simp
  have hour: "(n * 3600000 - i * 3600000) div 3600000 = n - i" for i
    by (metis diff_mult_distrib nonzero_mult_div_cancel_right zero_neq_numeral)
  have "hour_bucket_of t = hour_bucket_of (n * 3600000 - (n - t div 3600000) * 3600000)"
    unfolding hour_bucket_eq hour using le by simp
  moreover have "n - t div 3600000 \<in> set [0..<n - oo + 1]" using le by auto
  ultimately have "hour_bucket_of t \<in> set (window_buckets since until)" unfolding w set_map by (rule image_eqI)
  moreover have "sorted_wrt (\<lambda>a b. b < a) (window_buckets since until)"
    unfolding w sorted_wrt_map
    by (auto simp: sorted_wrt_iff_nth_less hour_bucket_less hour less_diff_conv simp del: upt_Suc)
  ultimately show ?thesis using few by (simp add: w)
qed

subsection \<open>Counting is exact\<close>

abbreviation cell_total :: "token_cell \<Rightarrow> nat" where "cell_total c \<equiv> tc_stored c + tc_pending c"

abbreviation row_key :: "token_usage \<Rightarrow> nat \<times> string" where "row_key r \<equiv> (tk_hour r, tk_token r)"

abbreviation uses_in :: "token_call list \<Rightarrow> nat \<times> string \<Rightarrow> nat" where "uses_in xs k \<equiv> count_list (uses_of xs) k"

definition stored_count :: "nat \<times> string \<Rightarrow> (nat \<times> string, token_usage) jsmap \<Rightarrow> nat" where
  "stored_count k store = (case map_of store k of Some r \<Rightarrow> tk_count r | None \<Rightarrow> 0)"

definition cells_ok :: "token_call list \<Rightarrow> token_cells \<Rightarrow> bool" where
  "cells_ok xs cells \<longleftrightarrow>
     distinct (map fst cells) \<and>
     (\<forall>k c. map_of cells k = Some c \<longrightarrow> k = (tc_hour c, tc_token c) \<and> cell_total c = uses_in xs k \<and> k \<in> set (uses_of xs)) \<and>
     (\<forall>k \<in> set (uses_of xs). map_of cells k = None \<longrightarrow> (\<forall>j \<in> dom (map_of cells). fst j \<noteq> fst k)) \<and>
     (uses_of xs \<noteq> [] \<longrightarrow> map_of cells (hd (uses_of xs)) \<noteq> None)"

definition rows_ok :: "token_call list \<Rightarrow> token_usage list \<Rightarrow> bool" where
  "rows_ok xs rows \<longleftrightarrow>
     distinct (map row_key rows) \<and> (\<forall>r \<in> set rows. tk_count r \<le> uses_in xs (row_key r) \<and> row_key r \<in> set (uses_of xs))"

definition service_ok :: "token_call list \<Rightarrow> token_service \<Rightarrow> bool" where
  "service_ok xs s \<longleftrightarrow>
     cells_ok xs (ts_cells s) \<and>
     (\<forall>rows. ts_flight s = Some rows \<longrightarrow> rows_ok xs rows \<and> (\<forall>r \<in> set rows. stored_count (row_key r) (ts_store s) \<le> tk_count r)) \<and>
     (\<forall>k r. map_of (ts_store s) k = Some r \<longrightarrow> row_key r = k \<and> tk_count r \<le> uses_in xs k \<and> k \<in> set (uses_of xs)) \<and>
     distinct (map fst (ts_store s))"

lemma map_of_filter_key: "map_of (filter (\<lambda>e. P (fst e)) m) k = (if P k then map_of m k else None)"
  by (induction m) auto

lemma evict_cells_map:
  assumes "distinct (map fst cells)" "\<forall>k c. map_of cells k = Some c \<longrightarrow> k = (tc_hour c, tc_token c)"
  shows "map_of (evict_cells h cells) k = (if fst k \<in> set (doomed_hours h cells) then None else map_of cells k)"
    and "distinct (map fst (evict_cells h cells))"
proof -
  have "e \<in> set cells \<Longrightarrow> tc_hour (snd e) = fst (fst e)" for e using assms by (cases e) (metis fst_conv map_of_is_SomeI snd_conv)
  then have "evict_cells h cells = filter (\<lambda>e. fst (fst e) \<notin> set (doomed_hours h cells)) cells"
    unfolding evict_cells_def by (intro filter_cong) auto
  then show "map_of (evict_cells h cells) k = (if fst k \<in> set (doomed_hours h cells) then None else map_of cells k)"
    using map_of_filter_key [of "\<lambda>k. fst k \<notin> set (doomed_hours h cells)" cells k] by auto
  show "distinct (map fst (evict_cells h cells))" using assms(1) by (simp add: evict_cells_def distinct_map_filter)
qed

lemma incoming_spared: "h \<notin> set (doomed_hours h cells)"
  by (simp add: doomed_hours_def Let_def)

lemma in_order_use:
  assumes "in_order (UseCall u # xs)"
  shows "in_order xs" "k \<in> set (uses_of xs) \<Longrightarrow> fst k \<le> hour_bucket_of (us_at u)"
    "k \<in> set (uses_of xs) \<Longrightarrow> fst k \<le> fst (hd (uses_of xs))"
proof -
  show "in_order xs" "k \<in> set (uses_of xs) \<Longrightarrow> fst k \<le> hour_bucket_of (us_at u)"
    using assms by (auto simp: in_order_def sorted_append)
  then show "k \<in> set (uses_of xs) \<Longrightarrow> fst k \<le> fst (hd (uses_of xs))"
    by (cases "uses_of xs") (auto simp: in_order_def sorted_append)
qed

lemma in_order_step: "in_order (x # xs) \<Longrightarrow> in_order xs"
  by (cases x) (auto simp: in_order_def sorted_append)

lemma hour_still_open:
  assumes "cells_ok xs cells" "in_order (UseCall u # xs)" "k \<in> set (uses_of xs)" "fst k = hour_bucket_of (us_at u)"
  shows "map_of cells k \<noteq> None"
proof
  assume none: "map_of cells k = None"
  let ?l = "hd (uses_of xs)"
  have "?l \<in> set (uses_of xs)" using assms(3) by (cases "uses_of xs") auto
  then have "fst ?l = fst k" using in_order_use(2) [OF assms(2), of ?l] in_order_use(3) [OF assms(2,3)] assms(4) by simp
  moreover have "?l \<in> dom (map_of cells)" using assms(1,3) unfolding cells_ok_def by (cases "uses_of xs") auto
  ultimately show False using assms(1,3) none unfolding cells_ok_def by blast
qed

lemma count_use_ok:
  assumes ok: "cells_ok xs cells" and ord: "in_order (UseCall u # xs)"
  shows "cells_ok (UseCall u # xs) (count_use u cells)"
proof -
  define h where "h = hour_bucket_of (us_at u)"
  define key where "key = (h, us_token_id u)"
  have uses: "uses_of (UseCall u # xs) = key # uses_of xs" by (simp add: key_def h_def)
  have wf: "distinct (map fst cells)" "\<forall>k c. map_of cells k = Some c \<longrightarrow> k = (tc_hour c, tc_token c)"
    using ok unfolding cells_ok_def by blast+
  show ?thesis
  proof (cases "map_of cells key")
    case (Some c)
    then have eq: "count_use u cells = map_put key (c\<lparr>tc_pending := tc_pending c + 1\<rparr>) cells"
      by (simp add: count_use_def Let_def key_def h_def)
    define cells' where "cells' = map_put key (c\<lparr>tc_pending := tc_pending c + 1\<rparr>) cells"
    have at: "map_of cells' k = (if k = key then Some (c\<lparr>tc_pending := tc_pending c + 1\<rparr>) else map_of cells k)" for k
      by (simp add: cells'_def)
    have key: "key = (tc_hour c, tc_token c)" "cell_total c = uses_in xs key" "key \<in> set (uses_of xs)"
      using ok Some unfolding cells_ok_def by blast+
    have dom: "dom (map_of cells') = dom (map_of cells)" "map_of cells' k = None \<longleftrightarrow> map_of cells k = None" for k
      using Some by (auto simp: at split: if_splits)
    have "distinct (map fst cells')" using wf(1) by (simp add: cells'_def distinct_map_put)
    moreover have "\<forall>k d. map_of cells' k = Some d \<longrightarrow> k = (tc_hour d, tc_token d) \<and> cell_total d = uses_in (UseCall u # xs) k \<and> k \<in> set (uses_of (UseCall u # xs))"
      using ok key unfolding cells_ok_def uses at by (auto simp: count_list.simps(2) split: if_splits)
    moreover have "\<forall>k \<in> set (uses_of (UseCall u # xs)). map_of cells' k = None \<longrightarrow> (\<forall>j \<in> dom (map_of cells'). fst j \<noteq> fst k)"
      using ok Some unfolding cells_ok_def uses dom by auto
    moreover have "map_of cells' (hd (uses_of (UseCall u # xs))) \<noteq> None" unfolding uses by (simp add: at)
    ultimately show ?thesis unfolding cells_ok_def eq cells'_def [symmetric] by blast
  next
    case None
    let ?new = "\<lparr>tc_hour = h, tc_token = us_token_id u, tc_username = us_username u, tc_pending = 1, tc_stored = 0\<rparr>"
    let ?cells = "map_put key ?new (evict_cells h cells)"
    have eq: "count_use u cells = ?cells" using None by (simp add: count_use_def Let_def key_def h_def)
    have fresh: "key \<notin> set (uses_of xs)"
      using hour_still_open [OF ok ord, of key] None by (auto simp: key_def h_def)
    have at: "map_of ?cells k = (if k = key then Some ?new else if fst k \<in> set (doomed_hours h cells) then None else map_of cells k)" for k
      by (simp add: evict_cells_map(1) [OF wf])
    have "distinct (map fst ?cells)" by (rule distinct_map_put) (rule evict_cells_map(2) [OF wf])
    moreover have "\<forall>k c. map_of ?cells k = Some c \<longrightarrow> k = (tc_hour c, tc_token c) \<and> cell_total c = uses_in (UseCall u # xs) k \<and> k \<in> set (uses_of (UseCall u # xs))"
      using ok fresh unfolding cells_ok_def uses at by (auto simp: key_def count_notin split: if_splits)
    moreover have "\<forall>j \<in> dom (map_of ?cells). fst j \<noteq> fst k" if k: "k \<in> set (uses_of (UseCall u # xs))" and gone: "map_of ?cells k = None" for k
    proof
      fix j assume "j \<in> dom (map_of ?cells)"
      then have j: "j = key \<or> fst j \<notin> set (doomed_hours h cells) \<and> j \<in> dom (map_of cells)" unfolding domIff at by (auto split: if_splits)
      have k': "k \<noteq> key" "k \<in> set (uses_of xs)" using k gone uses by (auto simp: at split: if_splits)
      have "fst k \<noteq> h"
      proof
        assume "fst k = h"
        then have "map_of cells k \<noteq> None" using hour_still_open [OF ok ord k'(2)] by (simp add: h_def)
        then show False using gone k'(1) incoming_spared [of h cells] \<open>fst k = h\<close> unfolding at by simp
      qed
      moreover have "fst j \<noteq> fst k" if "fst j \<notin> set (doomed_hours h cells)" "j \<in> dom (map_of cells)"
        using that gone k' ok unfolding cells_ok_def at by (auto split: if_splits)
      ultimately show "fst j \<noteq> fst k" using j by (auto simp: key_def)
    qed
    moreover have "map_of ?cells (hd (uses_of (UseCall u # xs))) \<noteq> None" unfolding uses by simp
    ultimately show ?thesis unfolding cells_ok_def eq by blast
  qed
qed

lemma settle_total: "n \<le> cell_total c \<Longrightarrow> cell_total (settle_cell n c) = cell_total c"
  by (auto simp: settle_cell_def Let_def)

definition cell_view :: "token_cells \<Rightarrow> nat \<times> string \<Rightarrow> (nat \<times> string \<times> nat) option" where
  "cell_view cells k = map_option (\<lambda>c. (tc_hour c, tc_token c, cell_total c)) (map_of cells k)"

lemma cell_view_some: "cell_view cells k = Some (h, t, n) \<longleftrightarrow> (\<exists>c. map_of cells k = Some c \<and> tc_hour c = h \<and> tc_token c = t \<and> cell_total c = n)"
  by (auto simp: cell_view_def)

lemma mark_written_keeps:
  assumes "\<forall>r \<in> set rows. \<forall>h t n. cell_view cells (row_key r) = Some (h, t, n) \<longrightarrow> tk_count r \<le> n" "distinct (map fst cells)"
  shows "cell_view (mark_written rows cells) = cell_view cells \<and> distinct (map fst (mark_written rows cells))"
  using assms
proof (induction rows arbitrary: cells)
  case (Cons r rows)
  define cells' where "cells' = (case map_of cells (row_key r) of None \<Rightarrow> cells
      | Some c \<Rightarrow> map_put (row_key r) (settle_cell (tk_count r) c) cells)"
  have step: "mark_written (r # rows) cells = mark_written rows cells'" by (simp add: mark_written_def cells'_def)
  have same: "cell_view cells' = cell_view cells"
  proof (cases "map_of cells (row_key r)")
    case None
    then show ?thesis by (simp add: cells'_def)
  next
    case (Some c)
    then have "tk_count r \<le> cell_total c" using Cons.prems(1) cell_view_some by fastforce
    then have "cell_total (settle_cell (tk_count r) c) = cell_total c" by (rule settle_total)
    moreover have "tc_hour (settle_cell (tk_count r) c) = tc_hour c" "tc_token (settle_cell (tk_count r) c) = tc_token c"
      by (simp_all add: settle_cell_def Let_def)
    ultimately show ?thesis using Some by (simp add: cells'_def cell_view_def fun_eq_iff)
  qed
  moreover have "distinct (map fst cells')" using Cons.prems(2) by (simp add: cells'_def distinct_map_put split: option.split)
  ultimately show ?case using Cons.IH [of cells'] Cons.prems(1) unfolding step by simp
qed (simp add: mark_written_def)


lemma cells_ok_view:
  assumes "cells_ok xs cells" "cell_view cells' = cell_view cells" "distinct (map fst cells')"
  shows "cells_ok xs cells'"
proof -
  have none: "map_of cells' k = None \<longleftrightarrow> map_of cells k = None" for k
    using fun_cong [OF assms(2), of k] by (metis cell_view_def map_option_is_None)
  then have "dom (map_of cells') = dom (map_of cells)" by (simp add: dom_def)
  moreover have "\<exists>d. map_of cells k = Some d \<and> tc_hour d = tc_hour c \<and> tc_token d = tc_token c \<and> cell_total d = cell_total c"
    if "map_of cells' k = Some c" for k c
  proof -
    have "cell_view cells k = Some (tc_hour c, tc_token c, cell_total c)"
      using that fun_cong [OF assms(2), of k] by (simp add: cell_view_def)
    then show ?thesis unfolding cell_view_some .
  qed
  then have "\<forall>k c. map_of cells' k = Some c \<longrightarrow> k = (tc_hour c, tc_token c) \<and> cell_total c = uses_in xs k \<and> k \<in> set (uses_of xs)"
    using assms(1) unfolding cells_ok_def by metis
  ultimately show ?thesis using assms(1,3) unfolding cells_ok_def none by blast
qed

lemma write_usage_some:
  "map_of (write_usage rows store) k = Some r \<Longrightarrow> r \<in> set rows \<and> row_key r = k \<or> map_of store k = Some r"
  "map_of store k \<noteq> None \<or> k \<in> row_key ` set rows \<Longrightarrow> map_of (write_usage rows store) k \<noteq> None"
  "k \<notin> row_key ` set rows \<Longrightarrow> map_of (write_usage rows store) k = map_of store k"
proof (induction rows arbitrary: store)
  case Nil
  { case 1 then show ?case by (simp add: write_usage_def) next
    case 2 then show ?case by (simp add: write_usage_def) next
    case 3 then show ?case by (simp add: write_usage_def) }
next
  case (Cons x rows)
  have step: "write_usage (x # rows) st = write_usage rows (map_put (row_key x) x st)" for st by (simp add: write_usage_def)
  { case 1 then show ?case using Cons.IH(1) [of "map_put (row_key x) x store"] by (auto simp: step split: if_splits) next
    case 2 then show ?case using Cons.IH(2) [of "map_put (row_key x) x store"] by (auto simp: step) next
    case 3 then show ?case using Cons.IH(3) [of "map_put (row_key x) x store"] by (simp add: step) }
qed

lemma write_usage_distinct: "distinct (map fst store) \<Longrightarrow> distinct (map fst (write_usage rows store))"
  unfolding write_usage_def by (induction rows arbitrary: store) (simp_all add: distinct_map_put)

lemma written_count:
  assumes "distinct (map row_key rows)" "r \<in> set rows"
  shows "stored_count (row_key r) (write_usage rows store) = tk_count r"
  using assms
proof (induction rows arbitrary: store)
  case (Cons x rows)
  have step: "write_usage (x # rows) store = write_usage rows (map_put (row_key x) x store)" by (simp add: write_usage_def)
  show ?case
  proof (cases "r = x")
    case True
    then have "row_key r \<notin> row_key ` set rows" using Cons.prems(1) by simp
    then show ?thesis using write_usage_some(3) [of "row_key r" rows] True by (simp add: step stored_count_def)
  qed (use Cons in \<open>simp add: step\<close>)
qed simp

lemma pending_rows_ok:
  assumes "cells_ok xs cells"
  shows "rows_ok xs (pending_usage cells)" "\<forall>r \<in> set (pending_usage cells). tk_count r = uses_in xs (row_key r)"
proof -
  have cell: "\<forall>k c. map_of cells k = Some c \<longrightarrow> k = (tc_hour c, tc_token c) \<and> cell_total c = uses_in xs k \<and> k \<in> set (uses_of xs)"
    "distinct (map fst cells)" using assms unfolding cells_ok_def by blast+
  then have key: "e \<in> set cells \<Longrightarrow> fst e = (tc_hour (snd e), tc_token (snd e)) \<and> cell_total (snd e) = uses_in xs (fst e) \<and> fst e \<in> set (uses_of xs)" for e
    by (metis map_of_is_SomeI prod.collapse)
  show each: "\<forall>r \<in> set (pending_usage cells). tk_count r = uses_in xs (row_key r)" using key by (auto simp: pending_usage_def)
  have "map row_key (pending_usage cells) = map fst (filter (\<lambda>e. tc_pending (snd e) \<noteq> 0) cells)"
    unfolding pending_usage_def map_map by (intro map_cong) (auto simp: key)
  then have "distinct (map row_key (pending_usage cells))" using cell(2) by (simp add: distinct_map_filter)
  moreover have "row_key r \<in> set (uses_of xs)" if "r \<in> set (pending_usage cells)" for r using that key by (auto simp: pending_usage_def)
  ultimately show "rows_ok xs (pending_usage cells)" using each by (simp add: rows_ok_def)
qed

lemma service_write_ok:
  assumes "service_ok xs s" "ts_flight s = Some rows"
  shows "service_ok xs (s\<lparr>ts_store := write_usage rows (ts_store s)\<rparr>)"
    "service_ok xs (s\<lparr>ts_flight := None, ts_store := write_usage rows (ts_store s), ts_cells := mark_written rows (ts_cells s)\<rparr>)"
proof -
  have cells: "cells_ok xs (ts_cells s)" and rows: "rows_ok xs rows" using assms unfolding service_ok_def by blast+
  have store: "\<forall>k r. map_of (write_usage rows (ts_store s)) k = Some r \<longrightarrow> row_key r = k \<and> tk_count r \<le> uses_in xs k \<and> k \<in> set (uses_of xs)"
    using assms rows write_usage_some(1) [of rows "ts_store s"] unfolding service_ok_def rows_ok_def by (metis (no_types, lifting))
  have dist: "distinct (map fst (write_usage rows (ts_store s)))" using assms(1) by (simp add: service_ok_def write_usage_distinct)
  have "\<forall>r \<in> set rows. stored_count (row_key r) (write_usage rows (ts_store s)) \<le> tk_count r"
    using rows written_count unfolding rows_ok_def by (metis order_refl)
  then show "service_ok xs (s\<lparr>ts_store := write_usage rows (ts_store s)\<rparr>)"
    using assms store dist unfolding service_ok_def by simp
  have "\<forall>r \<in> set rows. \<forall>h t n. cell_view (ts_cells s) (row_key r) = Some (h, t, n) \<longrightarrow> tk_count r \<le> n"
    using cells rows unfolding cell_view_some cells_ok_def rows_ok_def by metis
  moreover have "distinct (map fst (ts_cells s))" using cells by (simp add: cells_ok_def)
  ultimately have "cells_ok xs (mark_written rows (ts_cells s))" using mark_written_keeps cells_ok_view [OF cells] by metis
  then show "service_ok xs (s\<lparr>ts_flight := None, ts_store := write_usage rows (ts_store s), ts_cells := mark_written rows (ts_cells s)\<rparr>)"
    using store dist unfolding service_ok_def by simp
qed

lemma uses_grow: "uses_in xs k \<le> uses_in (x # xs) k" "set (uses_of xs) \<subseteq> set (uses_of (x # xs))"
  by (cases x; auto)+

lemma stored_within: "service_ok xs s \<Longrightarrow> stored_count k (ts_store s) \<le> uses_in xs k"
proof (cases "map_of (ts_store s) k")
  case (Some r)
  assume "service_ok xs s"
  then have "tk_count r \<le> uses_in xs k" using Some unfolding service_ok_def by blast
  then show ?thesis using Some by (simp add: stored_count_def)
qed (simp add: stored_count_def)

lemma usage_run_ok: "in_order xs \<Longrightarrow> service_ok xs (token_run xs)"
proof (induction xs)
  case Nil
  show ?case by (simp add: service_ok_def cells_ok_def new_token_service_def)
next
  case (Cons x xs)
  have ih: "service_ok xs (token_run xs)" using Cons.IH in_order_step [OF Cons.prems] by blast
  show ?case
  proof (cases x)
    case (UseCall u)
    have "cells_ok (x # xs) (count_use u (ts_cells (token_run xs)))"
      using count_use_ok Cons.prems ih unfolding UseCall service_ok_def by blast
    moreover have "rows_ok xs rows \<Longrightarrow> rows_ok (x # xs) rows" for rows
      using uses_grow unfolding rows_ok_def by (meson le_trans subsetD)
    moreover have "\<forall>k r. map_of (ts_store (token_run xs)) k = Some r \<longrightarrow> row_key r = k \<and> tk_count r \<le> uses_in (x # xs) k \<and> k \<in> set (uses_of (x # xs))"
      using ih uses_grow unfolding service_ok_def by (meson le_trans subsetD)
    ultimately show ?thesis using ih unfolding service_ok_def by (simp add: UseCall)
  next
    case FlushBegin
    have same: "service_ok (x # xs) s = service_ok xs s" for s
      by (simp add: FlushBegin service_ok_def cells_ok_def rows_ok_def)
    have "stored_count k (ts_store (token_run xs)) \<le> uses_in xs k" for k by (rule stored_within) (rule ih)
    then show ?thesis using ih pending_rows_ok [of xs "ts_cells (token_run xs)"] unfolding same
      by (auto simp: FlushBegin Let_def service_ok_def)
  next
    case FlushLands
    have same: "service_ok (x # xs) s = service_ok xs s" for s
      by (simp add: FlushLands service_ok_def cells_ok_def rows_ok_def)
    show ?thesis using ih service_write_ok(1) [OF ih] unfolding same by (simp add: FlushLands split: option.split)
  next
    case (FlushEnds ack)
    have same: "service_ok (x # xs) s = service_ok xs s" for s
      by (simp add: FlushEnds service_ok_def cells_ok_def rows_ok_def)
    have "service_ok xs (s\<lparr>ts_flight := None\<rparr>)" if "service_ok xs s" for s using that by (simp add: service_ok_def)
    then show ?thesis using ih service_write_ok(2) [OF ih] unfolding same by (simp add: FlushEnds split: option.split)
  qed
qed


lemma write_never_lowers:
  assumes "service_ok xs s" "ts_flight s = Some rows"
  shows "stored_count k (ts_store s) \<le> stored_count k (write_usage rows (ts_store s))"
proof (cases "k \<in> row_key ` set rows")
  case True
  then obtain r where r: "r \<in> set rows" "row_key r = k" by auto
  have rows: "rows_ok xs rows" "stored_count (row_key r) (ts_store s) \<le> tk_count r"
    using assms r unfolding service_ok_def by blast+
  then show ?thesis using written_count [of rows r "ts_store s"] r unfolding rows_ok_def by simp
next
  case False
  then show ?thesis using write_usage_some(3) [of k rows "ts_store s"] by (simp add: stored_count_def)
qed

text \<open>Token uses are counted exactly.  As long as uses come hour after hour, a total held in memory is the number
  of uses of its token in its hour, a total in the store is never more than that, and no step makes a stored total
  smaller, whatever writes were lost or landed without being acknowledged.\<close>

theorem token_totals_exact:
  assumes "in_order (x # xs)"
  shows "(\<forall>k c. map_of (ts_cells (token_run xs)) k = Some c \<longrightarrow> cell_total c = uses_in xs k) \<and>
    stored_count k (ts_store (token_run xs)) \<le> uses_in xs k \<and>
    stored_count k (ts_store (token_run xs)) \<le> stored_count k (ts_store (token_run (x # xs)))"
proof -
  have ok: "service_ok xs (token_run xs)" using in_order_step [OF assms] by (rule usage_run_ok)
  then have "\<forall>k c. map_of (ts_cells (token_run xs)) k = Some c \<longrightarrow> cell_total c = uses_in xs k"
    unfolding service_ok_def cells_ok_def by blast
  moreover have "stored_count k (ts_store (token_run xs)) \<le> stored_count k (ts_store (token_run (x # xs)))"
    using write_never_lowers [OF ok] by (cases x) (auto simp: Let_def split: option.split)
  ultimately show ?thesis using stored_within [OF ok] by blast
qed

lemma uses_append: "uses_of (ys @ xs) = uses_of ys @ uses_of xs"
proof (induction ys)
  case (Cons y ys)
  then show ?case by (cases y) simp_all
qed simp

lemma sum_counts: "distinct ks \<Longrightarrow> sum_list (map (count_list us) ks) = length (filter (\<lambda>x. x \<in> set ks) us)"
proof (induction us)
  case (Cons u us)
  have "sum_list (map (count_list (u # us)) ks) = sum_list (map (count_list us) ks) + (if u \<in> set ks then 1 else 0)"
    using Cons.prems by (induction ks) auto
  then show ?case unfolding Cons.IH [OF Cons.prems] by (simp del: count_list.simps)
qed simp

lemma mine_counts:
  assumes "cells_ok xs cells" "j \<in> dom (map_of cells)" "fst j = h"
  shows "rows_sum h (running_totals node cells) = length (filter (\<lambda>k. fst k = h) (uses_of xs))"
proof -
  let ?ks = "filter (\<lambda>k. fst k = h) (map fst cells)"
  have d: "distinct ?ks" using assms(1) by (simp add: cells_ok_def)
  have e: "e \<in> set cells \<Longrightarrow> fst e = (tc_hour (snd e), tc_token (snd e)) \<and> cell_total (snd e) = uses_in xs (fst e)" for e
    using assms(1) unfolding cells_ok_def by (metis map_of_is_SomeI prod.collapse)
  then have "rows_sum h (running_totals node cells) = sum_list (map (\<lambda>e. uses_in xs (fst e)) (filter (\<lambda>e. fst (fst e) = h) cells))"
    unfolding rows_sum_def running_totals_def cell_entry_def filter_map map_map comp_def
    by (intro arg_cong [where f = sum_list] map_cong filter_cong) (auto simp: add.commute)
  also have "\<dots> = sum_list (map (count_list (uses_of xs)) ?ks)" by (simp add: filter_map comp_def)
  also have "\<dots> = length (filter (\<lambda>x. x \<in> set ?ks) (uses_of xs))" by (rule sum_counts) (rule d)
  also have "filter (\<lambda>x. x \<in> set ?ks) (uses_of xs) = filter (\<lambda>k. fst k = h) (uses_of xs)"
  proof (intro filter_cong refl)
    fix k assume "k \<in> set (uses_of xs)"
    then have "fst k = h \<Longrightarrow> map_of cells k \<noteq> None" using assms unfolding cells_ok_def by blast
    then show "k \<in> set ?ks \<longleftrightarrow> fst k = h" by (auto simp: map_of_eq_None_iff)
  qed
  finally show ?thesis .
qed

text \<open>A reader sees every use once.  The store is read at one moment and the memory of the process at a later one, and
  any flush may begin, land or end before, between and after; still the total of an hour this process holds is what the
  other nodes stored for it and the number of uses this process has counted in it, no more and no less.\<close>

theorem read_is_exact:
  assumes "in_order (ys @ xs)"
    and "\<forall>r \<in> set others. en_node r \<noteq> node"
    and "u \<in> set (ur_hours (query_token_usage before node (others @ stored_entries node (ts_store (token_run xs)))
      (ts_cells (token_run (ys @ xs))) since until))"
    and "map_of (ts_cells (token_run (ys @ xs))) (uh_hour u, token) \<noteq> None"
  shows "uh_total u = rows_sum (uh_hour u) others + length (filter (\<lambda>k. fst k = uh_hour u) (uses_of (ys @ xs)))"
proof -
  define h where "h = uh_hour u"
  define cells where "cells = ts_cells (token_run (ys @ xs))"
  define stored where "stored = stored_entries node (ts_store (token_run xs))"
  define held where "held = set (map (\<lambda>r. (en_hour r, en_token r)) (running_totals node cells))"
  define keep where "keep = (\<lambda>r :: usage_entry. \<not> (en_node r = node \<and> (en_hour r, en_token r) \<in> held))"
  have cells: "cells_ok (ys @ xs) cells" using usage_run_ok [OF assms(1)] by (simp add: service_ok_def cells_def)
  have "in_order xs" using assms(1) by (induction ys) (auto dest: in_order_step)
  then have ok: "service_ok xs (token_run xs)" by (rule usage_run_ok)
  have "held = dom (map_of cells)"
  proof -
    have "e \<in> set cells \<Longrightarrow> (tc_hour (snd e), tc_token (snd e)) = fst e" for e
      using cells unfolding cells_ok_def by (metis map_of_is_SomeI prod.collapse)
    then show ?thesis unfolding held_def dom_map_of_conv_image_fst running_totals_def cell_entry_def by (auto simp: image_iff)
  qed
  then have gone: "\<not> keep r" if "r \<in> set stored" "en_hour r = h" for r
  proof -
    from that(1) obtain k t where t: "(k, t) \<in> set (ts_store (token_run xs))" "r = \<lparr>en_hour = tk_hour t, en_at = hour_bucket_start (tk_hour t),
        en_token = tk_token t, en_username = tk_username t, en_count = tk_count t, en_node = node\<rparr>"
      by (auto simp: stored_def stored_entries_def Let_def)
    have "map_of (ts_store (token_run xs)) k = Some t" using t(1) ok by (simp add: service_ok_def)
    then have k: "row_key t = k" "k \<in> set (uses_of xs)" using ok unfolding service_ok_def by blast+
    then have "k \<in> set (uses_of (ys @ xs))" "fst k = h" using that(2) by (auto simp: uses_append t(2))
    moreover have "(h, token) \<in> dom (map_of cells)" using assms(4) by (auto simp: h_def cells_def)
    ultimately have "map_of cells k \<noteq> None" using cells unfolding cells_ok_def by (metis fst_conv)
    then show ?thesis using \<open>held = dom (map_of cells)\<close> k(1) by (auto simp: keep_def t(2))
  qed
  have others: "filter keep others = others" using assms(2) by (simp add: keep_def)
  have "filter (\<lambda>r. en_hour r = h) (filter keep stored) = []" using gone by (auto simp: filter_empty_conv)
  then have "rows_sum h (filter keep (others @ stored) @ running_totals node cells) = rows_sum h others + rows_sum h (running_totals node cells)"
    by (simp add: rows_sum_def others)
  also have "rows_sum h (running_totals node cells) = length (filter (\<lambda>k. fst k = h) (uses_of (ys @ xs)))"
    by (rule mine_counts [OF cells, of "(h, token)"]) (use assms(4) in \<open>auto simp: h_def cells_def\<close>)
  finally have sum: "rows_sum h (filter keep (others @ stored) @ running_totals node cells) =
      rows_sum h others + length (filter (\<lambda>k. fst k = h) (uses_of (ys @ xs)))" .
  obtain g where u: "u = summarize_hour before (group_rows (filter keep (others @ stored) @ running_totals node cells)) g"
    using assms(3) unfolding query_token_usage_def summarize_window_def Let_def keep_def held_def cells_def stored_def by auto
  then have "g = h" unfolding h_def by (simp add: summarize_hour_def Let_def)
  then show ?thesis using sum u by (simp add: summarize_hour_total h_def)
qed


subsection \<open>Samples\<close>

definition use_at :: "nat \<Rightarrow> token_use" where
  "use_at at = \<lparr>us_token_id = ''t'', us_username = ''bot'', us_at = at\<rparr>"

definition sample_flush :: "token_call list" where
  "sample_flush = [FlushEnds True, FlushBegin, UseCall (use_at 0), UseCall (use_at 0)]"

lemma use_at_simps [simp]: "us_token_id (use_at m) = ''t''" "us_username (use_at m) = ''bot''" "us_at (use_at m) = m"
  by (simp_all add: use_at_def)

lemma sample_in_order: "in_order (FlushBegin # UseCall (use_at 0) # sample_flush)"
  by (simp add: in_order_def sample_flush_def)

theorem token_totals_exact_witness:
  "stored_count (1970010100, ''t'') (ts_store (token_run (UseCall (use_at 0) # sample_flush))) \<le> 3"
  using token_totals_exact [OF sample_in_order, of "(1970010100, ''t'')"] by (simp add: sample_flush_def first_hours)

lemma sample_state:
  "token_run sample_flush =
     \<lparr>ts_cells = [((1970010100, ''t''), \<lparr>tc_hour = 1970010100, tc_token = ''t'', tc_username = ''bot'', tc_pending = 0, tc_stored = 2\<rparr>)],
      ts_flight = None,
      ts_store = [((1970010100, ''t''), \<lparr>tk_hour = 1970010100, tk_token = ''t'', tk_username = ''bot'', tk_count = 2\<rparr>)]\<rparr>"
  by (simp add: sample_flush_def new_token_service_def count_use_def Let_def first_hours evict_cells_def doomed_hours_def
      pending_usage_def write_usage_def mark_written_def settle_cell_def max_token_hours_def)

theorem read_is_exact_witness:
  "\<exists>u \<in> set (ur_hours (query_token_usage (\<lambda>a b. False) ''n'' ([] @ stored_entries ''n'' (ts_store (token_run sample_flush)))
      (ts_cells (token_run ([UseCall (use_at 0)] @ sample_flush))) 0 1)). uh_total u = 3"
proof -
  let ?u = "summarize_hour (\<lambda>a b. False) (group_rows (filter (\<lambda>r. \<not> (en_node r = ''n'' \<and> (en_hour r, en_token r) \<in>
      set (map (\<lambda>r. (en_hour r, en_token r)) (running_totals ''n'' (ts_cells (token_run ([UseCall (use_at 0)] @ sample_flush)))))))
      ([] @ stored_entries ''n'' (ts_store (token_run sample_flush))) @
      running_totals ''n'' (ts_cells (token_run ([UseCall (use_at 0)] @ sample_flush))))) 1970010100"
  have "hour_bucket_start 1970010100 = 0" using hour_start_div [of 0] by (simp add: first_hours)
  then have "window_buckets 0 1 = [1970010100]"
    by (simp add: window_buckets_def Let_def hour_start_div first_hours max_token_usage_hours_def)
  then have u: "?u \<in> set (ur_hours (query_token_usage (\<lambda>a b. False) ''n'' ([] @ stored_entries ''n'' (ts_store (token_run sample_flush)))
      (ts_cells (token_run ([UseCall (use_at 0)] @ sample_flush))) 0 1))"
    by (simp add: query_token_usage_def summarize_window_def Let_def)
  have hour: "uh_hour ?u = 1970010100" by (simp add: summarize_hour_def Let_def)
  have ord: "in_order ([UseCall (use_at 0)] @ sample_flush)" by (simp add: in_order_def sample_flush_def)
  have held: "map_of (ts_cells (token_run ([UseCall (use_at 0)] @ sample_flush))) (uh_hour ?u, ''t'') \<noteq> None"
    unfolding hour by (simp add: sample_state count_use_def Let_def first_hours)
  have "uh_total ?u = 3"
    using read_is_exact [OF ord _ u held] unfolding hour by (simp add: rows_sum_def sample_flush_def first_hours)
  with u show ?thesis by blast
qed

definition late_use :: "token_call list" where
  "late_use = [FlushEnds True, FlushBegin, UseCall (use_at 0), UseCall (use_at 10800000), UseCall (use_at 7200000),
     UseCall (use_at 3600000)] @ sample_flush"

text \<open>A use that comes late replaces the total of its hour.  Once three later hours have been counted, the hour is no
  longer held, and unlike the sign-in statistics nothing remembers that it is closed: a further use in it, as after
  a clock that stepped back, starts again from one, and the next flush writes that over the total in the store.\<close>

theorem late_use_lowers_total:
  "stored_count (1970010100, ''t'') (ts_store (token_run sample_flush)) = 2 \<and>
   uses_in late_use (1970010100, ''t'') = 3 \<and> stored_count (1970010100, ''t'') (ts_store (token_run late_use)) = 1"
proof -
  have "stored_count (1970010100, ''t'') (ts_store (token_run late_use)) = 1"
    by (simp add: late_use_def sample_state count_use_def Let_def first_hours evict_cells_def doomed_hours_def
      pending_usage_def write_usage_def mark_written_def settle_cell_def max_token_hours_def stored_count_def)
  moreover have "uses_in late_use (1970010100, ''t'') = 3" by (simp add: late_use_def sample_flush_def first_hours)
  ultimately show ?thesis by (simp add: sample_state stored_count_def)
qed

end
