(* ===== verification/AuditService.thy ===== *)
theory AuditService
  imports AuditCounters TokenUsage Login "HOL-Library.Sublist"
begin

text \<open>
  The audit service of \<open>apps/bff/src/store/audit/service.ts\<close>: the buffer of sign-in rows and the writing of it in
  batches, the statistics and token flushes, the health an operator reads, the tick that drives them and the
  shutdown.  The store is not modelled: what a call to it comes back with is an argument.  Where the
  service waits for one, other calls may come in between, so that the parts before and after the wait are
  steps of their own; the tick and the shutdown are their sequences.
\<close>

subsection \<open>State\<close>

datatype store_error = StUnreachable | StAuthFailed | StTimeout | StSchemaError | StTooLarge

datatype write_channel = EventRows | StatRows | TokenRows

record audit_config =
  ag_max_rows :: nat
  ag_flush_seconds :: nat
  ag_batch_rows :: nat
  ag_batch_seconds :: nat
  ag_sweep_minutes :: nat

definition audit_config_ok :: "audit_config \<Rightarrow> bool" where
  "audit_config_ok cfg \<longleftrightarrow>
     0 < ag_max_rows cfg \<and> 0 < ag_flush_seconds cfg \<and> 0 < ag_batch_rows cfg \<and> ag_batch_rows cfg \<le> 500 \<and>
     0 < ag_batch_seconds cfg \<and> ag_batch_seconds cfg \<le> 3600 \<and> 0 < ag_sweep_minutes cfg"

definition max_buffered_events :: nat where "max_buffered_events = 10000"

definition max_batches_per_pass :: nat where "max_batches_per_pass = 20"

definition shutdown_max_passes :: nat where "shutdown_max_passes = 1000"

record audit_service =
  se_counters :: audit_counters
  se_tokens :: token_service
  se_buffer :: "audit_event list"
  se_detached :: "audit_event list"
  se_confirmed :: "audit_event list"
  se_reachable :: bool
  se_available :: bool
  se_last_error :: "store_error option"
  se_write_faults :: "(write_channel, store_error) jsmap"
  se_unavailable_since :: nat
  se_unconfirmed_while_down :: nat
  se_ticks :: nat
  se_stopping :: bool

text \<open>The rows under way are \<open>detached\<close>, of which the code keeps the number; the rows the store has acknowledged
  are kept here for what is proved of them.\<close>

definition new_service :: audit_service where
  "new_service =
     \<lparr>se_counters = new_counters, se_tokens = new_token_service, se_buffer = [], se_detached = [], se_confirmed = [],
      se_reachable = False, se_available = False, se_last_error = None, se_write_faults = [], se_unavailable_since = 0,
      se_unconfirmed_while_down = 0, se_ticks = 0, se_stopping = False\<rparr>"

definition ceil_div :: "nat \<Rightarrow> nat \<Rightarrow> nat" where "ceil_div a b = (a + b - 1) div b"

definition aggregate_every :: "audit_config \<Rightarrow> nat" where
  "aggregate_every cfg = max 1 (ceil_div (ag_flush_seconds cfg) (ag_batch_seconds cfg))"

definition sweep_every :: "audit_config \<Rightarrow> nat" where
  "sweep_every cfg = max 1 (ceil_div (ag_sweep_minutes cfg * 60) (ag_batch_seconds cfg))"

subsection \<open>Health\<close>

definition begin_unhealthy_window :: "nat \<Rightarrow> audit_service \<Rightarrow> audit_service" where
  "begin_unhealthy_window now st =
     (if se_unavailable_since st \<noteq> 0 then st
      else st\<lparr>se_unavailable_since := now, se_unconfirmed_while_down := co_unconfirmed (se_counters st)\<rparr>)"

definition mark_write_unhealthy :: "nat \<Rightarrow> store_error \<Rightarrow> audit_service \<Rightarrow> audit_service" where
  "mark_write_unhealthy now code st = begin_unhealthy_window now (st\<lparr>se_last_error := Some code, se_available := False\<rparr>)"

definition mark_unavailable :: "nat \<Rightarrow> store_error \<Rightarrow> audit_service \<Rightarrow> audit_service" where
  "mark_unavailable now code st =
     (let st = st\<lparr>se_last_error := Some code, se_available := False, se_reachable := False\<rparr> in
      if se_unavailable_since st \<noteq> 0 then st else begin_unhealthy_window now st)"

definition mark_write_failed :: "nat \<Rightarrow> write_channel \<Rightarrow> store_error \<Rightarrow> audit_service \<Rightarrow> audit_service" where
  "mark_write_failed now channel code st =
     mark_write_unhealthy now code (st\<lparr>se_write_faults := map_put channel code (se_write_faults st)\<rparr>)"

definition mark_available :: "audit_service \<Rightarrow> audit_service" where
  "mark_available st =
     (let st = st\<lparr>se_reachable := True, se_write_faults := [], se_last_error := None\<rparr> in
      if se_available st then st
      else (let st = st\<lparr>se_available := True\<rparr> in
            if se_unavailable_since st \<noteq> 0 then st\<lparr>se_unavailable_since := 0\<rparr> else st))"

definition recover_unless_failing :: "audit_service \<Rightarrow> audit_service" where
  "recover_unless_failing st =
     (case se_write_faults st of (ch, code) # rest \<Rightarrow> st\<lparr>se_last_error := Some code\<rparr> | [] \<Rightarrow> mark_available st)"

definition mark_write_ok :: "write_channel \<Rightarrow> audit_service \<Rightarrow> audit_service" where
  "mark_write_ok channel st =
     recover_unless_failing (st\<lparr>se_write_faults := map_del channel (se_write_faults st)\<rparr>)"

definition mark_probe_ok :: "bool \<Rightarrow> audit_service \<Rightarrow> audit_service" where
  "mark_probe_ok writable st =
     (let st = st\<lparr>se_reachable := True\<rparr>;
          st = (if writable
                then st\<lparr>se_write_faults := map_del TokenRows (map_del EventRows (se_write_faults st))\<rparr> else st) in
      recover_unless_failing st)"

definition mark_read_ok :: "audit_service \<Rightarrow> audit_service" where
  "mark_read_ok st = (if \<not> se_reachable st \<or> se_write_faults st \<noteq> [] then st else mark_available st)"

text \<open>What a read of the store comes back with: nothing, or the error it threw.\<close>

definition tracked :: "nat \<Rightarrow> store_error option \<Rightarrow> audit_service \<Rightarrow> audit_service" where
  "tracked now outcome st =
     (case outcome of
        None \<Rightarrow> mark_read_ok st
      | Some code \<Rightarrow> if code = StTimeout \<or> code = StTooLarge then st else mark_unavailable now code st)"

datatype probe_result = ProbeThrew store_error | ProbeDown "store_error option" | ProbeUp bool

definition try_open :: "nat \<Rightarrow> store_error option \<Rightarrow> probe_result \<Rightarrow> audit_service \<Rightarrow> audit_service" where
  "try_open now opened probe st =
     (case opened of
        Some code \<Rightarrow> mark_unavailable now code st
      | None \<Rightarrow>
          (case probe of
             ProbeThrew code \<Rightarrow> mark_unavailable now code st
           | ProbeUp writable \<Rightarrow> mark_probe_ok writable st
           | ProbeDown error \<Rightarrow> mark_unavailable now (case error of Some code \<Rightarrow> code | None \<Rightarrow> StUnreachable) st))"

subsection \<open>Sign-in rows\<close>

definition counted_of :: "audit_event \<Rightarrow> counted_event" where
  "counted_of ev =
     \<lparr>ce_kind = ae_kind ev, ce_granted = ae_granted ev, ce_at = ae_at ev, ce_protocol = ae_protocol ev,
      ce_principal = (case ae_principal_key ev of Some k \<Rightarrow> k | None \<Rightarrow> ae_username ev)\<rparr>"

definition live_rows :: "audit_service \<Rightarrow> nat" where
  "live_rows st = length (se_buffer st) + length (se_detached st)"

text \<open>The row kept leaves out the key it was metered by.\<close>

definition stored_row :: "audit_event \<Rightarrow> audit_event" where
  "stored_row ev = ev\<lparr>ae_principal_key := None\<rparr>"

definition record_event :: "audit_config \<Rightarrow> audit_event \<Rightarrow> audit_service \<Rightarrow> audit_service" where
  "record_event cfg ev st =
     (case admit_event (ag_max_rows cfg) (counted_of ev) (se_counters st) of
        (False, c) \<Rightarrow> st\<lparr>se_counters := c\<rparr>
      | (True, c) \<Rightarrow>
          (let st = st\<lparr>se_counters := c\<rparr>;
               st = (if max_buffered_events \<le> live_rows st
                     then st\<lparr>se_buffer := tl (se_buffer st), se_counters := count_write_uncertain 1 (se_counters st)\<rparr>
                     else st) in
           st\<lparr>se_buffer := se_buffer st @ [stored_row ev]\<rparr>))"

definition wants_drain :: "audit_config \<Rightarrow> audit_service \<Rightarrow> bool" where
  "wants_drain cfg st \<longleftrightarrow> ag_batch_rows cfg \<le> length (se_buffer st) \<and> se_available st \<and> \<not> se_stopping st"

text \<open>One batch: it leaves the buffer before the wait, and comes back confirmed or not at all.\<close>

definition batch_begins :: "audit_config \<Rightarrow> audit_service \<Rightarrow> audit_service" where
  "batch_begins cfg st =
     (if se_detached st \<noteq> [] then st
      else st\<lparr>se_detached := take (ag_batch_rows cfg) (se_buffer st), se_buffer := drop (ag_batch_rows cfg) (se_buffer st)\<rparr>)"

definition batch_ends :: "nat \<Rightarrow> store_error option \<Rightarrow> audit_service \<Rightarrow> audit_service" where
  "batch_ends now outcome st =
     (let batch = se_detached st; st = st\<lparr>se_detached := []\<rparr> in
      case outcome of
        None \<Rightarrow> mark_write_ok EventRows (st\<lparr>se_confirmed := se_confirmed st @ batch\<rparr>)
      | Some code \<Rightarrow>
          (let st = mark_write_failed now EventRows code st in
           st\<lparr>se_counters := count_write_uncertain (length batch) (se_counters st)\<rparr>))"

text \<open>A pass of batches in one go, with what the store answers to each of its calls in turn.\<close>

fun write_batches :: "audit_config \<Rightarrow> nat \<Rightarrow> (nat \<Rightarrow> store_error option) \<Rightarrow> nat \<Rightarrow> audit_service \<Rightarrow> audit_service" where
  "write_batches cfg now answers 0 st = st"
| "write_batches cfg now answers (Suc left) st =
     (if se_buffer st = [] then st
      else (case answers left of
              None \<Rightarrow> write_batches cfg now answers left (batch_ends now None (batch_begins cfg st))
            | Some code \<Rightarrow> batch_ends now (Some code) (batch_begins cfg st)))"

definition flush_events :: "audit_config \<Rightarrow> nat \<Rightarrow> (nat \<Rightarrow> store_error option) \<Rightarrow> audit_service \<Rightarrow> audit_service" where
  "flush_events cfg now answers st = write_batches cfg now answers max_batches_per_pass st"

subsection \<open>Statistics, tokens and retention\<close>

text \<open>The rows of the statistics are written one by one; each answers for itself.\<close>

definition write_stats :: "nat \<Rightarrow> string \<Rightarrow> (audit_stat \<Rightarrow> store_error option) \<Rightarrow> audit_service \<Rightarrow> audit_service" where
  "write_stats now node answers st =
     (let stats = take_stats node (se_counters st) in
      if stats = [] then st
      else (let st = fold (\<lambda>s st. case answers s of None \<Rightarrow> st | Some code \<Rightarrow> mark_write_failed now StatRows code st) stats st in
            if \<forall>s \<in> set stats. answers s = None then mark_write_ok StatRows st else st))"

definition count_token_use :: "token_use \<Rightarrow> audit_service \<Rightarrow> audit_service" where
  "count_token_use u st = st\<lparr>se_tokens := token_step (UseCall u) (se_tokens st)\<rparr>"

definition token_flush_begins :: "audit_service \<Rightarrow> audit_service" where
  "token_flush_begins st = st\<lparr>se_tokens := token_step FlushBegin (se_tokens st)\<rparr>"

definition token_flush_lands :: "audit_service \<Rightarrow> audit_service" where
  "token_flush_lands st = st\<lparr>se_tokens := token_step FlushLands (se_tokens st)\<rparr>"

definition token_flush_ends :: "nat \<Rightarrow> store_error option \<Rightarrow> audit_service \<Rightarrow> audit_service" where
  "token_flush_ends now outcome st =
     (if ts_flight (se_tokens st) = None then st
      else (let st = st\<lparr>se_tokens := token_step (FlushEnds (outcome = None)) (se_tokens st)\<rparr> in
            case outcome of None \<Rightarrow> mark_write_ok TokenRows st | Some code \<Rightarrow> mark_write_failed now TokenRows code st))"

definition run_sweep :: "nat \<Rightarrow> store_error option \<Rightarrow> audit_service \<Rightarrow> audit_service" where
  "run_sweep now outcome st = (case outcome of None \<Rightarrow> st | Some code \<Rightarrow> mark_unavailable now code st)"

subsection \<open>The tick and the shutdown\<close>

text \<open>What the store answers during one tick or one shutdown.\<close>

record store_answers =
  sn_opened :: "store_error option"
  sn_probe :: probe_result
  sn_events :: "nat \<Rightarrow> nat \<Rightarrow> store_error option"
  sn_stats :: "audit_stat \<Rightarrow> store_error option"
  sn_tokens :: "store_error option"
  sn_reopened :: "store_error option"
  sn_reprobe :: probe_result
  sn_sweep :: "store_error option"

definition flush_tokens :: "nat \<Rightarrow> store_error option \<Rightarrow> audit_service \<Rightarrow> audit_service" where
  "flush_tokens now outcome st = token_flush_ends now outcome (token_flush_begins st)"

definition run_tick :: "audit_config \<Rightarrow> string \<Rightarrow> nat \<Rightarrow> store_answers \<Rightarrow> audit_service \<Rightarrow> audit_service" where
  "run_tick cfg node now a st =
     (if se_stopping st then st
      else
        (let st = st\<lparr>se_ticks := se_ticks st + 1\<rparr>;
             st = (if \<not> se_reachable st then try_open now (sn_opened a) (sn_probe a) st else st) in
         if \<not> se_reachable st then st
         else
           (let st = flush_events cfg now (sn_events a 0) st;
                st = (if se_ticks st mod aggregate_every cfg = 0
                      then (let st = flush_tokens now (sn_tokens a) (write_stats now node (sn_stats a) st) in
                            if se_write_faults st \<noteq> [] then try_open now (sn_reopened a) (sn_reprobe a) st else st)
                      else st) in
            if se_ticks st mod sweep_every cfg = 0 \<and> \<not> se_stopping st then run_sweep now (sn_sweep a) st else st)))"

text \<open>The passes shutdown makes: as many as are left, until the buffer is empty or a pass did not shorten it.\<close>

fun drain_passes :: "audit_config \<Rightarrow> nat \<Rightarrow> (nat \<Rightarrow> nat \<Rightarrow> store_error option) \<Rightarrow> nat \<Rightarrow> audit_service \<Rightarrow> audit_service" where
  "drain_passes cfg now answers 0 st = st"
| "drain_passes cfg now answers (Suc left) st =
     (if se_buffer st = [] then st
      else (let st' = flush_events cfg now (answers left) st in
            if length (se_buffer st) \<le> length (se_buffer st') then st' else drain_passes cfg now answers left st'))"

definition drain_and_close :: "audit_config \<Rightarrow> string \<Rightarrow> nat \<Rightarrow> store_answers \<Rightarrow> audit_service \<Rightarrow> audit_service" where
  "drain_and_close cfg node now a st =
     (let st = (if \<not> se_available st then try_open now (sn_opened a) (sn_probe a) st else st);
          st = drain_passes cfg now (sn_events a) shutdown_max_passes st in
      flush_tokens now (sn_tokens a) (write_stats now node (sn_stats a) st))"

text \<open>\<open>runStop\<close> where the sequence ends before its deadline.\<close>

definition run_stop :: "audit_config \<Rightarrow> string \<Rightarrow> nat \<Rightarrow> store_answers \<Rightarrow> audit_service \<Rightarrow> audit_service" where
  "run_stop cfg node now a st = (drain_and_close cfg node now a (st\<lparr>se_stopping := True\<rparr>))\<lparr>se_available := False\<rparr>"

record audit_health =
  hh_available :: bool
  hh_error :: "store_error option"
  hh_rows :: nat
  hh_over_budget :: nat

definition health :: "nat \<Rightarrow> audit_service \<Rightarrow> audit_health \<times> audit_service" where
  "health now st =
     (case rows_at now (se_counters st) of
        (rows, c) \<Rightarrow>
          (case over_budget_at now c of
             (over, c) \<Rightarrow>
               (\<lparr>hh_available = se_available st, hh_error = se_last_error st, hh_rows = rows, hh_over_budget = over\<rparr>,
                st\<lparr>se_counters := c\<rparr>)))"

subsection \<open>Any order of calls\<close>

datatype service_call =
    RecordEvent audit_event
  | CountToken token_use
  | BatchBegins
  | BatchEnds nat "store_error option"
  | WriteStats nat string "audit_stat \<Rightarrow> store_error option"
  | TokensBegin
  | TokensLand
  | TokensEnd nat "store_error option"
  | TryOpen nat "store_error option" probe_result
  | Reads nat "store_error option"
  | Sweeps nat "store_error option"
  | AskHealth nat
  | TickStarts
  | StopStarts
  | StopEnds

text \<open>A batch ends only where one is under way.\<close>

fun service_step :: "audit_config \<Rightarrow> service_call \<Rightarrow> audit_service \<Rightarrow> audit_service" where
  "service_step cfg (RecordEvent ev) st = record_event cfg ev st"
| "service_step cfg (CountToken u) st = count_token_use u st"
| "service_step cfg BatchBegins st = batch_begins cfg st"
| "service_step cfg (BatchEnds now outcome) st = (if se_detached st = [] then st else batch_ends now outcome st)"
| "service_step cfg (WriteStats now node answers) st = write_stats now node answers st"
| "service_step cfg TokensBegin st = token_flush_begins st"
| "service_step cfg TokensLand st = token_flush_lands st"
| "service_step cfg (TokensEnd now outcome) st = token_flush_ends now outcome st"
| "service_step cfg (TryOpen now opened probe) st = try_open now opened probe st"
| "service_step cfg (Reads now outcome) st = tracked now outcome st"
| "service_step cfg (Sweeps now outcome) st = run_sweep now outcome st"
| "service_step cfg (AskHealth now) st = snd (health now st)"
| "service_step cfg TickStarts st = st\<lparr>se_ticks := se_ticks st + 1\<rparr>"
| "service_step cfg StopStarts st = st\<lparr>se_stopping := True\<rparr>"
| "service_step cfg StopEnds st = st\<lparr>se_available := False\<rparr>"

primrec service_run :: "audit_config \<Rightarrow> service_call list \<Rightarrow> audit_service" where
  "service_run cfg [] = new_service"
| "service_run cfg (x # xs) = service_step cfg x (service_run cfg xs)"

text \<open>The rows a history let in, the oldest first.\<close>

fun rows_admitted :: "audit_config \<Rightarrow> service_call list \<Rightarrow> audit_event list" where
  "rows_admitted cfg [] = []"
| "rows_admitted cfg (RecordEvent ev # xs) =
     rows_admitted cfg xs @
     (if admits (ag_max_rows cfg) (counted_of ev) (se_counters (service_run cfg xs)) then [stored_row ev] else [])"
| "rows_admitted cfg (x # xs) = rows_admitted cfg xs"

subsection \<open>Every sign-in is accounted for\<close>

text \<open>What is kept of the sign-ins, which a change of health leaves as it is.\<close>

definition rows_view :: "audit_service \<Rightarrow> audit_event list \<times> audit_event list \<times> audit_event list \<times> audit_counters" where
  "rows_view st = (se_confirmed st, se_detached st, se_buffer st, se_counters st)"

named_theorems rows_kept

lemma begin_window_rows [rows_kept]: "rows_view (begin_unhealthy_window now st) = rows_view st"
  by (simp add: begin_unhealthy_window_def rows_view_def)

lemma mark_available_rows [rows_kept]: "rows_view (mark_available st) = rows_view st"
  by (simp add: mark_available_def rows_view_def Let_def)

lemma mark_unavailable_rows [rows_kept]: "rows_view (mark_unavailable now code st) = rows_view st"
  by (simp add: mark_unavailable_def rows_view_def begin_unhealthy_window_def Let_def)

lemma mark_write_failed_rows [rows_kept]: "rows_view (mark_write_failed now ch code st) = rows_view st"
  by (simp add: mark_write_failed_def mark_write_unhealthy_def rows_view_def begin_unhealthy_window_def)

lemma recover_rows [rows_kept]: "rows_view (recover_unless_failing st) = rows_view st"
  by (simp add: recover_unless_failing_def rows_kept split: list.split) (simp add: rows_view_def)

lemma mark_write_ok_rows [rows_kept]: "rows_view (mark_write_ok ch st) = rows_view st"
  by (simp add: mark_write_ok_def rows_kept) (simp add: rows_view_def)

lemma mark_probe_ok_rows [rows_kept]: "rows_view (mark_probe_ok w st) = rows_view st"
  by (simp add: mark_probe_ok_def Let_def rows_kept) (simp add: rows_view_def)

lemma mark_read_ok_rows [rows_kept]: "rows_view (mark_read_ok st) = rows_view st"
  by (simp add: mark_read_ok_def rows_kept)

lemma tracked_rows [rows_kept]: "rows_view (tracked now out st) = rows_view st"
  by (simp add: tracked_def rows_kept split: option.split)

lemma try_open_rows [rows_kept]: "rows_view (try_open now op pr st) = rows_view st"
  by (simp add: try_open_def rows_kept split: option.split probe_result.split)

lemma run_sweep_rows [rows_kept]: "rows_view (run_sweep now out st) = rows_view st"
  by (simp add: run_sweep_def rows_kept split: option.split)

lemma write_stats_rows [rows_kept]: "rows_view (write_stats now node answers st) = rows_view st"
proof -
  have "rows_view (fold (\<lambda>s st. case answers s of None \<Rightarrow> st | Some code \<Rightarrow> mark_write_failed now StatRows code st) ss st) = rows_view st" for ss st
    by (induction ss arbitrary: st) (simp_all add: rows_kept split: option.split)
  then show ?thesis by (simp add: write_stats_def Let_def rows_kept)
qed

lemma token_flush_rows [rows_kept]:
  "rows_view (count_token_use u st) = rows_view st" "rows_view (token_flush_begins st) = rows_view st"
  "rows_view (token_flush_lands st) = rows_view st" "rows_view (token_flush_ends now out st) = rows_view st"
proof -
  have "rows_view (st\<lparr>se_tokens := t\<rparr>) = rows_view st" for t by (simp add: rows_view_def)
  then show "rows_view (count_token_use u st) = rows_view st" "rows_view (token_flush_begins st) = rows_view st"
    "rows_view (token_flush_lands st) = rows_view st" "rows_view (token_flush_ends now out st) = rows_view st"
    by (simp_all add: count_token_use_def token_flush_begins_def token_flush_lands_def token_flush_ends_def Let_def rows_kept
        split: option.split)
qed

definition accounted :: "audit_event list \<Rightarrow> audit_service \<Rightarrow> bool" where
  "accounted adm st \<longleftrightarrow>
     subseq (se_confirmed st @ se_detached st @ se_buffer st) adm \<and>
     length adm = length (se_confirmed st) + live_rows st + co_unconfirmed (se_counters st) \<and>
     live_rows st \<le> max_buffered_events \<and> length (se_detached st) \<le> 500"

lemma accounted_view: "rows_view st' = rows_view st \<Longrightarrow> accounted adm st' = accounted adm st"
  by (simp add: rows_view_def accounted_def live_rows_def)

lemmas accounted_kept = rows_kept [THEN accounted_view]

lemma accounted_fields:
  "accounted adm (st\<lparr>se_ticks := n\<rparr>) = accounted adm st" "accounted adm (st\<lparr>se_stopping := b\<rparr>) = accounted adm st"
  "accounted adm (st\<lparr>se_available := b\<rparr>) = accounted adm st"
  by (simp_all add: accounted_def live_rows_def)

lemma unconfirmed_kept:
  "co_unconfirmed (roll_to h c) = co_unconfirmed c" "co_unconfirmed (add_to_stat h f c) = co_unconfirmed c"
  "co_unconfirmed (snd (admit_event m ev c)) = co_unconfirmed c"
proof -
  show roll: "co_unconfirmed (roll_to h c) = co_unconfirmed c" for h c by (simp add: roll_to_def)
  have drop: "co_unconfirmed (drop_hours ds c) = co_unconfirmed c" for ds c
    unfolding drop_hours_def by (induction ds arbitrary: c) simp_all
  show add: "co_unconfirmed (add_to_stat h f c) = co_unconfirmed c" for h f c
    using evict_stats_drop [of h c] drop by (auto simp: add_to_stat_def open_hour_def Let_def split: option.split)
  show "co_unconfirmed (snd (admit_event m ev c)) = co_unconfirmed c"
    by (simp add: admit_event_def reserve_row_def Let_def add roll split: prod.split bool.split)
qed

lemma record_event_accounted:
  assumes "accounted adm st"
  shows "accounted (adm @ (if admits (ag_max_rows cfg) (counted_of ev) (se_counters st) then [stored_row ev] else [])) (record_event cfg ev st)"
proof -
  obtain ok c where r: "admit_event (ag_max_rows cfg) (counted_of ev) (se_counters st) = (ok, c)" by force
  have c: "co_unconfirmed c = co_unconfirmed (se_counters st)"
    using unconfirmed_kept(3) [of "ag_max_rows cfg" "counted_of ev" "se_counters st"] by (simp add: r)
  show ?thesis
  proof (cases ok)
    case False
    then show ?thesis using assms c by (simp add: admits_def r record_event_def accounted_def live_rows_def)
  next
    case True
    have one: "subseq xs adm \<Longrightarrow> subseq (xs @ [y]) (adm @ [y])" for xs and y :: audit_event by (simp add: list_emb_append_mono)
    show ?thesis
    proof (cases "max_buffered_events \<le> live_rows st")
      case full: True
      then have ne: "se_buffer st \<noteq> []" using assms by (auto simp: accounted_def live_rows_def max_buffered_events_def)
      then have "subseq (se_confirmed st @ se_detached st @ tl (se_buffer st)) (se_confirmed st @ se_detached st @ se_buffer st)"
        by (intro list_emb_append_mono subseq_order.refl) (cases "se_buffer st"; simp add: list_emb_Cons)
      then have "subseq (se_confirmed st @ se_detached st @ tl (se_buffer st)) adm" using assms subseq_order.trans unfolding accounted_def by blast
      from one [OF this, of "stored_row ev"] show ?thesis using assms True full c ne
        by (simp add: admits_def r record_event_def accounted_def live_rows_def count_write_uncertain_def Suc_diff_le)
    next
      case False
      then show ?thesis using assms True c one [of "se_confirmed st @ se_detached st @ se_buffer st" "stored_row ev"]
        by (simp add: admits_def r record_event_def accounted_def live_rows_def)
    qed
  qed
qed

lemma batch_begins_accounted:
  assumes "accounted adm st" "ag_batch_rows cfg \<le> 500"
  shows "accounted adm (batch_begins cfg st)"
  using assms by (auto simp: batch_begins_def accounted_def live_rows_def)

lemma batch_ends_accounted:
  assumes "accounted adm st"
  shows "accounted adm (batch_ends now out st)"
proof (cases out)
  case None
  then have "rows_view (batch_ends now out st) = rows_view (st\<lparr>se_confirmed := se_confirmed st @ se_detached st, se_detached := []\<rparr>)"
    by (simp add: batch_ends_def Let_def rows_kept) (simp add: rows_view_def)
  moreover have "accounted adm (st\<lparr>se_confirmed := se_confirmed st @ se_detached st, se_detached := []\<rparr>)"
    using assms by (simp add: accounted_def live_rows_def)
  ultimately show ?thesis using accounted_view by blast
next
  case (Some code)
  define f where "f = mark_write_failed now EventRows code (st\<lparr>se_detached := []\<rparr>)"
  have "rows_view f = rows_view (st\<lparr>se_detached := []\<rparr>)" by (simp add: f_def rows_kept)
  then have f: "se_confirmed f = se_confirmed st" "se_detached f = []" "se_buffer f = se_buffer st" "se_counters f = se_counters st"
    by (simp_all add: rows_view_def)
  have "subseq (se_confirmed st @ se_buffer st) (se_confirmed st @ se_detached st @ se_buffer st)"
    by (intro list_emb_append_mono subseq_order.refl) (simp add: list_emb_append2)
  then have "subseq (se_confirmed st @ se_buffer st) adm" using assms subseq_order.trans unfolding accounted_def by blast
  then show ?thesis using assms f Some
    by (simp add: batch_ends_def Let_def f_def [symmetric] accounted_def live_rows_def count_write_uncertain_def)
qed

lemma run_accounted: "audit_config_ok cfg \<Longrightarrow> accounted (rows_admitted cfg xs) (service_run cfg xs)"
proof (induction xs)
  case Nil
  show ?case by (simp add: accounted_def new_service_def live_rows_def new_counters_def)
next
  case (Cons x xs)
  then have ih: "accounted (rows_admitted cfg xs) (service_run cfg xs)" by simp
  have batch: "ag_batch_rows cfg \<le> 500" using Cons.prems by (simp add: audit_config_ok_def)
  show ?case
  proof (cases x)
    case (RecordEvent ev)
    then show ?thesis using record_event_accounted [OF ih] by simp
  next
    case BatchBegins
    then show ?thesis using batch_begins_accounted [OF ih batch] by simp
  next
    case (BatchEnds now out)
    then show ?thesis using batch_ends_accounted [OF ih] ih by simp
  next
    case (AskHealth now)
    then show ?thesis using ih
      by (simp add: health_def rows_at_def over_budget_at_def Let_def accounted_def live_rows_def unconfirmed_kept)
  qed (use ih in \<open>simp_all add: accounted_kept accounted_fields\<close>)
qed

text \<open>Every sign-in let into the audit log is accounted for.  However recording, writing, reading and failing
  interleave, the rows the store confirmed, those under way and those waiting are in the order of the sign-ins and none
  of them twice; with the count of rows not confirmed they are all the rows let in; and never more than 10,000
  are held in memory.\<close>

theorem sign_ins_accounted:
  assumes "audit_config_ok cfg"
  shows "subseq (se_confirmed (service_run cfg xs) @ se_detached (service_run cfg xs) @ se_buffer (service_run cfg xs)) (rows_admitted cfg xs) \<and>
    length (rows_admitted cfg xs) = length (se_confirmed (service_run cfg xs)) + live_rows (service_run cfg xs) +
      co_unconfirmed (se_counters (service_run cfg xs)) \<and>
    live_rows (service_run cfg xs) \<le> 10000"
  using run_accounted [OF assms, of xs] by (simp add: accounted_def max_buffered_events_def)

subsection \<open>Green is earned\<close>

text \<open>Whether the last word on a way of writing was that it fails.  A write that comes back has its say, and so has a probe
  that vouches for writing, of the two ways it tries.\<close>

fun standing_fault :: "audit_config \<Rightarrow> write_channel \<Rightarrow> service_call list \<Rightarrow> bool" where
  "standing_fault cfg ch [] = False"
| "standing_fault cfg ch (BatchEnds now out # xs) =
     (if ch = EventRows \<and> se_detached (service_run cfg xs) \<noteq> [] then out \<noteq> None else standing_fault cfg ch xs)"
| "standing_fault cfg ch (WriteStats now node answers # xs) =
     (if ch = StatRows \<and> take_stats node (se_counters (service_run cfg xs)) \<noteq> []
      then (\<exists>s \<in> set (take_stats node (se_counters (service_run cfg xs))). answers s \<noteq> None) else standing_fault cfg ch xs)"
| "standing_fault cfg ch (TokensEnd now out # xs) =
     (if ch = TokenRows \<and> ts_flight (se_tokens (service_run cfg xs)) \<noteq> None then out \<noteq> None else standing_fault cfg ch xs)"
| "standing_fault cfg ch (TryOpen now opened probe # xs) =
     (standing_fault cfg ch xs \<and> \<not> (opened = None \<and> probe = ProbeUp True \<and> ch \<noteq> StatRows))"
| "standing_fault cfg ch (x # xs) = standing_fault cfg ch xs"

definition health_ok :: "audit_service \<Rightarrow> bool" where
  "health_ok st \<longleftrightarrow>
     (se_available st \<longrightarrow> se_reachable st \<and> se_write_faults st = [] \<and> se_last_error st = None) \<and>
     (se_write_faults st \<noteq> [] \<longrightarrow> se_last_error st \<noteq> None)"

definition faulty :: "write_channel \<Rightarrow> audit_service \<Rightarrow> bool" where
  "faulty ch st \<longleftrightarrow> map_of (se_write_faults st) ch \<noteq> None"

lemma window_health:
  "health_ok (begin_unhealthy_window now st) = health_ok st" "faulty ch (begin_unhealthy_window now st) = faulty ch st"
  by (simp_all add: begin_unhealthy_window_def health_ok_def faulty_def)

lemma unavailable_health:
  "health_ok (mark_unavailable now code st)" "faulty ch (mark_unavailable now code st) = faulty ch st"
  by (auto simp: mark_unavailable_def Let_def begin_unhealthy_window_def health_ok_def faulty_def)

lemma write_failed_health:
  "health_ok (mark_write_failed now c code st)" "faulty ch (mark_write_failed now c code st) \<longleftrightarrow> ch = c \<or> faulty ch st"
  by (auto simp: mark_write_failed_def mark_write_unhealthy_def window_health) (auto simp: health_ok_def faulty_def split: if_splits)

lemma recover_health:
  "health_ok st \<or> \<not> se_available st \<Longrightarrow> health_ok (recover_unless_failing st)" "faulty ch (recover_unless_failing st) = faulty ch st"
  by (auto simp: recover_unless_failing_def mark_available_def Let_def health_ok_def faulty_def split: list.split)

lemma write_ok_health:
  assumes "health_ok st"
  shows "health_ok (mark_write_ok c st)" "faulty ch (mark_write_ok c st) \<longleftrightarrow> ch \<noteq> c \<and> faulty ch st"
proof -
  have "health_ok (st\<lparr>se_write_faults := map_del c (se_write_faults st)\<rparr>)"
    using assms by (cases "se_write_faults st") (auto simp: health_ok_def map_del_def)
  then show "health_ok (mark_write_ok c st)" unfolding mark_write_ok_def by (intro recover_health(1)) simp
  show "faulty ch (mark_write_ok c st) \<longleftrightarrow> ch \<noteq> c \<and> faulty ch st"
    unfolding mark_write_ok_def recover_health(2) by (auto simp: faulty_def)
qed

lemma probe_ok_health:
  assumes "health_ok st"
  shows "health_ok (mark_probe_ok w st)" "faulty ch (mark_probe_ok w st) \<longleftrightarrow> faulty ch st \<and> (w \<longrightarrow> ch = StatRows)"
proof -
  have ok: "health_ok (st\<lparr>se_reachable := True, se_write_faults := map_del TokenRows (map_del EventRows (se_write_faults st))\<rparr>)"
    "health_ok (st\<lparr>se_reachable := True\<rparr>)"
    using assms by (cases "se_write_faults st"; auto simp: health_ok_def map_del_def)+
  show "health_ok (mark_probe_ok w st)" unfolding mark_probe_ok_def Let_def using ok by (intro recover_health(1)) simp
  show "faulty ch (mark_probe_ok w st) \<longleftrightarrow> faulty ch st \<and> (w \<longrightarrow> ch = StatRows)"
    unfolding mark_probe_ok_def Let_def recover_health(2) by (cases ch) (auto simp: faulty_def)
qed

lemma read_health:
  assumes "health_ok st"
  shows "health_ok (tracked now out st)" "faulty ch (tracked now out st) = faulty ch st"
proof -
  have ok: "health_ok (mark_read_ok st)" "faulty ch (mark_read_ok st) = faulty ch st"
    using assms by (simp_all add: mark_read_ok_def mark_available_def Let_def health_ok_def faulty_def)
  show "health_ok (tracked now out st)" "faulty ch (tracked now out st) = faulty ch st"
    using ok assms by (simp_all add: tracked_def unavailable_health split: option.split)
qed

lemma open_health:
  assumes "health_ok st"
  shows "health_ok (try_open now opened probe st)"
    "faulty ch (try_open now opened probe st) \<longleftrightarrow> faulty ch st \<and> \<not> (opened = None \<and> probe = ProbeUp True \<and> ch \<noteq> StatRows)"
  using probe_ok_health [OF assms] unavailable_health
  by (auto simp: try_open_def split: option.split probe_result.split)

lemma stats_health:
  assumes "health_ok st"
  shows "health_ok (write_stats now node answers st)"
    "faulty ch (write_stats now node answers st) \<longleftrightarrow>
       (if ch = StatRows \<and> take_stats node (se_counters st) \<noteq> []
        then (\<exists>s \<in> set (take_stats node (se_counters st)). answers s \<noteq> None) else faulty ch st)"
proof -
  define f where "f = (\<lambda>s st. case answers s of None \<Rightarrow> st | Some code \<Rightarrow> mark_write_failed now StatRows code st)"
  have fold: "health_ok st \<Longrightarrow> health_ok (fold f ss st) \<and>
      (faulty ch (fold f ss st) \<longleftrightarrow> faulty ch st \<or> ch = StatRows \<and> (\<exists>s \<in> set ss. answers s \<noteq> None))" for ss and st :: audit_service
  proof (induction ss arbitrary: st)
    case (Cons s ss)
    have "health_ok (f s st)" using Cons.prems by (simp add: f_def write_failed_health split: option.split)
    moreover have "faulty ch (f s st) \<longleftrightarrow> faulty ch st \<or> ch = StatRows \<and> answers s \<noteq> None"
      by (auto simp: f_def write_failed_health split: option.split)
    ultimately show ?case using Cons.IH [of "f s st"] by auto
  qed simp
  note all = fold [OF assms, of "take_stats node (se_counters st)"]
  show "health_ok (write_stats now node answers st)"
    using all assms by (auto simp: write_stats_def Let_def f_def [symmetric] write_ok_health)
  show "faulty ch (write_stats now node answers st) \<longleftrightarrow>
       (if ch = StatRows \<and> take_stats node (se_counters st) \<noteq> []
        then (\<exists>s \<in> set (take_stats node (se_counters st)). answers s \<noteq> None) else faulty ch st)"
    using all by (auto simp: write_stats_def Let_def f_def [symmetric] write_ok_health)
qed

lemma other_fields_health:
  "health_ok (st\<lparr>se_tokens := t\<rparr>) = health_ok st" "faulty ch (st\<lparr>se_tokens := t\<rparr>) = faulty ch st"
  "health_ok (st\<lparr>se_counters := c\<rparr>) = health_ok st" "faulty ch (st\<lparr>se_counters := c\<rparr>) = faulty ch st"
  "health_ok (st\<lparr>se_detached := d\<rparr>) = health_ok st" "faulty ch (st\<lparr>se_detached := d\<rparr>) = faulty ch st"
  "health_ok (st\<lparr>se_confirmed := d\<rparr>) = health_ok st" "faulty ch (st\<lparr>se_confirmed := d\<rparr>) = faulty ch st"
  "health_ok (st\<lparr>se_buffer := d\<rparr>) = health_ok st" "faulty ch (st\<lparr>se_buffer := d\<rparr>) = faulty ch st"
  "health_ok (st\<lparr>se_ticks := n\<rparr>) = health_ok st" "faulty ch (st\<lparr>se_ticks := n\<rparr>) = faulty ch st"
  "health_ok (st\<lparr>se_stopping := b\<rparr>) = health_ok st" "faulty ch (st\<lparr>se_stopping := b\<rparr>) = faulty ch st"
  "health_ok st \<Longrightarrow> health_ok (st\<lparr>se_available := False\<rparr>)" "faulty ch (st\<lparr>se_available := b\<rparr>) = faulty ch st"
  by (simp_all add: health_ok_def faulty_def)

lemmas health_kept = window_health unavailable_health write_failed_health write_ok_health read_health open_health stats_health other_fields_health

lemma run_health: "health_ok (service_run cfg xs) \<and> (faulty ch (service_run cfg xs) \<longleftrightarrow> standing_fault cfg ch xs)"
proof (induction xs)
  case Nil
  show ?case by (simp add: health_ok_def faulty_def new_service_def)
next
  case (Cons x xs)
  show ?case
  proof (cases x)
    case (RecordEvent ev)
    then show ?thesis using Cons.IH by (simp add: record_event_def Let_def health_kept split: prod.split bool.split)
  next
    case BatchBegins
    have "health_ok (st\<lparr>se_detached := d, se_buffer := b\<rparr>) = health_ok st" "faulty ch (st\<lparr>se_detached := d, se_buffer := b\<rparr>) = faulty ch st"
      for st d b by (simp_all add: health_ok_def faulty_def)
    then show ?thesis using BatchBegins Cons.IH by (simp add: batch_begins_def)
  next
    case (BatchEnds now out)
    then show ?thesis using Cons.IH by (auto simp: batch_ends_def Let_def health_kept split: option.split)
  next
    case (TokensEnd now out)
    then show ?thesis using Cons.IH by (auto simp: token_flush_ends_def Let_def health_kept split: option.split)
  next
    case (Sweeps now out)
    then show ?thesis using Cons.IH by (simp add: run_sweep_def health_kept split: option.split)
  next
    case (AskHealth now)
    then show ?thesis using Cons.IH by (simp add: health_def rows_at_def over_budget_at_def Let_def health_kept)
  qed (use Cons.IH in \<open>auto simp: health_kept count_token_use_def token_flush_begins_def token_flush_lands_def\<close>)
qed

text \<open>Green is earned.  The service is called available only while the store is reachable, no error is shown and no way of
  writing stands at fault: a fault of sign-in rows, statistics or token uses is taken back by a later write of the same kind or
  by a probe that vouches for it, and by nothing else, least of all by reading; and as long as one stands,
  an error is shown.\<close>

theorem green_is_earned:
  "(hh_available (fst (health now (service_run cfg xs))) \<longrightarrow>
     se_reachable (service_run cfg xs) \<and> hh_error (fst (health now (service_run cfg xs))) = None \<and> \<not> standing_fault cfg ch xs) \<and>
   (standing_fault cfg ch xs \<longrightarrow> hh_error (fst (health now (service_run cfg xs))) \<noteq> None)"
proof -
  let ?s = "service_run cfg xs"
  have "hh_available (fst (health now ?s)) = se_available ?s" "hh_error (fst (health now ?s)) = se_last_error ?s"
    by (simp_all add: health_def split: prod.split)
  then show ?thesis using run_health [of cfg xs ch] by (auto simp: health_ok_def faulty_def)
qed

subsection \<open>The shutdown ends\<close>

lemma batch_round:
  assumes "se_detached st = []"
  shows "se_buffer (batch_ends now out (batch_begins cfg st)) = drop (ag_batch_rows cfg) (se_buffer st)"
    "se_detached (batch_ends now out (batch_begins cfg st)) = []"
    "out = None \<Longrightarrow> co_unconfirmed (se_counters (batch_ends now out (batch_begins cfg st))) = co_unconfirmed (se_counters st)"
proof -
  let ?b = "batch_begins cfg st"
  have "rows_view (mark_write_ok EventRows (?b\<lparr>se_detached := [], se_confirmed := se_confirmed ?b @ se_detached ?b\<rparr>)) =
      rows_view (?b\<lparr>se_detached := [], se_confirmed := se_confirmed ?b @ se_detached ?b\<rparr>)"
    "rows_view (mark_write_failed now EventRows code (?b\<lparr>se_detached := []\<rparr>)) = rows_view (?b\<lparr>se_detached := []\<rparr>)" for code
    by (simp_all add: rows_kept)
  then show "se_buffer (batch_ends now out ?b) = drop (ag_batch_rows cfg) (se_buffer st)" "se_detached (batch_ends now out ?b) = []"
    "out = None \<Longrightarrow> co_unconfirmed (se_counters (batch_ends now out ?b)) = co_unconfirmed (se_counters st)"
    using assms by (auto simp: batch_ends_def Let_def rows_view_def batch_begins_def split: option.split)
qed

lemma write_batches_facts:
  assumes "se_detached st = []"
  shows "se_detached (write_batches cfg now answers left st) = [] \<and>
    length (se_buffer (write_batches cfg now answers left st)) \<le> length (se_buffer st) - min left 1 * ag_batch_rows cfg \<and>
    ((\<forall>i. answers i = None) \<longrightarrow>
      length (se_buffer (write_batches cfg now answers left st)) \<le> length (se_buffer st) - left * ag_batch_rows cfg \<and>
      co_unconfirmed (se_counters (write_batches cfg now answers left st)) = co_unconfirmed (se_counters st))"
  using assms
proof (induction left arbitrary: st)
  case (Suc left)
  note round = batch_round [OF Suc.prems, where now = now and cfg = cfg]
  show ?case
  proof (cases "se_buffer st = []")
    case False
    show ?thesis
    proof (cases "answers left")
      case None
      then show ?thesis using False Suc.IH [OF round(2), of None] round(1,3) by (auto simp: diff_diff_eq)
    next
      case (Some code)
      then show ?thesis using False round(1,2) by auto
    qed
  qed (use Suc.prems in simp)
qed simp

lemma flush_shrinks:
  assumes "se_detached st = []"
  shows "se_detached (flush_events cfg now answers st) = []"
    "length (se_buffer (flush_events cfg now answers st)) \<le> length (se_buffer st) - ag_batch_rows cfg"
    "\<forall>i. answers i = None \<Longrightarrow> length (se_buffer (flush_events cfg now answers st)) \<le> length (se_buffer st) - 20 * ag_batch_rows cfg \<and>
      co_unconfirmed (se_counters (flush_events cfg now answers st)) = co_unconfirmed (se_counters st)"
  using write_batches_facts [OF assms, where left = 20] by (simp_all add: flush_events_def max_batches_per_pass_def)






subsection \<open>A tick and a shutdown are sequences of those steps\<close>

text \<open>What a service can become by steps that record no sign-in.\<close>

definition reaches :: "audit_config \<Rightarrow> service_call list \<Rightarrow> audit_service \<Rightarrow> bool" where
  "reaches cfg xs st \<longleftrightarrow> (\<exists>ys. st = service_run cfg (ys @ xs) \<and> rows_admitted cfg (ys @ xs) = rows_admitted cfg xs)"

lemma reaches_refl: "reaches cfg xs (service_run cfg xs)"
  unfolding reaches_def by (rule exI [of _ "[]"]) simp

lemma reaches_step:
  assumes "reaches cfg xs st" "\<And>ev. x \<noteq> RecordEvent ev"
  shows "reaches cfg xs (service_step cfg x st)"
proof -
  obtain ys where ys: "st = service_run cfg (ys @ xs)" "rows_admitted cfg (ys @ xs) = rows_admitted cfg xs"
    using assms(1) unfolding reaches_def by blast
  have "rows_admitted cfg (x # zs) = rows_admitted cfg zs" for zs
  proof (cases x)
    case (RecordEvent ev)
    then show ?thesis using assms(2) by blast
  qed simp_all
  then show ?thesis unfolding reaches_def using ys by (intro exI [of _ "x # ys"]) simp
qed

lemma reaches_ops:
  assumes "reaches cfg xs st"
  shows "reaches cfg xs (try_open now opened probe st)" "reaches cfg xs (run_sweep now out st)"
    "reaches cfg xs (write_stats now node answers st)" "reaches cfg xs (flush_tokens now out st)"
    "reaches cfg xs (st\<lparr>se_ticks := se_ticks st + 1\<rparr>)" "reaches cfg xs (st\<lparr>se_stopping := True\<rparr>)"
    "reaches cfg xs (st\<lparr>se_available := False\<rparr>)"
proof -
  show "reaches cfg xs (try_open now opened probe st)" using reaches_step [OF assms, of "TryOpen now opened probe"] by simp
  show "reaches cfg xs (run_sweep now out st)" using reaches_step [OF assms, of "Sweeps now out"] by simp
  show "reaches cfg xs (write_stats now node answers st)" using reaches_step [OF assms, of "WriteStats now node answers"] by simp
  have "reaches cfg xs (token_flush_begins st)" using reaches_step [OF assms, of TokensBegin] by simp
  then show "reaches cfg xs (flush_tokens now out st)" using reaches_step [of cfg xs "token_flush_begins st" "TokensEnd now out"]
    by (simp add: flush_tokens_def)
  show "reaches cfg xs (st\<lparr>se_ticks := se_ticks st + 1\<rparr>)" using reaches_step [OF assms, of TickStarts] by simp
  show "reaches cfg xs (st\<lparr>se_stopping := True\<rparr>)" using reaches_step [OF assms, of StopStarts] by simp
  show "reaches cfg xs (st\<lparr>se_available := False\<rparr>)" using reaches_step [OF assms, of StopEnds] by simp
qed

lemma reaches_batches:
  assumes "0 < ag_batch_rows cfg" "reaches cfg xs st" "se_detached st = []"
  shows "reaches cfg xs (write_batches cfg now answers left st)"
  using assms(2,3)
proof (induction left arbitrary: st)
  case (Suc left)
  show ?case
  proof (cases "se_buffer st = []")
    case False
    have "se_detached (batch_begins cfg st) \<noteq> []" using Suc.prems(2) False assms(1) by (simp add: batch_begins_def)
    moreover have "reaches cfg xs (batch_begins cfg st)" using reaches_step [OF Suc.prems(1), of BatchBegins] by simp
    ultimately have "reaches cfg xs (batch_ends now out (batch_begins cfg st))" for out
      using reaches_step [of cfg xs "batch_begins cfg st" "BatchEnds now out"] by simp
    then show ?thesis using False Suc.IH batch_round(2) [OF Suc.prems(2)] by (simp split: option.split)
  qed (use Suc.prems in simp)
qed simp

lemma reaches_drain:
  assumes "0 < ag_batch_rows cfg" "reaches cfg xs st" "se_detached st = []"
  shows "reaches cfg xs (drain_passes cfg now answers left st)"
  using assms(2,3)
proof (induction left arbitrary: st)
  case (Suc left)
  have "reaches cfg xs (flush_events cfg now (answers left) st)"
    unfolding flush_events_def by (rule reaches_batches) (use assms(1) Suc.prems in simp_all)
  then show ?case using Suc flush_shrinks(1) [OF Suc.prems(2)] by (simp add: Let_def)
qed simp

lemma detached_view: "rows_view st' = rows_view st \<Longrightarrow> se_detached st' = se_detached st"
  by (simp add: rows_view_def)

text \<open>A tick and a shutdown do nothing but such steps.  When no batch is under way, what a tick or a shutdown leaves is what
  some sequence of the service's steps leaves, none of them recording a sign-in; so that all that holds of every
  interleaving of the steps holds of the timer and of the way down.\<close>

theorem tick_is_steps:
  assumes "audit_config_ok cfg" "se_detached (service_run cfg xs) = []"
  shows "reaches cfg xs (run_tick cfg node now a (service_run cfg xs)) \<and> reaches cfg xs (run_stop cfg node now a (service_run cfg xs))"
proof
  have rows: "0 < ag_batch_rows cfg" using assms(1) by (simp add: audit_config_ok_def)
  have opened: "reaches cfg xs (if b then try_open now p q st else st) \<and> se_detached (if b then try_open now p q st else st) = []"
    if "reaches cfg xs st" "se_detached st = []" for b p q st
    using that reaches_ops(1) detached_view [OF try_open_rows] by simp
  let ?s = "service_run cfg xs"
  have tick: "reaches cfg xs (?s\<lparr>se_ticks := se_ticks ?s + 1\<rparr>)" "se_detached (?s\<lparr>se_ticks := se_ticks ?s + 1\<rparr>) = []"
    using reaches_ops(5) [OF reaches_refl] assms(2) by simp_all
  have flush: "reaches cfg xs (flush_events cfg now e st)" if "reaches cfg xs st" "se_detached st = []" for e st
    unfolding flush_events_def using rows that by (rule reaches_batches)
  define t where "t = ?s\<lparr>se_ticks := se_ticks ?s + 1\<rparr>"
  define u where "u = (if \<not> se_reachable t then try_open now (sn_opened a) (sn_probe a) t else t)"
  have u: "reaches cfg xs u" "reaches cfg xs (flush_events cfg now e u)" for e
    unfolding u_def using opened [OF tick, folded t_def] flush by blast+
  show "reaches cfg xs (run_tick cfg node now a ?s)"
    unfolding run_tick_def Let_def t_def [symmetric] u_def [symmetric]
    by (simp add: u reaches_refl reaches_ops)
  have stop: "reaches cfg xs (?s\<lparr>se_stopping := True\<rparr>)" "se_detached (?s\<lparr>se_stopping := True\<rparr>) = []"
    using reaches_ops(6) [OF reaches_refl] assms(2) by simp_all
  have "reaches cfg xs (drain_passes cfg now e n st)" if "reaches cfg xs st" "se_detached st = []" for e n st
    using rows that by (rule reaches_drain)
  then show "reaches cfg xs (run_stop cfg node now a ?s)"
    unfolding run_stop_def drain_and_close_def Let_def using opened [OF stop] by (intro reaches_ops) auto
qed

subsection \<open>Samples\<close>

definition sample_audit :: audit_config where
  "sample_audit = \<lparr>ag_max_rows = 1000, ag_flush_seconds = 60, ag_batch_rows = 50, ag_batch_seconds = 15, ag_sweep_minutes = 60\<rparr>"

definition sample_row :: audit_event where
  "sample_row =
     \<lparr>ae_at = 0, ae_kind = FromLdap, ae_granted = True, ae_reason = None, ae_username = ''alice'', ae_roles = ''viewer'',
      ae_principal_key = Some ''cn=alice'', ae_mail = None, ae_provider = None, ae_protocol = None, ae_client_ip = ''192.0.2.7''\<rparr>"

definition good_store :: store_answers where
  "good_store =
     \<lparr>sn_opened = None, sn_probe = ProbeUp True, sn_events = (\<lambda>i j. None), sn_stats = (\<lambda>s. None), sn_tokens = None,
      sn_reopened = None, sn_reprobe = ProbeUp True, sn_sweep = None\<rparr>"

lemma sample_audit_ok: "audit_config_ok sample_audit"
  by (simp add: audit_config_ok_def sample_audit_def)

lemma sample_admits: "rows_admitted sample_audit [RecordEvent sample_row] = [stored_row sample_row]"
  using admits_first [of 1000 "counted_of sample_row"] by (simp add: new_service_def sample_audit_def)

lemma sample_recorded:
  "se_detached (service_run sample_audit [RecordEvent sample_row]) = []"
  "co_unconfirmed (se_counters (service_run sample_audit [RecordEvent sample_row])) = 0"
  using unconfirmed_kept(3) [of "ag_max_rows sample_audit" "counted_of sample_row" new_counters]
  by (auto simp: record_event_def Let_def new_service_def new_counters_def live_rows_def max_buffered_events_def split: prod.split bool.split)

lemma sample_buffer: "se_buffer (service_run sample_audit [RecordEvent sample_row]) = [stored_row sample_row]"
  using admits_first [of 1000 "counted_of sample_row"]
  by (auto simp: record_event_def Let_def new_service_def live_rows_def max_buffered_events_def admits_def sample_audit_def
      split: prod.split bool.split)

theorem sign_ins_accounted_witness:
  "length (se_confirmed (service_run sample_audit [RecordEvent sample_row])) + live_rows (service_run sample_audit [RecordEvent sample_row]) = 1"
  using sign_ins_accounted [OF sample_audit_ok, of "[RecordEvent sample_row]"] sample_recorded(2)
  unfolding sample_admits by (simp del: service_run.simps)


theorem tick_is_steps_witness:
  "reaches sample_audit [RecordEvent sample_row] (run_tick sample_audit ''n'' 0 good_store (service_run sample_audit [RecordEvent sample_row]))"
  using tick_is_steps [OF sample_audit_ok sample_recorded(1), of "''n''" 0 good_store] by blast

text \<open>A batch failed, the store is probed and found up, and a read succeeds: the error stays.\<close>

theorem green_is_earned_witness:
  "\<exists>xs. standing_fault sample_audit EventRows xs \<and> hd xs = Reads 0 None \<and> hh_error (fst (health 0 (service_run sample_audit xs))) \<noteq> None \<and>
     \<not> hh_available (fst (health 0 (service_run sample_audit xs)))"
proof -
  let ?xs = "[Reads 0 None, TryOpen 0 None (ProbeUp False), BatchEnds 0 (Some StTimeout), BatchBegins, RecordEvent sample_row]"
  have "se_detached (service_run sample_audit [BatchBegins, RecordEvent sample_row]) \<noteq> []"
    using sample_buffer sample_recorded(1) by (simp add: batch_begins_def sample_audit_def)
  then have "standing_fault sample_audit EventRows ?xs" by simp
  then show ?thesis using green_is_earned [of 0 sample_audit ?xs EventRows] by (intro exI [of _ ?xs]) (simp del: service_run.simps standing_fault.simps)
qed

end
