(* ===== verification/AuditTrail.thy ===== *)
theory AuditTrail
  imports AuditService
begin

text \<open>
  The server and its audit service together: what the sign-in routes hand to \<open>recordEvent\<close> and what of it the service
  holds and stores.
\<close>

text \<open>The sign-ins of a run of the server, the oldest first: when, who, with which roles and by which way in.\<close>

type_synonym signed_in = "nat \<times> string \<times> string \<times> auth_source"

fun sign_ins_of :: "login_world \<Rightarrow> horizon_config \<Rightarrow> server_event list \<Rightarrow> signed_in list" where
  "sign_ins_of w cfg [] = []"
| "sign_ins_of w cfg (e # es) =
     sign_ins_of w cfg es @
     (case lets_in w cfg e (server_run w cfg es) of
        Some (entropy, who) \<Rightarrow> [(event_time e, sg_username who, join_with '','' (sg_roles who), sg_source who)]
      | None \<Rightarrow> [])"

definition row_of :: "audit_event \<Rightarrow> signed_in" where
  "row_of ev = (ae_at ev, ae_username ev, ae_roles ev, ae_kind ev)"

definition granted_rows :: "audit_event list \<Rightarrow> signed_in list" where
  "granted_rows evs = map row_of (filter ae_granted evs)"

lemma login_audit:
  "granted_rows (sv_audit (snd (login w cfg t e body ip st))) = granted_rows (sv_audit st) @
     (case let_in w cfg t body st of
        Some who \<Rightarrow> [(t, sg_username who, join_with '','' (sg_roles who), sg_source who)] | None \<Rightarrow> [])"
proof (cases "login_body body")
  case (Some up)
  obtain u p where up: "up = (u, p)" by fastforce
  obtain verdict src h n where v: "login_verdict w cfg t u p (sv_health st) (rl_calls (as_roles (sv_auth st))) = (verdict, src, h, n)"
    by (metis prod_cases4)
  show ?thesis
    by (cases verdict)
      (simp_all add: login_def let_in_def Some up v Let_def granted_rows_def audit_row_def row_of_def sign_in_of_def split: prod.split)
qed (simp add: login_def let_in_def)

lemma sso_audit:
  "granted_rows (sv_audit (snd (sso_callback w cfg t e cb ip st))) = granted_rows (sv_audit st) @
     (case sso_let_in w cfg t cb st of
        Some who \<Rightarrow> [(t, sg_username who, join_with '','' (sg_roles who), sg_source who)] | None \<Rightarrow> [])"
  by (simp add: sso_callback_def sso_let_in_def Let_def granted_rows_def sso_row_def row_of_def sso_sign_in_def
      split: prod.split sso_verdict.split)

lemma granted_are_sign_ins: "granted_rows (sv_audit (server_run w cfg es)) = sign_ins_of w cfg es"
proof (induction es)
  case Nil
  show ?case by (simp add: new_server_def granted_rows_def)
next
  case (Cons e es)
  have out: "sv_audit (logout cfg cookies st) = sv_audit st" for cookies st by (simp add: logout_def split: option.split)
  show ?case by (cases e) (use Cons in \<open>simp_all add: login_audit sso_audit out split: option.split\<close>)
qed

text \<open>The rows a run of the service was handed, the oldest first.\<close>

fun recorded :: "service_call list \<Rightarrow> audit_event list" where
  "recorded [] = []"
| "recorded (RecordEvent ev # xs) = recorded xs @ [ev]"
| "recorded (x # xs) = recorded xs"

lemma admitted_recorded: "subseq (rows_admitted cfg xs) (map stored_row (recorded xs))"
proof (induction xs)
  case (Cons x xs)
  have "subseq ra ys \<Longrightarrow> subseq (ra @ (if b then [r] else [])) (ys @ [r])" for ra ys :: "audit_event list" and b r
    by (rule list_emb_append_mono) simp_all
  then show ?case using Cons by (cases x) simp_all
qed simp

lemma granted_subseq: "subseq xs ys \<Longrightarrow> subseq (granted_rows xs) (granted_rows ys)"
  by (simp add: granted_rows_def subseq_map subseq_filter)

lemma granted_stored: "granted_rows (map stored_row evs) = granted_rows evs"
  by (induction evs) (simp_all add: granted_rows_def stored_row_def row_of_def)

text \<open>The audit log tells of sign-ins and of nothing else.  When what the service was handed is what the routes recorded,
  the accepted sign-ins among the rows stored, under way and waiting are sign-ins that this server let in, each
  at its moment with its user, its roles and its way in, in their order, and none of them twice.\<close>

theorem audit_log_is_sign_ins:
  assumes "audit_config_ok ac" "recorded xs = sv_audit (server_run w cfg es)"
  shows "subseq (granted_rows (se_confirmed (service_run ac xs) @ se_detached (service_run ac xs) @ se_buffer (service_run ac xs)))
    (sign_ins_of w cfg es)"
proof -
  have "subseq (se_confirmed (service_run ac xs) @ se_detached (service_run ac xs) @ se_buffer (service_run ac xs)) (rows_admitted ac xs)"
    using run_accounted [OF assms(1)] by (simp add: accounted_def)
  also have "subseq (rows_admitted ac xs) (map stored_row (recorded xs))" by (rule admitted_recorded)
  finally show ?thesis using granted_subseq granted_are_sign_ins [of w cfg es] assms(2) by (metis granted_stored)
qed

lemma recorded_of: "recorded (map RecordEvent (rev evs)) = evs"
proof -
  have "recorded (map RecordEvent evs) = rev evs" for evs by (induction evs) simp_all
  then show ?thesis by simp
qed

abbreviation sample_history :: "service_call list" where
  "sample_history \<equiv> map RecordEvent (rev (sv_audit (server_run sample_login_world token_config [SignIn ''abc'' sample_body ''::1'' 5])))"

theorem audit_log_is_sign_ins_witness:
  "subseq (granted_rows (se_confirmed (service_run sample_audit sample_history) @ se_detached (service_run sample_audit sample_history) @
      se_buffer (service_run sample_audit sample_history))) [(5, ''ann'', ''viewer,admin'', FromLocal)]"
proof -
  have "sign_ins_of sample_login_world token_config [SignIn ''abc'' sample_body ''::1'' 5] = [(5, ''ann'', ''viewer,admin'', FromLocal)]"
    by (simp add: sample_let_in)
  then show ?thesis using audit_log_is_sign_ins [OF sample_audit_ok recorded_of] by metis
qed

end
