(* ===== verification/AlarmPages.thy ===== *)
theory AlarmPages
  imports RequestAccess "HOL-Library.List_Lexorder" "HOL-Library.Char_ord"
begin

text \<open>
  The alarm pages a reader is served: the pins of \<open>packages/api-client/src/alarm-pages.ts\<close> and their fitting to
  the reader in \<open>apps/bff/src/logic/alarms/pages.ts\<close>.  The comparison of two titles by locale is an argument.
\<close>

subsection \<open>Pins\<close>

record alarm_pin =
  pn_layer :: string
  pn_groups :: "string list option"

definition ungrouped_pin :: string where "ungrouped_pin = ''-''"

definition parse_alarm_pin :: "string \<Rightarrow> alarm_pin option" where
  "parse_alarm_pin txt =
     (case match_qualifier (js_trim txt) of
        None \<Rightarrow> None
      | Some (w, None) \<Rightarrow> Some \<lparr>pn_layer = to_upper w, pn_groups = None\<rparr>
      | Some (w, Some body) \<Rightarrow>
          (let groups = map js_trim (split_on CHR '','' body) in
           if [] \<in> set groups then None
           else Some \<lparr>pn_layer = to_upper w, pn_groups = Some (map (\<lambda>g. if g = ungrouped_pin then [] else g) groups)\<rparr>))"

definition format_alarm_pin :: "alarm_pin \<Rightarrow> string" where
  "format_alarm_pin p =
     (case pn_groups p of
        None \<Rightarrow> pn_layer p
      | Some gs \<Rightarrow> pn_layer p @ ''['' @ join_with '', '' (map (\<lambda>g. if g = [] then ungrouped_pin else g) gs) @ '']'')"

definition alarm_pin_key :: "alarm_pin \<Rightarrow> string" where
  "alarm_pin_key p =
     (case pn_groups p of None \<Rightarrow> pn_layer p | Some gs \<Rightarrow> pn_layer p @ ''['' @ join_with '','' (sort gs) @ '']'')"

definition parse_canonical_alarm_pin :: "string \<Rightarrow> alarm_pin option" where
  "parse_canonical_alarm_pin txt =
     (case parse_alarm_pin txt of None \<Rightarrow> None | Some p \<Rightarrow> Some (p\<lparr>pn_layer := canonical_layer_key (pn_layer p)\<rparr>))"

definition layer_filter_pin :: "string \<Rightarrow> (string \<Rightarrow> string) \<Rightarrow> alarm_pin option" where
  "layer_filter_pin txt canonical =
     (case parse_alarm_pin txt of None \<Rightarrow> None | Some p \<Rightarrow> Some (p\<lparr>pn_layer := canonical (pn_layer p)\<rparr>))"

record alarm_owner =
  ow_layer :: string
  ow_group :: string

text \<open>Whether a row with these layers and owners counts under a pin.\<close>

definition alarm_pin_matches :: "alarm_pin \<Rightarrow> string list \<Rightarrow> alarm_owner list \<Rightarrow> bool" where
  "alarm_pin_matches p layer_keys owners =
     (case pn_groups p of
        None \<Rightarrow> pn_layer p \<in> set layer_keys
      | Some gs \<Rightarrow> list_ex (\<lambda>o'. ow_layer o' = pn_layer p \<and> ow_group o' \<in> set gs) owners)"

subsection \<open>Pages\<close>

record stored_page =
  sp_id :: string
  sp_title :: "string option"
  sp_order :: nat
  sp_pins :: "alarm_pin list"
  sp_window :: "nat option"

record stored_pages =
  sg_unreachable :: bool
  sg_default :: "stored_page option"
  sg_pages :: "stored_page list"

definition empty_unreachable :: stored_pages where
  "empty_unreachable = \<lparr>sg_unreachable = True, sg_default = None, sg_pages = []\<rparr>"

definition canonical_pins :: "string list \<Rightarrow> alarm_pin list" where
  "canonical_pins texts = List.map_filter parse_canonical_alarm_pin texts"

text \<open>The order of two pages; negative when the first comes first.\<close>

definition compare_pages :: "(string \<Rightarrow> string \<Rightarrow> int) \<Rightarrow> stored_page \<Rightarrow> stored_page \<Rightarrow> int" where
  "compare_pages locale_compare a b =
     (if sp_order a \<noteq> sp_order b then int (sp_order a) - int (sp_order b)
      else (let by_title = locale_compare (or_empty (sp_title a)) (or_empty (sp_title b)) in
            if by_title \<noteq> 0 then by_title
            else if sp_id a < sp_id b then -1 else if sp_id b < sp_id a then 1 else 0))"

subsection \<open>Fitting a page to its reader\<close>

type_synonym pin_reach = "string \<Rightarrow> layer_reach option"

definition pin_reach_of :: "session_access option \<Rightarrow> pin_reach" where
  "pin_reach_of access layer =
     (case access of Some sa \<Rightarrow> on_layer_any sa [''alarms:read''] layer | None \<Rightarrow> Some whole_reach)"

definition narrow_pin :: "alarm_pin \<Rightarrow> layer_reach option \<Rightarrow> alarm_pin option" where
  "narrow_pin p reach =
     (case reach of
        None \<Rightarrow> None
      | Some r \<Rightarrow>
          if lr_whole r then Some p
          else (let groups = (case pn_groups p of
                                Some gs \<Rightarrow> filter (\<lambda>g. g \<in> set (lr_groups r)) gs
                              | None \<Rightarrow> sort (dedup (lr_groups r))) in
                if 0 < length groups then Some \<lparr>pn_layer = pn_layer p, pn_groups = Some groups\<rparr> else None))"

fun serve_pins :: "pin_reach \<Rightarrow> alarm_pin list \<Rightarrow> string list \<Rightarrow> alarm_pin list \<times> nat" where
  "serve_pins reach [] seen = ([], 0)"
| "serve_pins reach (p # ps) seen =
     (case narrow_pin p (reach (pn_layer p)) of
        None \<Rightarrow> (case serve_pins reach ps seen of (pins, hidden) \<Rightarrow> (pins, hidden + 1))
      | Some served \<Rightarrow>
          (let key = alarm_pin_key served in
           if key \<in> set seen then serve_pins reach ps seen
           else (case serve_pins reach ps (key # seen) of (pins, hidden) \<Rightarrow> (served # pins, hidden))))"

definition served_pins :: "stored_page \<Rightarrow> pin_reach \<Rightarrow> alarm_pin list \<times> nat" where
  "served_pins page reach = serve_pins reach (sp_pins page) []"

record page_view =
  vw_id :: string
  vw_title :: "string option"
  vw_pinned :: "string list"
  vw_hidden :: nat
  vw_window :: nat

definition view_of :: "stored_page \<Rightarrow> pin_reach \<Rightarrow> nat \<Rightarrow> page_view" where
  "view_of page reach fallback =
     (case served_pins page reach of
        (pins, hidden) \<Rightarrow>
          \<lparr>vw_id = sp_id page, vw_title = sp_title page, vw_pinned = map format_alarm_pin pins, vw_hidden = hidden,
            vw_window = (case sp_window page of Some w \<Rightarrow> w | None \<Rightarrow> fallback)\<rparr>)"

record pages_response =
  ps_unreachable :: bool
  ps_default :: "page_view option"
  ps_pages :: "page_view list"

definition alarm_pages_for :: "nat \<Rightarrow> stored_pages \<Rightarrow> pin_reach \<Rightarrow> pages_response" where
  "alarm_pages_for fallback_window stored reach =
     (let fallback = (case sg_default stored of
                        Some d \<Rightarrow> (case sp_window d of Some w \<Rightarrow> w | None \<Rightarrow> fallback_window)
                      | None \<Rightarrow> fallback_window) in
      \<lparr>ps_unreachable = sg_unreachable stored,
       ps_default = map_option (\<lambda>d. view_of d reach fallback) (sg_default stored),
       ps_pages = filter (\<lambda>v. 0 < length (vw_pinned v)) (map (\<lambda>p. view_of p reach fallback) (sg_pages stored))\<rparr>)"

definition named_page_pins :: "stored_pages \<Rightarrow> string \<Rightarrow> pin_reach \<Rightarrow> alarm_pin list option" where
  "named_page_pins stored page_id reach =
     (case find (\<lambda>p. sp_id p = page_id) (sg_pages stored) of
        None \<Rightarrow> None
      | Some page \<Rightarrow> (let pins = fst (served_pins page reach) in if 0 < length pins then Some pins else None))"

subsection \<open>What a pin covers\<close>

definition covers :: "alarm_pin \<Rightarrow> string \<Rightarrow> string \<Rightarrow> bool" where
  "covers p layer grp \<longleftrightarrow> pn_layer p = layer \<and> (case pn_groups p of None \<Rightarrow> True | Some gs \<Rightarrow> grp \<in> set gs)"

text \<open>What parsing guarantees of a pin, and a grant of the groups it reaches: no group has a comma, so that the key of a pin
  tells it from every other.\<close>

definition pin_ok :: "alarm_pin \<Rightarrow> bool" where
  "pin_ok p \<longleftrightarrow> CHR ''['' \<notin> set (pn_layer p) \<and>
     (case pn_groups p of None \<Rightarrow> True | Some gs \<Rightarrow> gs \<noteq> [] \<and> (\<forall>g \<in> set gs. CHR '','' \<notin> set g))"

lemma sort_Nil_iff: "sort xs = [] \<longleftrightarrow> xs = []" for xs :: "string list"
  by (metis set_empty set_sort)

lemma dedup_Nil_iff: "dedup xs = [] \<longleftrightarrow> xs = []"
  by (metis set_dedup set_empty)

lemma narrow_covers:
  "narrow_pin p r = Some s \<Longrightarrow> covers s layer grp \<longleftrightarrow> covers p layer grp \<and> takes_in r grp"
  "narrow_pin p r = None \<Longrightarrow> \<not> (covers p layer grp \<and> takes_in r grp)"
  by (auto simp: narrow_pin_def covers_def takes_in_def Let_def filter_empty_conv sort_Nil_iff dedup_Nil_iff split: option.splits if_splits)

lemma narrow_layer: "narrow_pin p r = Some s \<Longrightarrow> pn_layer s = pn_layer p"
  by (auto simp: narrow_pin_def Let_def split: option.splits if_splits)

lemma narrow_ok:
  assumes "pin_ok p" "narrow_pin p r = Some s" "\<And>x g. r = Some x \<Longrightarrow> g \<in> set (lr_groups x) \<Longrightarrow> CHR '','' \<notin> set g"
  shows "pin_ok s"
  using assms by (auto simp: narrow_pin_def pin_ok_def Let_def split: option.splits if_splits)

lemma split_at_bracket: "CHR ''['' \<notin> set a \<Longrightarrow> CHR ''['' \<notin> set b \<Longrightarrow> a @ CHR ''['' # x = b @ CHR ''['' # y \<Longrightarrow> a = b \<and> x = y"
  by (metis append_same_eq takeWhile_neq_append same_append_eq list.inject)

lemma key_covers:
  assumes "pin_ok p" "pin_ok q" "alarm_pin_key p = alarm_pin_key q"
  shows "covers p layer grp = covers q layer grp"
proof (cases "pn_groups p")
  case None
  then have "pn_groups q = None" using assms by (cases "pn_groups q") (auto simp: alarm_pin_key_def pin_ok_def)
  then show ?thesis using None assms(3) by (simp add: alarm_pin_key_def covers_def)
next
  case (Some gs)
  have "CHR ''['' \<in> set (alarm_pin_key q)" unfolding assms(3) [symmetric] using Some by (simp add: alarm_pin_key_def)
  then obtain hs where hs: "pn_groups q = Some hs" using assms(2) by (cases "pn_groups q") (auto simp: alarm_pin_key_def pin_ok_def)
  have eq: "pn_layer p @ CHR ''['' # join_with '','' (sort gs) @ '']'' = pn_layer q @ CHR ''['' # join_with '','' (sort hs) @ '']''"
    using assms(3) Some hs by (simp add: alarm_pin_key_def)
  have br: "CHR ''['' \<notin> set (pn_layer p)" "CHR ''['' \<notin> set (pn_layer q)" using assms(1,2) by (simp_all add: pin_ok_def)
  have layer: "pn_layer p = pn_layer q" and "join_with '','' (sort gs) = join_with '','' (sort hs)" using split_at_bracket [OF br eq] by auto
  moreover have "sort gs \<noteq> []" "sort hs \<noteq> []" "\<forall>g \<in> set (sort gs). CHR '','' \<notin> set g" "\<forall>g \<in> set (sort hs). CHR '','' \<notin> set g"
    using assms(1,2) Some hs by (auto simp: pin_ok_def sort_Nil_iff)
  ultimately have "sort gs = sort hs" by (metis split_on_join)
  then have "set gs = set hs" by (metis set_sort)
  then show ?thesis using layer Some hs by (simp add: covers_def)
qed

lemma serve_covers:
  assumes "\<forall>p \<in> set ps. pin_ok p" "\<And>l x g. reach l = Some x \<Longrightarrow> g \<in> set (lr_groups x) \<Longrightarrow> CHR '','' \<notin> set g"
  shows "(\<exists>s \<in> set (fst (serve_pins reach ps seen)). covers s layer grp) \<or>
      (\<exists>q. pin_ok q \<and> alarm_pin_key q \<in> set seen \<and> covers q layer grp) \<longleftrightarrow>
    (\<exists>p \<in> set ps. covers p layer grp) \<and> takes_in (reach layer) grp \<or>
      (\<exists>q. pin_ok q \<and> alarm_pin_key q \<in> set seen \<and> covers q layer grp)"
  using assms(1)
proof (induction ps arbitrary: seen)
  case (Cons p ps)
  have IH: "(\<exists>s \<in> set (fst (serve_pins reach ps seen)). covers s layer grp) \<or>
      (\<exists>q. pin_ok q \<and> alarm_pin_key q \<in> set seen \<and> covers q layer grp) \<longleftrightarrow>
    (\<exists>p \<in> set ps. covers p layer grp) \<and> takes_in (reach layer) grp \<or>
      (\<exists>q. pin_ok q \<and> alarm_pin_key q \<in> set seen \<and> covers q layer grp)" for seen using Cons by simp
  have layer: "covers p layer grp \<Longrightarrow> pn_layer p = layer" by (simp add: covers_def)
  show ?case
  proof (cases "narrow_pin p (reach (pn_layer p))")
    case None
    then have "\<not> (covers p layer grp \<and> takes_in (reach layer) grp)" using narrow_covers(2) layer by metis
    then show ?thesis using IH [of seen] None by (auto split: prod.split)
  next
    case (Some s)
    have sok: "pin_ok s" using narrow_ok [OF _ Some] Cons.prems assms(2) by simp
    have cov: "covers s layer grp \<longleftrightarrow> covers p layer grp \<and> takes_in (reach layer) grp"
      using narrow_covers(1) [OF Some] layer by metis
    show ?thesis
    proof (cases "alarm_pin_key s \<in> set seen")
      case True
      then have known: "covers s layer grp \<Longrightarrow> \<exists>q. pin_ok q \<and> alarm_pin_key q \<in> set seen \<and> covers q layer grp" using sok by blast
      have served: "serve_pins reach (p # ps) seen = serve_pins reach ps seen" using Some True by (simp add: Let_def)
      have ins: "(\<exists>x \<in> set (p # ps). covers x layer grp) \<longleftrightarrow> covers p layer grp \<or> (\<exists>x \<in> set ps. covers x layer grp)" by simp
      have merge: "(A \<or> K \<longleftrightarrow> B \<and> T \<or> K) \<Longrightarrow> (b \<Longrightarrow> K) \<Longrightarrow> (b \<longleftrightarrow> c \<and> T) \<Longrightarrow> A \<or> K \<longleftrightarrow> (c \<or> B) \<and> T \<or> K"
        for A b K B T c by blast
      show ?thesis unfolding served ins by (rule merge [OF IH [of seen] known cov])
    next
      case False
      have "pin_ok q \<Longrightarrow> alarm_pin_key q = alarm_pin_key s \<Longrightarrow> covers q layer grp = covers s layer grp" for q
        using key_covers sok by blast
      then have "(\<exists>q. pin_ok q \<and> alarm_pin_key q \<in> set (alarm_pin_key s # seen) \<and> covers q layer grp) \<longleftrightarrow>
          covers s layer grp \<or> (\<exists>q. pin_ok q \<and> alarm_pin_key q \<in> set seen \<and> covers q layer grp)"
        unfolding list.set insert_iff using sok by blast
      note known = this
      have served: "set (fst (serve_pins reach (p # ps) seen)) = insert s (set (fst (serve_pins reach ps (alarm_pin_key s # seen))))"
        using Some False by (simp add: Let_def split: prod.split)
      have ins: "(\<exists>x \<in> insert s S. covers x layer grp) \<longleftrightarrow> covers s layer grp \<or> (\<exists>x \<in> S. covers x layer grp)"
        "(\<exists>x \<in> set (p # ps). covers x layer grp) \<longleftrightarrow> covers p layer grp \<or> (\<exists>x \<in> set ps. covers x layer grp)" for S by simp_all
      have merge: "(A \<or> (b \<or> K) \<longleftrightarrow> B \<and> T \<or> (b \<or> K)) \<Longrightarrow> (b \<longleftrightarrow> c \<and> T) \<Longrightarrow> (b \<or> A) \<or> K \<longleftrightarrow> (c \<or> B) \<and> T \<or> K"
        for A b K B T c by blast
      show ?thesis unfolding served ins by (rule merge [OF IH [of "alarm_pin_key s # seen", unfolded known] cov])
    qed
  qed
qed simp


lemma strip_one_set: "strip_one forms s = Some t \<Longrightarrow> set t \<subseteq> set s"
  by (auto simp: strip_one_def split: if_splits dest!: first_some_Some_set in_set_dropD)

lemma strip_forms_set: "set (strip_forms forms s) \<subseteq> set s"
proof (induction forms s rule: strip_forms.induct)
  case (1 forms s)
  show ?case
  proof (cases "strip_one forms s")
    case (Some t)
    then show ?thesis using 1 strip_one_set [OF Some] by (simp add: strip_forms.simps [of forms s])
  qed (simp add: strip_forms.simps [of forms s])
qed

lemma js_trim_set: "set (js_trim s) \<subseteq> set s"
proof -
  have "set (trim_end x) \<subseteq> set x" for x
    using strip_forms_set [of "map rev ws_forms" "rev x"] by (simp add: trim_end_def)
  then show ?thesis using strip_forms_set [of ws_forms s] unfolding js_trim_def trim_start_def by blast
qed

lemma map_filter_in: "x \<in> set (List.map_filter f xs) \<Longrightarrow> \<exists>y \<in> set xs. f y = Some x"
  by (induction xs) (auto simp: List.map_filter_simps split: option.splits)

lemma parse_pin_facts:
  assumes "parse_alarm_pin txt = Some p"
  shows "list_all is_word_char (pn_layer p)" "pn_groups p = Some gs \<Longrightarrow> gs \<noteq> [] \<and> (\<forall>g \<in> set gs. CHR '','' \<notin> set g)"
proof -
  obtain w body where m: "match_qualifier (js_trim txt) = Some (w, body)" "pn_layer p = to_upper w"
    using assms by (auto simp: parse_alarm_pin_def Let_def split: option.splits if_splits)
  then show "list_all is_word_char (pn_layer p)"
    using match_qualifier_shape [OF m(1)] by (auto simp: list_all_iff to_upper_def upper_word)
  assume "pn_groups p = Some gs"
  then obtain b where gs: "gs = map (\<lambda>g. if g = ungrouped_pin then [] else g) (map js_trim (split_on CHR '','' b))"
    using assms m(1) by (auto simp: parse_alarm_pin_def Let_def split: option.splits if_splits)
  have "CHR '','' \<notin> set (js_trim g)" if "g \<in> set (split_on CHR '','' b)" for g
    using split_on_parts [OF that] js_trim_set [of g] by blast
  then show "gs \<noteq> [] \<and> (\<forall>g \<in> set gs. CHR '','' \<notin> set g)" unfolding gs by auto
qed

lemma canonical_pin_ok: "parse_canonical_alarm_pin txt = Some p \<Longrightarrow> pin_ok p"
proof -
  assume "parse_canonical_alarm_pin txt = Some p"
  then obtain q where q: "parse_alarm_pin txt = Some q" "p = q\<lparr>pn_layer := canonical_layer_key (pn_layer q)\<rparr>"
    by (auto simp: parse_canonical_alarm_pin_def split: option.splits)
  have "list_all is_word_char (to_upper (pn_layer q))"
    using parse_pin_facts(1) [OF q(1)] by (auto simp: list_all_iff to_upper_def upper_word)
  then have "CHR ''['' \<notin> set (to_upper (pn_layer q))" using not_word_bracket by (auto simp: list_all_iff)
  then have "CHR ''['' \<notin> set (canonical_layer_key (pn_layer q))"
    by (auto simp: canonical_layer_key_def layer_alias_def Let_def split: if_splits)
  then show "pin_ok p" using parse_pin_facts(2) [OF q(1)] q(2) by (auto simp: pin_ok_def split: option.split)
qed

text \<open>The groups of a reach are groups of grants, which have no comma either.\<close>

lemma grant_groups: "parse_grant g = Some p \<Longrightarrow> pg_qualifier p = Some q \<Longrightarrow> lq_groups q = Some gs \<Longrightarrow> x \<in> set gs \<Longrightarrow> CHR '','' \<notin> set x"
proof -
  assume a: "parse_grant g = Some p" "pg_qualifier p = Some q" "lq_groups q = Some gs" "x \<in> set gs"
  then obtain b where gs: "gs = map (\<lambda>g. if g = ungrouped_grant then [] else g) (map js_trim (split_on CHR '','' b))"
    by (auto simp: parse_grant_def Let_def split: option.splits if_splits)
  have "CHR '','' \<notin> set (js_trim g)" if "g \<in> set (split_on CHR '','' b)" for g
    using split_on_parts [OF that] js_trim_set [of g] by blast
  then show "CHR '','' \<notin> set x" using a(4) unfolding gs by auto
qed

lemma scan_groups:
  assumes "scan_grants ap qs acc = Some r" "x \<in> set (lr_groups r)"
  shows "(\<exists>a. acc = Some a \<and> x \<in> set a) \<or> (\<exists>q \<in> set qs. \<exists>lq gs. pg_qualifier q = Some lq \<and> lq_groups lq = Some gs \<and> x \<in> set gs)"
  using assms
proof (induction ap qs acc rule: scan_grants.induct)
  case (2 ap q qs acc)
  then show ?case by (fastforce simp: whole_reach_def split: if_splits option.splits)
qed (auto split: option.splits)

lemma merge_groups:
  assumes "merge_reach rs acc = Some r" "x \<in> set (lr_groups r)"
  shows "(\<exists>a. acc = Some a \<and> x \<in> set a) \<or> (\<exists>y. Some y \<in> set rs \<and> x \<in> set (lr_groups y))"
  using assms
proof (induction rs acc rule: merge_reach.induct)
  case (2 y rs acc)
  then show ?case by (fastforce simp: whole_reach_def split: if_splits option.splits)
qed (auto split: option.splits)

lemma reach_groups:
  assumes "on_layer_any (new_session_access grants cap facts) verbs layer = Some r" "x \<in> set (lr_groups r)"
  shows "CHR '','' \<notin> set x"
proof -
  obtain v y where y: "on_layer (new_session_access grants cap facts) v layer = Some y" "x \<in> set (lr_groups y)"
    using merge_groups [OF assms(1) [unfolded on_layer_any_def] assms(2)] by (auto simp del: merge_reach.simps) (metis)
  have "lr_groups whole_reach = []" by (simp add: whole_reach_def)
  then obtain ap where "scan_grants ap (qualified_grants grants) None = Some y"
    using y by (auto simp: on_layer_def new_session_access_def Let_def split: if_splits)
  from scan_groups [OF this y(2)] obtain q lq gs where q: "q \<in> set (qualified_grants grants)" "pg_qualifier q = Some lq" "lq_groups lq = Some gs" "x \<in> set gs"
    by auto
  then obtain g where "parse_grant g = Some q" by (auto simp: qualified_grants_def split: if_splits option.splits)
  then show ?thesis using grant_groups q(2-4) by blast
qed

text \<open>C22: A page shows each reader exactly what is theirs of it.  The pins served cover a service group of a layer precisely when
  some pin of the page covers it and the reader's grants of \<open>alarms:read\<close> reach it, whatever pins are narrowed, folded together
  or left out.\<close>

theorem pins_fit_reader:
  "(\<exists>p \<in> set (fst (served_pins (page\<lparr>sp_pins := canonical_pins texts\<rparr>) (pin_reach_of (Some (build_request_access cfg subject operate))))). covers p layer grp) \<longleftrightarrow>
   (\<exists>p \<in> set (canonical_pins texts). covers p layer grp) \<and>
   takes_in (on_layer_any (build_request_access cfg subject operate) [''alarms:read''] layer) grp"
proof -
  let ?reach = "pin_reach_of (Some (build_request_access cfg subject operate))"
  have pins: "\<forall>p \<in> set (canonical_pins texts). pin_ok p"
    using canonical_pin_ok unfolding canonical_pins_def by (blast dest: map_filter_in)
  have plain: "CHR '','' \<notin> set g" if "?reach l = Some x" "g \<in> set (lr_groups x)" for l x g
    using that reach_groups by (auto simp: pin_reach_of_def build_request_access_def)
  have reach: "?reach layer = on_layer_any (build_request_access cfg subject operate) [''alarms:read''] layer"
    by (simp add: pin_reach_of_def)
  have "(\<exists>s \<in> set (fst (serve_pins ?reach (canonical_pins texts) [])). covers s layer grp) \<longleftrightarrow>
      (\<exists>p \<in> set (canonical_pins texts). covers p layer grp) \<and> takes_in (?reach layer) grp"
    using serve_covers [OF pins plain, where seen = "[]" and layer = layer and grp = grp] by auto
  moreover have "sp_pins (page\<lparr>sp_pins := canonical_pins texts\<rparr>) = canonical_pins texts" by simp
  ultimately show ?thesis unfolding served_pins_def reach by simp
qed

text \<open>Lists and rows agree.  A named page lists its view exactly to the readers its alarms are served to, with the pins its
  alarms are filtered by.\<close>

lemma named_page_listed:
  assumes "find (\<lambda>p. sp_id p = page_id) (sg_pages stored) = Some page"
  shows "named_page_pins stored page_id reach = None \<longleftrightarrow> vw_pinned (view_of page reach fallback) = []"
    and "named_page_pins stored page_id reach = Some pins \<Longrightarrow> vw_pinned (view_of page reach fallback) = map format_alarm_pin pins"
  using assms by (auto simp: named_page_pins_def Let_def view_of_def split: prod.split if_splits)

end
