(* ===== verification/AlarmRows.thy ===== *)
theory AlarmRows
  imports AlarmPages
begin

text \<open>
  Which services an alarm concerns, and which alarms a reader sees: \<open>apps/bff/src/logic/alarms/owners.ts\<close> and
  \<open>readable.ts\<close>.  A request threads its memo, as in RequestAccess; \<^const>\<open>Unavailable\<close> is the thrown
  \<open>ServiceLookupUnavailable\<close>.
\<close>

subsection \<open>Whose an alarm is\<close>

record alarm_row =
  al_scope :: "string option"
  al_id :: string
  al_name :: string
  al_start :: int
  al_recovery :: "int option"
  al_rule :: "string option"

definition child_scopes :: "string list" where
  "child_scopes = [''ServiceInstance'', ''Endpoint'', ''ServiceInstanceRelation'', ''EndpointRelation'']"

definition relation_scopes :: "string list" where
  "relation_scopes = [''ServiceRelation'', ''ServiceInstanceRelation'', ''EndpointRelation'', ''ProcessRelation'']"

definition is_relation_alarm :: "alarm_row \<Rightarrow> bool" where
  "is_relation_alarm m = (case al_scope m of None \<Rightarrow> False | Some sc \<Rightarrow> sc \<in> set relation_scopes)"

definition alarm_source_id :: "alarm_row \<Rightarrow> string option" where
  "alarm_source_id m =
     (case al_scope m of
        None \<Rightarrow> None
      | Some sc \<Rightarrow>
          if sc = ''Service'' \<or> sc = ''ServiceRelation'' then Some (al_id m)
          else if sc \<in> set child_scopes then service_id_of_child (al_id m)
          else None)"

text \<open>An empty id is as good as none.\<close>

definition alarm_source :: "alarm_row \<Rightarrow> string option" where
  "alarm_source m = (case alarm_source_id m of Some sid \<Rightarrow> if sid = [] then None else Some sid | None \<Rightarrow> None)"

fun after_each :: "string \<Rightarrow> string \<Rightarrow> string list" where
  "after_each joiner [] = []"
| "after_each joiner (c # s) =
     (if prefix joiner (c # s) then drop (length joiner) (c # s) # after_each joiner s else after_each joiner s)"

definition joiner_of :: "string \<Rightarrow> string option" where
  "joiner_of sc =
     (if sc = ''ServiceInstanceRelation'' then Some '' of ''
      else if sc = ''EndpointRelation'' then Some '' in ''
      else None)"

definition alarm_destination_names :: "alarm_row \<Rightarrow> string list" where
  "alarm_destination_names m =
     (case (al_scope m, alarm_source m) of
        (Some sc, Some source) \<Rightarrow>
          (case service_name_of_id source of
             None \<Rightarrow> []
           | Some source_name \<Rightarrow>
               if sc = ''ServiceRelation'' then
                 (let pre = source_name @ '' to '' in
                  if prefix pre (al_name m) then [drop (length pre) (al_name m)] else [])
               else
                 (case joiner_of sc of
                    None \<Rightarrow> []
                  | Some joiner \<Rightarrow>
                      (let pre = utf8_decode (b64_decode (drop (length source + 1) (al_id m))) @ joiner @ source_name @ '' to '' in
                       if prefix pre (al_name m) then after_each joiner (drop (length pre) (al_name m)) else [])))
      | _ \<Rightarrow> [])"

definition alarm_destinations :: "alarm_row \<Rightarrow> service_index \<Rightarrow> service_identity list" where
  "alarm_destinations m ix =
     concat (map (\<lambda>name. case map_of (ix_by_name ix) name of Some ss \<Rightarrow> ss | None \<Rightarrow> []) (alarm_destination_names m))"

definition alarm_concerns_service :: "alarm_row \<Rightarrow> string \<Rightarrow> service_index \<Rightarrow> bool" where
  "alarm_concerns_service m sid ix =
     (if alarm_source_id m = Some sid then True
      else (let dests = alarm_destinations m ix in 0 < length dests \<and> list_all (\<lambda>d. si_id d = sid) dests))"

definition owned_keys :: "alarm_row \<Rightarrow> service_index \<Rightarrow> (service_identity \<Rightarrow> 'k list) \<Rightarrow> 'k list" where
  "owned_keys m ix keys_of =
     (let owner = (case alarm_source m of Some source \<Rightarrow> map_of (ix_by_id ix) source | None \<Rightarrow> None);
          own = (case owner of Some s \<Rightarrow> keys_of s | None \<Rightarrow> []);
          far = (case alarm_destinations m ix of
                   [] \<Rightarrow> []
                 | dest # others \<Rightarrow> filter (\<lambda>k. list_all (\<lambda>s. k \<in> set (keys_of s)) others) (keys_of dest)) in
      dedup (own @ far))"

definition alarm_layers :: "alarm_row \<Rightarrow> service_index \<Rightarrow> string list" where
  "alarm_layers m ix = owned_keys m ix si_layers"

definition alarm_owners :: "alarm_row \<Rightarrow> service_index \<Rightarrow> alarm_owner list" where
  "alarm_owners m ix = owned_keys m ix (\<lambda>s. map (\<lambda>layer. \<lparr>ow_layer = layer, ow_group = si_group s\<rparr>) (si_layers s))"

definition alarm_incident_key :: "alarm_row \<Rightarrow> string" where
  "alarm_incident_key m = join_with ''|'' [or_empty (al_scope m), al_id m, al_name m, or_empty (al_rule m)]"

subsection \<open>Who sees it\<close>

definition alarm_verbs :: "verb list" where "alarm_verbs = [''alarms:read'']"

definition reads_every_alarm :: "session_access \<Rightarrow> bool" where
  "reads_every_alarm sa = reads_every_layer sa alarm_verbs"

record row_state =
  ra_decided :: "(string, decision) jsmap"
  ra_request :: request_state

definition row_readable :: "oap_world \<Rightarrow> nat \<Rightarrow> session_access \<Rightarrow> string \<Rightarrow> row_state \<Rightarrow> bool lookup \<times> row_state" where
  "row_readable oap now sa sid st =
     (case (case map_of (ra_decided st) sid of
              Some d \<Rightarrow> (d, st)
            | None \<Rightarrow>
                (case decide oap now sa alarm_verbs (ById sid) (ra_request st) of
                   (d, rq) \<Rightarrow> (d, \<lparr>ra_decided = map_put sid d (ra_decided st), ra_request = rq\<rparr>))) of
        (answer, st') \<Rightarrow> (if answer = Outage then Unavailable else Settled (answer = Allow), st'))"

fun find_dests :: "oap_world \<Rightarrow> nat \<Rightarrow> string list \<Rightarrow> request_state \<Rightarrow> service_identity list lookup \<times> request_state" where
  "find_dests oap now [] rq = (Settled [], rq)"
| "find_dests oap now (name # names) rq =
     (case resolve_ref oap now (ByName name None) rq of
        (ResUnavailable, rq') \<Rightarrow> (Unavailable, rq')
      | (r, rq') \<Rightarrow>
          (case find_dests oap now names rq' of
             (Unavailable, rq'') \<Rightarrow> (Unavailable, rq'')
           | (Settled ds, rq'') \<Rightarrow> (Settled (case r of ResFound ss \<Rightarrow> ss @ ds | _ \<Rightarrow> ds), rq'')))"

definition row_keeps :: "oap_world \<Rightarrow> nat \<Rightarrow> session_access \<Rightarrow> alarm_row \<Rightarrow> row_state \<Rightarrow> bool lookup \<times> row_state" where
  "row_keeps oap now sa m st =
     (if reads_every_alarm sa then (Settled True, st)
      else
        (case alarm_source m of
           None \<Rightarrow> (Settled (\<not> all_layer_limited sa alarm_verbs), st)
         | Some source \<Rightarrow>
             (case row_readable oap now sa source st of
                (Unavailable, st') \<Rightarrow> (Unavailable, st')
              | (Settled True, st') \<Rightarrow> (Settled True, st')
              | (Settled False, st') \<Rightarrow>
                  if \<not> is_relation_alarm m then (Settled False, st')
                  else
                    (case find_dests oap now (alarm_destination_names m) (ra_request st') of
                       (Unavailable, rq) \<Rightarrow> (Unavailable, st'\<lparr>ra_request := rq\<rparr>)
                     | (Settled dests, rq) \<Rightarrow>
                         (Settled (0 < length dests \<and> list_all (allows_resolved sa alarm_verbs) dests), st'\<lparr>ra_request := rq\<rparr>)))))"

text \<open>The names of the relations whose source does not decide them.\<close>

fun undecided_names :: "oap_world \<Rightarrow> nat \<Rightarrow> session_access \<Rightarrow> alarm_row list \<Rightarrow> row_state \<Rightarrow> string list lookup \<times> row_state" where
  "undecided_names oap now sa [] st = (Settled [], st)"
| "undecided_names oap now sa (m # rows) st =
     (case alarm_source m of
        None \<Rightarrow> undecided_names oap now sa rows st
      | Some source \<Rightarrow>
          if \<not> is_relation_alarm m then undecided_names oap now sa rows st
          else
            (case row_readable oap now sa source st of
               (Unavailable, st') \<Rightarrow> (Unavailable, st')
             | (Settled True, st') \<Rightarrow> undecided_names oap now sa rows st'
             | (Settled False, st') \<Rightarrow>
                 (case undecided_names oap now sa rows st' of
                    (Unavailable, st'') \<Rightarrow> (Unavailable, st'')
                  | (Settled names, st'') \<Rightarrow> (Settled (alarm_destination_names m @ names), st''))))"

definition prefetch_rows :: "oap_world \<Rightarrow> nat \<Rightarrow> session_access \<Rightarrow> alarm_row list \<Rightarrow> row_state \<Rightarrow> unit lookup \<times> row_state" where
  "prefetch_rows oap now sa rows st =
     (let sources = dedup (List.map_filter alarm_source rows);
          st1 = st\<lparr>ra_request := prefetch_refs oap now (map ById sources) (ra_request st)\<rparr> in
      case undecided_names oap now sa rows st1 of
        (Unavailable, st2) \<Rightarrow> (Unavailable, st2)
      | (Settled names, st2) \<Rightarrow>
          (Settled (), st2\<lparr>ra_request := prefetch_refs oap now (map (\<lambda>n. ByName n None) (dedup names)) (ra_request st2)\<rparr>))"

fun decide_each ::
  "oap_world \<Rightarrow> nat \<Rightarrow> session_access \<Rightarrow> (alarm_row \<Rightarrow> bool) \<Rightarrow> alarm_row list \<Rightarrow> row_state \<Rightarrow>
   (alarm_row \<times> bool) list lookup \<times> row_state" where
  "decide_each oap now sa on_list [] st = (Settled [], st)"
| "decide_each oap now sa on_list (row # rows) st =
     (case (if on_list row then row_keeps oap now sa row st else (Settled False, st)) of
        (Unavailable, st') \<Rightarrow> (Unavailable, st')
      | (Settled kept, st') \<Rightarrow>
          (case decide_each oap now sa on_list rows st' of
             (Unavailable, st'') \<Rightarrow> (Unavailable, st'')
           | (Settled ds, st'') \<Rightarrow> (Settled ((row, kept) # ds), st'')))"

definition decide_rows ::
  "oap_world \<Rightarrow> nat \<Rightarrow> session_access \<Rightarrow> (alarm_row \<Rightarrow> bool) \<Rightarrow> alarm_row list \<Rightarrow> row_state \<Rightarrow>
   (alarm_row \<times> bool) list lookup \<times> row_state" where
  "decide_rows oap now sa on_list rows st =
     (if reads_every_alarm sa then decide_each oap now sa on_list rows st
      else
        (case prefetch_rows oap now sa (filter on_list rows) st of
           (Unavailable, st') \<Rightarrow> (Unavailable, st')
         | (Settled _, st') \<Rightarrow> decide_each oap now sa on_list rows st'))"

subsection \<open>What seeing a row means\<close>

text \<open>The rule of \<open>readable.ts\<close> over what a request has settled.\<close>

definition row_visible :: "session_access \<Rightarrow> (service_ref, resolution) jsmap \<Rightarrow> alarm_row \<Rightarrow> bool" where
  "row_visible sa memo m \<longleftrightarrow>
     reads_every_alarm sa \<or>
     (case alarm_source m of
        None \<Rightarrow> \<not> all_layer_limited sa alarm_verbs
      | Some source \<Rightarrow>
          (\<exists>r. map_of memo (ById source) = Some r \<and> decision_of sa alarm_verbs r = Allow) \<or>
          is_relation_alarm m \<and>
            (\<forall>name \<in> set (alarm_destination_names m). \<exists>r. map_of memo (ByName name None) = Some r \<and> r \<noteq> ResUnavailable) \<and>
            (let dests = concat (map (\<lambda>name. case map_of memo (ByName name None) of Some (ResFound ss) \<Rightarrow> ss | _ \<Rightarrow> [])
                           (alarm_destination_names m)) in
             dests \<noteq> [] \<and> (\<forall>d \<in> set dests. allows_resolved sa alarm_verbs d)))"

definition row_state_ok :: "session_access \<Rightarrow> row_state \<Rightarrow> bool" where
  "row_state_ok sa st \<longleftrightarrow>
     (\<forall>sid d. map_of (ra_decided st) sid = Some d \<longrightarrow>
        (\<exists>r. map_of (rq_resolved (ra_request st)) (ById sid) = Some r \<and> d = decision_of sa alarm_verbs r))"

lemma row_state_ok_extends:
  "row_state_ok sa st \<Longrightarrow> memo_extends (ra_request st) rq \<Longrightarrow> row_state_ok sa (st\<lparr>ra_request := rq\<rparr>)"
  by (fastforce simp: row_state_ok_def memo_extends_def)

lemma prefetch_extends [simp]: "memo_extends rq (prefetch_refs oap now refs rq)"
  by (simp add: memo_extends_def)

lemma row_readable_memo:
  assumes "row_readable oap now sa sid st = (a, st')" "row_state_ok sa st"
  shows "memo_extends (ra_request st) (ra_request st') \<and> row_state_ok sa st' \<and>
    (\<exists>r. map_of (rq_resolved (ra_request st')) (ById sid) = Some r \<and>
       a = (if r = ResUnavailable then Unavailable else Settled (decision_of sa alarm_verbs r = Allow)))"
proof (cases "map_of (ra_decided st) sid")
  case None
  obtain d rq where d: "decide oap now sa alarm_verbs (ById sid) (ra_request st) = (d, rq)"
    by (cases "decide oap now sa alarm_verbs (ById sid) (ra_request st)")
  note m = decide_memo [OF d]
  have st': "st' = \<lparr>ra_decided = map_put sid d (ra_decided st), ra_request = rq\<rparr>"
    "a = (if d = Outage then Unavailable else Settled (d = Allow))"
    using assms(1) None d by (simp_all add: row_readable_def)
  have "row_state_ok sa st'"
    using assms(2) m unfolding st'(1) by (fastforce simp: row_state_ok_def memo_extends_def map_of_map_put)
  then show ?thesis using m st' decision_outage_iff by auto
next
  case (Some d)
  then show ?thesis using assms decision_outage_iff by (fastforce simp: row_readable_def row_state_ok_def)
qed

lemma find_dests_memo:
  "find_dests oap now names rq = (a, rq') \<Longrightarrow> memo_extends rq rq' \<and>
   (a \<noteq> Unavailable \<longrightarrow> (\<forall>n \<in> set names. \<exists>r. map_of (rq_resolved rq') (ByName n None) = Some r \<and> r \<noteq> ResUnavailable) \<and>
      a = Settled (concat (map (\<lambda>n. case map_of (rq_resolved rq') (ByName n None) of Some (ResFound ss) \<Rightarrow> ss | _ \<Rightarrow> []) names)))"
proof (induction names arbitrary: rq a rq')
  case (Cons n names)
  obtain r rq1 where r: "resolve_ref oap now (ByName n None) rq = (r, rq1)" by (cases "resolve_ref oap now (ByName n None) rq")
  obtain b rq2 where b: "find_dests oap now names rq1 = (b, rq2)" by (cases "find_dests oap now names rq1")
  note m = resolve_memo [OF r] and IH = Cons.IH [OF b]
  show ?case
  proof (cases "r = ResUnavailable")
    case True
    then show ?thesis using Cons.prems r m by auto
  next
    case False
    then have a: "rq' = rq2" "a = (case b of Unavailable \<Rightarrow> Unavailable | Settled ds \<Rightarrow> Settled (case r of ResFound ss \<Rightarrow> ss @ ds | _ \<Rightarrow> ds))"
      using Cons.prems r b by (auto split: resolution.splits lookup.splits)
    have "memo_extends rq rq2" using m IH memo_extends_trans by blast
    moreover have "map_of (rq_resolved rq2) (ByName n None) = Some r" using m IH by (simp add: memo_extends_def)
    ultimately show ?thesis using a IH False by (auto split: lookup.splits resolution.splits)
  qed
qed simp

lemma row_keeps_visible:
  assumes "row_keeps oap now sa m st = (a, st')" "row_state_ok sa st"
  shows "memo_extends (ra_request st) (ra_request st') \<and> row_state_ok sa st' \<and>
    (\<forall>k rq. a = Settled k \<longrightarrow> memo_extends (ra_request st') rq \<longrightarrow> k = row_visible sa (rq_resolved rq) m)"
proof (cases "reads_every_alarm sa \<or> alarm_source m = None")
  case True
  then show ?thesis using assms by (auto simp: row_keeps_def row_visible_def split: if_splits option.splits)
next
  case False
  then obtain source where source: "alarm_source m = Some source" "\<not> reads_every_alarm sa" by auto
  obtain b st1 where b: "row_readable oap now sa source st = (b, st1)" by (cases "row_readable oap now sa source st")
  obtain r where r: "memo_extends (ra_request st) (ra_request st1)" "row_state_ok sa st1"
    "map_of (rq_resolved (ra_request st1)) (ById source) = Some r"
    "b = (if r = ResUnavailable then Unavailable else Settled (decision_of sa alarm_verbs r = Allow))"
    using row_readable_memo [OF b assms(2)] by blast
  have known: "map_of (rq_resolved rq) (ById source) = Some r" if "memo_extends (ra_request st1) rq" for rq
    using r(3) that by (simp add: memo_extends_def)
  show ?thesis
  proof (cases "b = Settled False \<and> is_relation_alarm m")
    case False
    then show ?thesis
      using assms(1) b source r(1,2,4) known
      by (auto simp: row_keeps_def row_visible_def split: lookup.splits bool.splits if_splits)
  next
    case True
    let ?names = "alarm_destination_names m"
    obtain c rq1 where c: "find_dests oap now ?names (ra_request st1) = (c, rq1)" by (cases "find_dests oap now ?names (ra_request st1)")
    have st': "st' = st1\<lparr>ra_request := rq1\<rparr>"
      "a = (case c of Unavailable \<Rightarrow> Unavailable | Settled ds \<Rightarrow> Settled (0 < length ds \<and> list_all (allows_resolved sa alarm_verbs) ds))"
      using assms(1) source b c True by (auto simp: row_keeps_def split: lookup.splits)
    note f = find_dests_memo [OF c]
    have "k = row_visible sa (rq_resolved rq) m" if "a = Settled k" "memo_extends rq1 rq" for k rq
    proof -
      let ?at = "\<lambda>q n. case map_of (rq_resolved q) (ByName n None) of Some (ResFound ss) \<Rightarrow> ss | _ \<Rightarrow> []"
      have cs: "c = Settled (concat (map (?at rq1) ?names))" "\<forall>n \<in> set ?names. \<exists>r. map_of (rq_resolved rq1) (ByName n None) = Some r \<and> r \<noteq> ResUnavailable"
        using f that(1) st'(2) by (auto split: lookup.splits)
      then have settled: "\<forall>n \<in> set ?names. \<exists>r. map_of (rq_resolved rq) (ByName n None) = Some r \<and> r \<noteq> ResUnavailable"
        using that(2) unfolding memo_extends_def by blast
      have same: "map (?at rq) ?names = map (?at rq1) ?names"
        using cs(2) that(2) by (fastforce simp: memo_extends_def intro!: map_cong)
      have "decision_of sa alarm_verbs r \<noteq> Allow" using True r(4) by (auto split: if_splits)
      moreover have "map_of (rq_resolved rq) (ById source) = Some r"
        using known f that(2) memo_extends_trans by blast
      ultimately show ?thesis using that(1) st'(2) cs(1) True source settled
        by (simp add: row_visible_def same list_all_iff)
    qed
    then show ?thesis using st' f r(1,2) row_state_ok_extends memo_extends_trans by auto
  qed
qed

lemma undecided_names_memo:
  "undecided_names oap now sa rows st = (a, st') \<Longrightarrow> row_state_ok sa st \<Longrightarrow>
   memo_extends (ra_request st) (ra_request st') \<and> row_state_ok sa st'"
proof (induction rows arbitrary: st a st')
  case (Cons m rows)
  show ?case
  proof (cases "alarm_source m = None \<or> \<not> is_relation_alarm m")
    case True
    then have "undecided_names oap now sa rows st = (a, st')" using Cons.prems(1) by (auto split: option.splits)
    then show ?thesis using Cons by blast
  next
    case False
    then obtain source where source: "alarm_source m = Some source" "is_relation_alarm m" by auto
    obtain b st1 where b: "row_readable oap now sa source st = (b, st1)" by (cases "row_readable oap now sa source st")
    have one: "memo_extends (ra_request st) (ra_request st1)" "row_state_ok sa st1"
      using row_readable_memo [OF b Cons.prems(2)] by blast+
    obtain c st2 where c: "undecided_names oap now sa rows st1 = (c, st2)" by (cases "undecided_names oap now sa rows st1")
    have "st' = st1 \<or> st' = st2" using Cons.prems(1) source b c by (auto split: lookup.splits bool.splits)
    then show ?thesis using one Cons.IH [OF c one(2)] memo_extends_trans by blast
  qed
qed simp

lemma prefetch_rows_memo:
  assumes "prefetch_rows oap now sa rows st = (a, st')" "row_state_ok sa st"
  shows "memo_extends (ra_request st) (ra_request st') \<and> row_state_ok sa st'"
proof -
  let ?st1 = "st\<lparr>ra_request := prefetch_refs oap now (map ById (dedup (List.map_filter alarm_source rows))) (ra_request st)\<rparr>"
  obtain b st2 where b: "undecided_names oap now sa rows ?st1 = (b, st2)" by (cases "undecided_names oap now sa rows ?st1")
  have "row_state_ok sa ?st1" using assms(2) by (rule row_state_ok_extends) simp
  from undecided_names_memo [OF b this] have two: "memo_extends (ra_request st) (ra_request st2)" "row_state_ok sa st2"
    by (auto simp: memo_extends_def)
  have "st' = st2 \<or> (\<exists>refs. st' = st2\<lparr>ra_request := prefetch_refs oap now refs (ra_request st2)\<rparr>)"
    using assms(1) b by (auto simp: prefetch_rows_def Let_def split: lookup.splits)
  then show ?thesis using two row_state_ok_extends [OF two(2)] by (auto simp: memo_extends_def)
qed

lemma decide_each_visible:
  "decide_each oap now sa on_list rows st = (a, st') \<Longrightarrow> row_state_ok sa st \<Longrightarrow>
   memo_extends (ra_request st) (ra_request st') \<and> row_state_ok sa st' \<and>
   (\<forall>ds rq. a = Settled ds \<longrightarrow> memo_extends (ra_request st') rq \<longrightarrow>
      ds = map (\<lambda>row. (row, on_list row \<and> row_visible sa (rq_resolved rq) row)) rows)"
proof (induction rows arbitrary: st a st')
  case (Cons row rows)
  let ?one = "if on_list row then row_keeps oap now sa row st else (Settled False, st)"
  obtain k st1 where k: "?one = (k, st1)" by (cases ?one)
  have one: "memo_extends (ra_request st) (ra_request st1) \<and> row_state_ok sa st1 \<and>
    (\<forall>x rq. k = Settled x \<longrightarrow> memo_extends (ra_request st1) rq \<longrightarrow> x = (on_list row \<and> row_visible sa (rq_resolved rq) row))"
  proof (cases "on_list row")
    case True
    then show ?thesis using row_keeps_visible [OF _ Cons.prems(2), of oap now row k st1] k by simp
  qed (use k Cons.prems(2) in auto)
  obtain c st2 where c: "decide_each oap now sa on_list rows st1 = (c, st2)" by (cases "decide_each oap now sa on_list rows st1")
  have IH: "memo_extends (ra_request st1) (ra_request st2) \<and> row_state_ok sa st2 \<and>
    (\<forall>ds rq. c = Settled ds \<longrightarrow> memo_extends (ra_request st2) rq \<longrightarrow>
      ds = map (\<lambda>row. (row, on_list row \<and> row_visible sa (rq_resolved rq) row)) rows)"
    using Cons.IH [OF c] one by blast
  show ?case
  proof (cases k)
    case Unavailable
    then have "a = Unavailable" "st' = st1" using Cons.prems(1) k by auto
    then show ?thesis using one by simp
  next
    case (Settled x)
    then have a: "st' = st2" "a = (case c of Unavailable \<Rightarrow> Unavailable | Settled ds \<Rightarrow> Settled ((row, x) # ds))"
      using Cons.prems(1) k c by (auto split: lookup.splits)
    have "memo_extends (ra_request st) (ra_request st2)" using one IH memo_extends_trans by blast
    moreover have "ds = map (\<lambda>row. (row, on_list row \<and> row_visible sa (rq_resolved rq) row)) (row # rows)"
      if ds: "a = Settled ds" and rq: "memo_extends (ra_request st2) rq" for ds rq
    proof -
      have "memo_extends (ra_request st1) rq" using IH rq memo_extends_trans by blast
      then have "x = (on_list row \<and> row_visible sa (rq_resolved rq) row)" using one Settled by blast
      moreover obtain rest where "c = Settled rest" "ds = (row, x) # rest"
        using a(2) unfolding ds by (auto split: lookup.splits)
      ultimately show ?thesis using IH rq by simp
    qed
    ultimately show ?thesis using IH a(1) by simp
  qed
qed simp

subsection \<open>The ends of a relation\<close>

lemma after_each_true: "joiner \<noteq> [] \<Longrightarrow> b \<in> set (after_each joiner (a @ joiner @ b))"
proof (induction a)
  case Nil
  then obtain c s where "joiner = c # s" by (cases joiner) auto
  then show ?case by simp
qed auto

text \<open>How OAP writes a relation alarm, as the code documents it: the id is the source's own, and the name says both ends.\<close>

definition oap_relation :: "alarm_row \<Rightarrow> string \<Rightarrow> bool \<Rightarrow> string \<Rightarrow> bool" where
  "oap_relation m src normal dst \<longleftrightarrow>
     al_scope m = Some ''ServiceRelation'' \<and> al_id m = service_id_of src normal \<and> al_name m = src @ '' to '' @ dst \<or>
     (\<exists>sc joiner here there. al_scope m = Some sc \<and> joiner_of sc = Some joiner \<and> well_formed here \<and>
        al_id m = service_id_of src normal @ ''_'' @ b64_encode (utf8_encode here) \<and>
        al_name m = here @ joiner @ src @ '' to '' @ there @ joiner @ dst)"

lemma true_destination:
  assumes "oap_relation m src normal dst" "well_formed src" "\<not> is_blank_to_oap src"
  shows "alarm_source m = Some (service_id_of src normal)" "dst \<in> set (alarm_destination_names m)" "is_relation_alarm m"
proof -
  have id: "service_name_of_id (service_id_of src normal) = Some src" "CHR ''_'' \<notin> set (service_id_of src normal)"
    "service_id_of src normal \<noteq> []"
    using service_id_facts [OF assms(2)] assms(3) by (simp_all add: entity_service_name_def)
  have "alarm_source m = Some (service_id_of src normal) \<and> dst \<in> set (alarm_destination_names m) \<and> is_relation_alarm m"
  proof (cases "al_scope m = Some ''ServiceRelation''")
    case True
    then have "al_id m = service_id_of src normal" "al_name m = (src @ '' to '') @ dst"
      using assms(1) by (auto simp: oap_relation_def joiner_of_def)
    moreover from this True id(3) have "alarm_source m = Some (service_id_of src normal)"
      by (simp add: alarm_source_def alarm_source_id_def)
    ultimately show ?thesis using True id(1)
      by (simp add: alarm_destination_names_def is_relation_alarm_def relation_scopes_def Let_def)
  next
    case False
    then obtain sc joiner here there where row: "al_scope m = Some sc" "joiner_of sc = Some joiner" "well_formed here"
      "al_id m = service_id_of src normal @ ''_'' @ b64_encode (utf8_encode here)"
      "al_name m = (here @ joiner @ src @ '' to '') @ there @ joiner @ dst"
      using assms(1) by (auto simp: oap_relation_def)
    have sc: "sc \<in> {''ServiceInstanceRelation'', ''EndpointRelation''}" "joiner \<noteq> []"
      using row(2) by (auto simp: joiner_of_def split: if_splits)
    have "service_id_of_child (al_id m) = Some (service_id_of src normal)"
      unfolding row(4) by (rule child_owner [OF id(2,3)])
    then have source: "alarm_source m = Some (service_id_of src normal)"
      using row(1) sc(1) id(3) by (auto simp: alarm_source_def alarm_source_id_def child_scopes_def)
    have "utf8_decode (b64_decode (drop (length (service_id_of src normal) + 1) (al_id m))) = here"
      using row(3) by (simp add: row(4) utf8_encode_id utf8_decode_id)
    then have "alarm_destination_names m = after_each joiner (there @ joiner @ dst)"
      using row(1,2,5) source id(1) sc(1) by (auto simp: alarm_destination_names_def Let_def)
    then show ?thesis using after_each_true [OF sc(2)] source row(1) sc(1)
      by (auto simp: is_relation_alarm_def relation_scopes_def)
  qed
  then show "alarm_source m = Some (service_id_of src normal)" "dst \<in> set (alarm_destination_names m)" "is_relation_alarm m"
    by simp_all
qed

lemma alarm_rows_kept:
  assumes "decide_rows oap now sa on_list rows st = (Settled ds, st')" "row_state_ok sa st"
  shows "ds = map (\<lambda>row. (row, on_list row \<and> row_visible sa (rq_resolved (ra_request st')) row)) rows \<and>
    row_state_ok sa st' \<and> memo_extends (ra_request st) (ra_request st')"
proof (cases "reads_every_alarm sa")
  case True
  then show ?thesis using decide_each_visible [of oap now sa on_list rows st "Settled ds" st'] assms
    by (simp add: decide_rows_def)
next
  case False
  then obtain u st1 where p: "prefetch_rows oap now sa (filter on_list rows) st = (u, st1)" "decide_each oap now sa on_list rows st1 = (Settled ds, st')"
    using assms(1) by (auto simp: decide_rows_def split: prod.splits lookup.splits)
  note one = prefetch_rows_memo [OF p(1) assms(2)]
  show ?thesis using decide_each_visible [OF p(2)] one memo_extends_trans by auto
qed

text \<open>C12: The rows of a read are decided as one.  The rows come back in their order, none added or lost, each marked by the one
  rule over what the request settled: it is on the list, and the reader reads every alarm, or reads its source, or, where it is a
  relation, reads every service its destination could be; an alarm of no service is for those who hold the verb on no layer.
  Whatever is decided or fetched early on does not change any answer.\<close>

theorem alarm_rows_decided:
  assumes "decide_rows oap now sa on_list rows st = (Settled ds, st')" "row_state_ok sa st"
  shows "ds = map (\<lambda>row. (row, on_list row \<and> row_visible sa (rq_resolved (ra_request st')) row)) rows \<and>
    row_state_ok sa st' \<and> memo_extends (ra_request st) (ra_request st')"
  by (rule alarm_rows_kept [OF assms])

text \<open>C21: A relation alarm is shown to a reader of one of its ends.  Where OAP names the ends as it documents, a reader who does not
  read every alarm is shown the row only if the request lets them read its source, or settled what the name of the
  destination means and lets them read every service of that name.\<close>

theorem relation_shown_to_an_end:
  assumes "decide_rows oap now sa on_list rows st = (Settled ds, st')" "row_state_ok sa st" "(row, True) \<in> set ds"
    and "oap_relation row src normal dst" "well_formed src" "\<not> is_blank_to_oap src" "\<not> reads_every_alarm sa"
  shows "fst (decide oap' now' sa alarm_verbs (ById (service_id_of src normal)) (ra_request st')) = Allow \<or>
    (\<exists>r. map_of (rq_resolved (ra_request st')) (ByName dst None) = Some r \<and> r \<noteq> ResUnavailable \<and>
       (\<forall>ss s. r = ResFound ss \<longrightarrow> s \<in> set ss \<longrightarrow> allows_resolved sa alarm_verbs s))"
proof -
  have "row_visible sa (rq_resolved (ra_request st')) row"
    using assms(3) alarm_rows_kept [OF assms(1,2)] by auto
  note visible = this [unfolded row_visible_def true_destination(1) [OF assms(4-6)]]
  show ?thesis
  proof (cases "\<exists>r. map_of (rq_resolved (ra_request st')) (ById (service_id_of src normal)) = Some r \<and> decision_of sa alarm_verbs r = Allow")
    case True
    then show ?thesis using decide_known by fastforce
  next
    case False
    obtain r where r: "map_of (rq_resolved (ra_request st')) (ByName dst None) = Some r" "r \<noteq> ResUnavailable"
      using visible False assms(7) true_destination(2) [OF assms(4-6)] by auto
    have "allows_resolved sa alarm_verbs s" if "r = ResFound ss" "s \<in> set ss" for ss s
      using visible False assms(7) true_destination(2) [OF assms(4-6)] r(1) that by (fastforce simp: Let_def)
    then show ?thesis using r by blast
  qed
qed

subsection \<open>Pins and rows\<close>

text \<open>A pin with groups shows no row that the pin of the whole layer does not.\<close>

lemma owned_layers:
  assumes "ow \<in> set (alarm_owners m ix)"
  shows "ow_layer ow \<in> set (alarm_layers m ix)"
proof (cases "alarm_destinations m ix")
  case Nil
  then show ?thesis using assms by (auto simp: alarm_owners_def alarm_layers_def owned_keys_def Let_def split: option.splits)
next
  case (Cons dest others)
  then show ?thesis using assms
    by (fastforce simp: alarm_owners_def alarm_layers_def owned_keys_def Let_def list_all_iff split: option.splits)
qed

lemma group_pin_narrows:
  "alarm_pin_matches \<lparr>pn_layer = layer, pn_groups = Some gs\<rparr> (alarm_layers m ix) (alarm_owners m ix) \<Longrightarrow>
   alarm_pin_matches \<lparr>pn_layer = layer, pn_groups = None\<rparr> (alarm_layers m ix) (alarm_owners m ix)"
  using owned_layers by (force simp: alarm_pin_matches_def list_ex_iff)

subsection \<open>Samples\<close>

definition sample_relation :: alarm_row where
  "sample_relation = \<lparr>al_scope = Some ''ServiceRelation'', al_id = service_id_of ''cart'' True, al_name = ''cart to pay'',
     al_start = 5, al_recovery = None, al_rule = None\<rparr>"

definition sample_reader :: session_access where
  "sample_reader = new_session_access [''alarms:read''] None (code_facts (\<lambda>l. False))"

definition sample_row_state :: "resolver \<Rightarrow> row_state" where
  "sample_row_state rv =
     \<lparr>ra_decided = [], ra_request = \<lparr>rq_resolved = [(ById (service_id_of ''cart'' True), ResUnknown)], rq_resolver = rv\<rparr>\<rparr>"

lemma sample_facts:
  "\<not> reads_every_alarm sample_reader" "decision_of sample_reader alarm_verbs ResUnknown = Allow"
  "well_formed ''cart''" "\<not> is_blank_to_oap ''cart''"
  by code_simp+

lemma sample_state_ok: "row_state_ok sample_reader (sample_row_state rv)"
  by (simp add: row_state_ok_def sample_row_state_def)

lemma sample_oap: "oap_relation sample_relation ''cart'' True ''pay''"
  by (simp add: oap_relation_def sample_relation_def)

lemma sample_decided:
  "on_list sample_relation \<Longrightarrow> \<exists>st'. decide_rows oap now sample_reader on_list [sample_relation] (sample_row_state rv) = (Settled [(sample_relation, True)], st')"
proof -
  note source = true_destination(1,3) [OF sample_oap sample_facts(3,4)]
  have known: "row_readable oap now sample_reader (service_id_of ''cart'' True) st =
      (Settled True, st\<lparr>ra_decided := [(service_id_of ''cart'' True, Allow)]\<rparr>)"
    if "ra_decided st = []" "map_of (rq_resolved (ra_request st)) (ById (service_id_of ''cart'' True)) = Some ResUnknown" for st
    using that sample_facts(2) by (simp add: row_readable_def decide_known)
  have again: "row_readable oap now sample_reader (service_id_of ''cart'' True) st = (Settled True, st)"
    if "ra_decided st = [(service_id_of ''cart'' True, Allow)]" for st
    using that by (simp add: row_readable_def)
  show "on_list sample_relation \<Longrightarrow> ?thesis" using sample_facts(1) source
    by (simp add: decide_rows_def prefetch_rows_def Let_def sample_row_state_def known again row_keeps_def)
qed

theorem alarm_rows_decided_witness:
  "\<exists>st'. row_state_ok sample_reader st' \<and> row_visible sample_reader (rq_resolved (ra_request st')) sample_relation"
proof -
  obtain st' where st': "decide_rows oap now sample_reader (\<lambda>_. True) [sample_relation] (sample_row_state rv) = (Settled [(sample_relation, True)], st')"
    using sample_decided [of "\<lambda>_. True"] by blast
  from alarm_rows_decided [OF st' sample_state_ok] show ?thesis by auto
qed

theorem relation_shown_to_an_end_witness:
  "\<forall>oap now. \<exists>rq. fst (decide oap now sample_reader alarm_verbs (ById (service_id_of ''cart'' True)) rq) = Allow \<or>
     (\<exists>r. map_of (rq_resolved rq) (ByName ''pay'' None) = Some r \<and> r \<noteq> ResUnavailable)"
proof (intro allI)
  fix oap now
  obtain st' where st': "decide_rows oap now sample_reader (\<lambda>_. True) [sample_relation] (sample_row_state rv) = (Settled [(sample_relation, True)], st')"
    using sample_decided [of "\<lambda>_. True"] by blast
  from relation_shown_to_an_end [OF st' sample_state_ok _ sample_oap sample_facts(3,4,1), of oap now]
  show "\<exists>rq. fst (decide oap now sample_reader alarm_verbs (ById (service_id_of ''cart'' True)) rq) = Allow \<or>
     (\<exists>r. map_of (rq_resolved rq) (ByName ''pay'' None) = Some r \<and> r \<noteq> ResUnavailable)" by auto
qed

end
