(* ===== verification/Paging.thy ===== *)
theory Paging
  imports Prelude
begin

text \<open>
  Reading one page of a list whose length nobody tells: \<open>apps/bff/src/logic/paging/read-page.ts\<close>.  What a backend
  answers is an argument.  A page number and a page size are integers, which the rounding of the code leaves
  as they are.
\<close>

subsection \<open>Pages\<close>

record oap_paging =
  pg_num :: int
  pg_size :: int

record 'r page_result =
  pr_rows :: "'r list"
  pr_num :: nat
  pr_size :: nat
  pr_has_next :: bool

definition page_offset :: "nat \<Rightarrow> nat \<Rightarrow> nat" where
  "page_offset num sz = (max 1 num - 1) * sz"

definition over_fetch_size :: "nat \<Rightarrow> nat" where "over_fetch_size sz = sz + 1"

definition take_over_fetched :: "'r list \<Rightarrow> nat \<Rightarrow> 'r list \<times> bool" where
  "take_over_fetched fetched sz = (take sz fetched, sz < length fetched)"

definition probe_paging :: "nat \<Rightarrow> nat \<Rightarrow> nat \<times> nat" where
  "probe_paging num sz = (num * sz + 1, 1)"

definition sane_page :: "oap_paging \<Rightarrow> nat \<times> nat" where
  "sane_page p = (nat (max 1 (pg_num p)), nat (max 1 (pg_size p)))"

text \<open>A backend is asked for a page by its number and size.\<close>

definition read_page_with :: "(nat \<Rightarrow> nat \<Rightarrow> 'r list) \<Rightarrow> oap_paging \<Rightarrow> 'r page_result" where
  "read_page_with fetch page =
     (case sane_page page of
        (num, sz) \<Rightarrow>
          if num = 1
          then (case take_over_fetched (fetch 1 (over_fetch_size sz)) sz of
                  (rows, next) \<Rightarrow> \<lparr>pr_rows = rows, pr_num = num, pr_size = sz, pr_has_next = next\<rparr>)
          else (case probe_paging num sz of
                  (pnum, psize) \<Rightarrow>
                    \<lparr>pr_rows = fetch num sz, pr_num = num, pr_size = sz, pr_has_next = fetch pnum psize \<noteq> []\<rparr>))"

text \<open>A backend is asked for its first rows.\<close>

definition read_prefix_page :: "(nat \<Rightarrow> 'r list) \<Rightarrow> oap_paging \<Rightarrow> 'r page_result" where
  "read_prefix_page fetch page =
     (case sane_page page of
        (num, sz) \<Rightarrow>
          (let start = page_offset num sz; fetched = fetch (start + over_fetch_size sz) in
           \<lparr>pr_rows = take sz (drop start fetched), pr_num = num, pr_size = sz,
             pr_has_next = start + sz < length fetched\<rparr>))"

text \<open>The widening reads of a filtered page.  Each read asks for four times as many rows as the one before, up to
  the budget.\<close>

function filtered_reads ::
  "(nat \<Rightarrow> 'r list) \<Rightarrow> ('r \<Rightarrow> bool) \<Rightarrow> nat \<Rightarrow> nat \<Rightarrow> nat \<Rightarrow> 'r list \<times> bool \<times> nat" where
  "filtered_reads fetch keep want max_rows limit =
     (let rows = fetch limit; kept = filter keep rows; exhausted = length rows < limit in
      if want \<le> length kept \<or> exhausted \<or> max_rows \<le> limit \<or> limit = 0 then (kept, exhausted, limit)
      else filtered_reads fetch keep want max_rows (min max_rows (limit * 4)))"
  by pat_completeness auto
termination
proof (relation "measure (\<lambda>(fetch, keep, want, max_rows, limit). max_rows - limit)")
  fix fetch :: "nat \<Rightarrow> 'r list" and keep and want max_rows limit :: nat and x xa xb
  assume "\<not> (want \<le> length xa \<or> xb \<or> max_rows \<le> limit \<or> limit = 0)"
  then show "((fetch, keep, want, max_rows, min max_rows (limit * 4)), fetch, keep, want, max_rows, limit)
      \<in> measure (\<lambda>(fetch, keep, want, max_rows, limit). max_rows - limit)" by auto
qed simp

declare filtered_reads.simps [simp del]

text \<open>A budget of no rows reads nothing and is answered here; the code's callers give a positive one.\<close>

definition read_filtered_page ::
  "(nat \<Rightarrow> 'r list) \<Rightarrow> ('r \<Rightarrow> bool) \<Rightarrow> oap_paging \<Rightarrow> nat \<Rightarrow> nat \<Rightarrow> 'r page_result" where
  "read_filtered_page fetch keep page first max_rows =
     (case sane_page page of
        (num, sz) \<Rightarrow>
          (let start = page_offset num sz; want = start + sz + 1 in
           case filtered_reads fetch keep want max_rows (min max_rows (max first want)) of
             (kept, exhausted, limit) \<Rightarrow>
               \<lparr>pr_rows = take sz (drop start kept), pr_num = num, pr_size = sz,
                 pr_has_next = start + sz < length kept \<or> \<not> exhausted \<and> length kept < want\<rparr>))"

subsection \<open>What a page is\<close>

text \<open>What the backends document: OAP serves the rows of a page from the offset its number and size give, and a store the
  rows it begins with.\<close>

definition serves_pages :: "'r list \<Rightarrow> (nat \<Rightarrow> nat \<Rightarrow> 'r list) \<Rightarrow> bool" where
  "serves_pages all fetch \<longleftrightarrow> (\<forall>num sz. 1 \<le> num \<longrightarrow> fetch num sz = take sz (drop ((num - 1) * sz) all))"

definition serves_first :: "'r list \<Rightarrow> (nat \<Rightarrow> 'r list) \<Rightarrow> bool" where
  "serves_first all fetch \<longleftrightarrow> (\<forall>n. fetch n = take n all)"

text \<open>The page of a list, and whether there is another after it.\<close>

definition page_of :: "'r list \<Rightarrow> nat \<Rightarrow> nat \<Rightarrow> 'r list" where
  "page_of xs num sz = take sz (drop ((num - 1) * sz) xs)"

lemma sane_page_bounds: "sane_page p = (num, sz) \<Longrightarrow> 1 \<le> num \<and> 1 \<le> sz"
  by (auto simp: sane_page_def)

lemma pages_so_far: "concat (map (\<lambda>i. page_of xs (Suc i) sz) [0..<n]) = take (n * sz) xs"
proof (induction n)
  case (Suc n)
  then show ?case using take_add [of "n * sz" sz xs] by (simp add: page_of_def add.commute)
qed simp

text \<open>A page is read right.  Against a backend that pages as OAP does, the rows are those of the page asked for and there is
  said to be another page exactly when rows follow, on the first page as on every later one; so that the pages up to any one,
  laid end to end, are the list as far as it goes.\<close>

theorem page_read_right:
  assumes "serves_pages all fetch" "sane_page page = (num, sz)"
  shows "read_page_with fetch page = \<lparr>pr_rows = page_of all num sz, pr_num = num, pr_size = sz, pr_has_next = num * sz < length all\<rparr> \<and>
    concat (map (\<lambda>i. pr_rows (read_page_with fetch \<lparr>pg_num = int (Suc i), pg_size = int sz\<rparr>)) [0..<n]) = take (n * sz) all"
proof -
  have one: "read_page_with fetch p = \<lparr>pr_rows = page_of all k m, pr_num = k, pr_size = m, pr_has_next = k * m < length all\<rparr>"
    if "sane_page p = (k, m)" for p k m
  proof -
    have b: "1 \<le> k" "1 \<le> m" using sane_page_bounds [OF that] by simp_all
    have ser: "fetch i j = take j (drop ((i - 1) * j) all)" if "1 \<le> i" for i j
      using assms(1) that unfolding serves_pages_def by blast
    show ?thesis
    proof (cases "k = 1")
      case True
      then show ?thesis using ser [of 1 "Suc m"] that
        by (simp add: read_page_with_def take_over_fetched_def over_fetch_size_def page_of_def)
    next
      case False
      have "fetch (k * m + 1) 1 = take 1 (drop (k * m) all)" using ser [of "k * m + 1" 1] by simp
      then show ?thesis using False ser [of k m] b that
        by (auto simp: read_page_with_def probe_paging_def page_of_def)
    qed
  qed
  have "sane_page \<lparr>pg_num = int (Suc i), pg_size = int sz\<rparr> = (Suc i, sz)" for i
    using sane_page_bounds [OF assms(2)] by (simp add: sane_page_def max_def)
  then show ?thesis using one [OF assms(2)] one pages_so_far [of all sz n] by simp
qed

text \<open>C25: Reading from the first row gives the same page.  A backend that can only be trusted with its first rows answers what one
  that pages rightly does.\<close>

theorem prefix_page_same:
  assumes "serves_pages all by_page" "serves_first all by_first"
  shows "read_prefix_page by_first page = read_page_with by_page page"
proof -
  obtain num sz where p: "sane_page page = (num, sz)" by fastforce
  then have b: "1 \<le> num" "1 \<le> sz" using sane_page_bounds by blast+
  have ser: "by_page i j = take j (drop ((i - 1) * j) all)" if "1 \<le> i" for i j
    using assms(1) that unfolding serves_pages_def by blast
  have first: "by_first n = take n all" for n using assms(2) unfolding serves_first_def by blast
  define start where "start = (num - 1) * sz"
  have next_: "num * sz = start + sz" using b by (simp add: start_def mult_eq_if)
  have pre: "read_prefix_page by_first page = \<lparr>pr_rows = take sz (drop start all), pr_num = num, pr_size = sz, pr_has_next = start + sz < length all\<rparr>"
    using b p by (auto simp: read_prefix_page_def page_offset_def over_fetch_size_def first Let_def start_def drop_take max_absorb2)
  show ?thesis
  proof (cases "num = 1")
    case True
    then show ?thesis using pre ser [of 1 "Suc sz"] p
      by (simp add: read_page_with_def take_over_fetched_def over_fetch_size_def start_def)
  next
    case False
    have "by_page (num * sz + 1) 1 = take 1 (drop (num * sz) all)" using ser [of "num * sz + 1" 1] by simp
    then show ?thesis using False ser [of num sz] b p pre
      by (auto simp: read_page_with_def probe_paging_def next_) (simp_all add: start_def)
  qed
qed



subsection \<open>Reads with effects\<close>

text \<open>The same page reads over a backend that may fail and leave its state changed: what a read throws, the page read throws, and
  nothing is asked after it.\<close>

definition read_prefix_page_io ::
  "(nat \<Rightarrow> 's \<Rightarrow> ('e + 'r list) \<times> 's) \<Rightarrow> oap_paging \<Rightarrow> 's \<Rightarrow> ('e + 'r page_result) \<times> 's" where
  "read_prefix_page_io fetch page st =
     (case sane_page page of
        (num, sz) \<Rightarrow>
          (let start = page_offset num sz in
           case fetch (start + over_fetch_size sz) st of
             (Inl e, st') \<Rightarrow> (Inl e, st')
           | (Inr fetched, st') \<Rightarrow>
               (Inr \<lparr>pr_rows = take sz (drop start fetched), pr_num = num, pr_size = sz,
                      pr_has_next = start + sz < length fetched\<rparr>, st')))"

function filtered_reads_io ::
  "(nat \<Rightarrow> 's \<Rightarrow> ('e + 'r list) \<times> 's) \<Rightarrow> ('r \<Rightarrow> bool) \<Rightarrow> nat \<Rightarrow> nat \<Rightarrow> nat \<Rightarrow> 's \<Rightarrow> ('e + 'r list \<times> bool \<times> nat) \<times> 's" where
  "filtered_reads_io fetch keep want max_rows limit st =
     (case fetch limit st of
        (Inl e, st') \<Rightarrow> (Inl e, st')
      | (Inr rows, st') \<Rightarrow>
          (let kept = filter keep rows; exhausted = length rows < limit in
           if want \<le> length kept \<or> exhausted \<or> max_rows \<le> limit \<or> limit = 0 then (Inr (kept, exhausted, limit), st')
           else filtered_reads_io fetch keep want max_rows (min max_rows (limit * 4)) st'))"
  by pat_completeness auto
termination
  by (relation "measure (\<lambda>(fetch, keep, want, max_rows, limit, st). max_rows - limit)") auto

declare filtered_reads_io.simps [simp del]

definition read_filtered_page_io ::
  "(nat \<Rightarrow> 's \<Rightarrow> ('e + 'r list) \<times> 's) \<Rightarrow> ('r \<Rightarrow> bool) \<Rightarrow> oap_paging \<Rightarrow> nat \<Rightarrow> nat \<Rightarrow> 's \<Rightarrow> ('e + 'r page_result) \<times> 's" where
  "read_filtered_page_io fetch keep page first max_rows st =
     (case sane_page page of
        (num, sz) \<Rightarrow>
          (let start = page_offset num sz; want = start + sz + 1 in
           case filtered_reads_io fetch keep want max_rows (min max_rows (max first want)) st of
             (Inl e, st') \<Rightarrow> (Inl e, st')
           | (Inr (kept, exhausted, limit), st') \<Rightarrow>
               (Inr \<lparr>pr_rows = take sz (drop start kept), pr_num = num, pr_size = sz,
                      pr_has_next = start + sz < length kept \<or> \<not> exhausted \<and> length kept < want\<rparr>, st')))"

text \<open>Without failures and changes they are the reads above.\<close>

lemma filtered_reads_io_pure:
  "filtered_reads_io (\<lambda>n st. (Inr (fetch n), st)) keep want max_rows limit st = (Inr (filtered_reads fetch keep want max_rows limit), st)"
proof (induction fetch keep want max_rows limit rule: filtered_reads.induct)
  case (1 fetch keep want max_rows limit)
  show ?case
  proof (cases "want \<le> length (filter keep (fetch limit)) \<or> length (fetch limit) < limit \<or> max_rows \<le> limit \<or> limit = 0")
    case True
    then show ?thesis by (subst filtered_reads.simps, subst filtered_reads_io.simps) (simp add: Let_def)
  next
    case False
    then show ?thesis using "1.IH" [OF refl refl refl]
      by (subst filtered_reads.simps, subst filtered_reads_io.simps) (simp add: Let_def)
  qed
qed

lemma page_io_pure:
  "read_filtered_page_io (\<lambda>n st. (Inr (fetch n), st)) keep page first max_rows st = (Inr (read_filtered_page fetch keep page first max_rows), st)"
  "read_prefix_page_io (\<lambda>n st. (Inr (fetch n), st)) page st = (Inr (read_prefix_page fetch page), st)"
  by (auto simp: read_filtered_page_io_def read_filtered_page_def read_prefix_page_io_def read_prefix_page_def
      filtered_reads_io_pure Let_def split: prod.split)

text \<open>What holds of every row a read keeps in the state it leaves holds of every row of the page.\<close>

lemma filtered_reads_io_rows:
  assumes "filtered_reads_io fetch keep want max_rows limit st = (Inr (kept, ex, l), st')" "I st"
    and "\<And>n st r st'. I st \<Longrightarrow> fetch n st = (r, st') \<Longrightarrow> I st' \<and> (\<forall>rows. r = Inr rows \<longrightarrow> (\<forall>row \<in> set rows. keep row \<longrightarrow> ok st' row))"
  shows "I st' \<and> (\<forall>row \<in> set kept. keep row \<and> ok st' row)"
  using assms
proof (induction fetch keep want max_rows limit st rule: filtered_reads_io.induct)
  case (1 fetch keep want max_rows limit st)
  obtain r st1 where r: "fetch limit st = (r, st1)" by (cases "fetch limit st")
  with "1.prems"(1) obtain rows where rows: "r = Inr rows"
    by (subst (asm) filtered_reads_io.simps) (auto split: sum.splits)
  note step = "1.prems"(3) [OF "1.prems"(2) r]
  show ?case
  proof (cases "want \<le> length (filter keep rows) \<or> length rows < limit \<or> max_rows \<le> limit \<or> limit = 0")
    case True
    then have "kept = filter keep rows" "st' = st1"
      using "1.prems"(1) r rows by (subst (asm) filtered_reads_io.simps, simp add: Let_def)+
    then show ?thesis using step rows by auto
  next
    case False
    then have "filtered_reads_io fetch keep want max_rows (min max_rows (limit * 4)) st1 = (Inr (kept, ex, l), st')"
      using "1.prems"(1) r rows by (subst (asm) filtered_reads_io.simps) (simp add: Let_def)
    then show ?thesis using "1.IH" [OF r [unfolded rows, symmetric] refl refl refl False _ conjunct1 [OF step]] "1.prems"(3) by blast
  qed
qed

lemma page_io_rows:
  assumes "read_filtered_page_io fetch keep page first max_rows st = (Inr r, st')" "I st"
    and "\<And>n st r st'. I st \<Longrightarrow> fetch n st = (r, st') \<Longrightarrow> I st' \<and> (\<forall>rows. r = Inr rows \<longrightarrow> (\<forall>row \<in> set rows. keep row \<longrightarrow> ok st' row))"
  shows "I st' \<and> (\<forall>row \<in> set (pr_rows r). keep row \<and> ok st' row) \<and> length (pr_rows r) \<le> snd (sane_page page)"
proof -
  obtain num sz where p: "sane_page page = (num, sz)" by fastforce
  let ?want = "page_offset num sz + sz + 1"
  obtain kept ex l where f: "filtered_reads_io fetch keep ?want max_rows (min max_rows (max first ?want)) st = (Inr (kept, ex, l), st')"
    "pr_rows r = take sz (drop (page_offset num sz) kept)"
    using assms(1) p by (auto simp: read_filtered_page_io_def Let_def split: prod.splits sum.splits)
  from filtered_reads_io_rows [where I = I and ok = ok, OF f(1) assms(2,3)]
  show ?thesis by (auto simp: f(2) p dest!: in_set_takeD in_set_dropD)
qed

subsection \<open>Samples\<close>

definition sample_rows :: "nat list" where "sample_rows = [0..<10]"

definition sample_pages :: "nat \<Rightarrow> nat \<Rightarrow> nat list" where "sample_pages num sz = take sz (drop ((num - 1) * sz) sample_rows)"

definition sample_first :: "nat \<Rightarrow> nat list" where "sample_first n = take n sample_rows"

lemma sample_serves: "serves_pages sample_rows sample_pages" "serves_first sample_rows sample_first"
  by (simp_all add: serves_pages_def serves_first_def sample_pages_def sample_first_def)

abbreviation page_two :: oap_paging where "page_two \<equiv> \<lparr>pg_num = 2, pg_size = 4\<rparr>"

lemma page_two: "sane_page page_two = (2, 4)"
  by (simp add: sane_page_def)

theorem page_read_right_witness:
  "pr_rows (read_page_with sample_pages page_two) = [4, 5, 6, 7] \<and> pr_has_next (read_page_with sample_pages page_two)"
  using page_read_right [OF sample_serves(1) page_two, of 0] by (simp add: page_of_def sample_rows_def upt_rec)

theorem prefix_page_same_witness: "read_prefix_page sample_first page_two = read_page_with sample_pages page_two"
  by (rule prefix_page_same [OF sample_serves])


end
