(* ===== verification/AlarmList.thy ===== *)
theory AlarmList
  imports AlarmRows Paging
begin

text \<open>
  The alarm routes: \<open>apps/bff/src/http/query/alarms.ts\<close> over the schema of \<open>alarms-request.ts\<close>.  OAP's alarm query, its
  capabilities, the stored pages and the roster of a layer are arguments; the catalog is read through the resolver's
  state.  The reply names the branch taken, with the body where there is one.
\<close>

subsection \<open>The request\<close>

record alarms_query =
  aq_start :: int
  aq_end :: int
  aq_scope :: "string option"
  aq_keyword :: "string option"
  aq_num :: int
  aq_size :: int
  aq_layer :: "string option"
  aq_service :: "string option"
  aq_normal :: "bool option"
  aq_instance :: "string option"
  aq_endpoint :: "string option"
  aq_page :: "string option"

definition list_page_size_cap :: int where "list_page_size_cap = 500"

definition alarms_query_valid :: "alarms_query \<Rightarrow> bool" where
  "alarms_query_valid q \<longleftrightarrow>
     0 < aq_start q \<and> 0 < aq_end q \<and> 1 \<le> aq_num q \<and> 1 \<le> aq_size q \<and> aq_size q \<le> list_page_size_cap \<and>
     (case aq_layer q of None \<Rightarrow> True | Some l \<Rightarrow> parse_alarm_pin l \<noteq> None) \<and>
     (case aq_page q of None \<Rightarrow> True | Some p \<Rightarrow> 1 \<le> length p) \<and>
     \<not> (truthy (aq_service q) \<and> aq_normal q = None)"

definition window_cap_ms :: int where "window_cap_ms = 4 * 60 * 60000"
definition count_fetch_cap :: nat where "count_fetch_cap = 200"
definition alarm_read_first :: nat where "alarm_read_first = 500"
definition alarm_read_max_rows :: nat where "alarm_read_max_rows = 5000"

definition alert_default_page_id :: string where "alert_default_page_id = ''default''"

datatype entity_filter =
    InstanceFilter string bool string
  | EndpointFilter string bool string

definition build_entity :: "alarms_query \<Rightarrow> string \<times> bool \<Rightarrow> entity_filter option" where
  "build_entity q named =
     (case named of
        (name, normal) \<Rightarrow>
          if truthy (aq_instance q) then Some (InstanceFilter name normal (the (aq_instance q)))
          else if truthy (aq_endpoint q) then Some (EndpointFilter name normal (the (aq_endpoint q)))
          else None)"

text \<open>What OAP is asked: with the new query the keyword and the entity, with the old one the scope and the keyword.\<close>

datatype alarm_ask =
    QueryAlarms "string option" "entity_filter option"
  | GetAlarm "string option" "string option"
  | QueryCounts
  | GetCounts

datatype 'b alarms_reply =
    InvalidQuery
  | BadRequest
  | FilterUnsupported
  | StoreUnreachable
  | PageNotFound
  | CatalogUnavailable
  | LookupUnavailable
  | OapUnreachable
  | MissingLayer
  | Body 'b

datatype read_error = LookupFailed | OapFailed

definition read_failed :: "read_error \<Rightarrow> 'b alarms_reply" where
  "read_failed e = (case e of LookupFailed \<Rightarrow> LookupUnavailable | OapFailed \<Rightarrow> OapUnreachable)"

record alarm_message =
  am_row :: alarm_row
  am_layer_keys :: "string list"
  am_layer_key :: "string option"
  am_owners :: "alarm_owner list"

definition tag_with_owners :: "alarm_row list \<Rightarrow> service_index \<Rightarrow> alarm_message list" where
  "tag_with_owners rows ix =
     map (\<lambda>m. let keys = alarm_layers m ix in
            \<lparr>am_row = m, am_layer_keys = keys, am_layer_key = (case keys of [] \<Rightarrow> None | k # _ \<Rightarrow> Some k),
              am_owners = alarm_owners m ix\<rparr>) rows"

definition catalog_missing :: "service_catalog \<Rightarrow> bool" where
  "catalog_missing c \<longleftrightarrow> sc_unreachable c \<and> length (sc_by_layer c) = 0"

text \<open>The world of a request: OAP's services and its alarms, by the number of the alarm query, the page and its size.\<close>

record alarm_world =
  aw_oap :: oap_world
  aw_alarms :: "alarm_ask \<Rightarrow> nat \<Rightarrow> nat \<Rightarrow> nat \<Rightarrow> alarm_row list option"
  aw_query_alarms :: bool
  aw_pages :: stored_pages
  aw_roster :: "string \<Rightarrow> raw_row list option"

record list_state =
  ls_calls :: nat
  ls_rows :: row_state

definition fetch_alarms ::
  "alarm_world \<Rightarrow> alarm_ask \<Rightarrow> nat \<Rightarrow> nat \<Rightarrow> list_state \<Rightarrow> (read_error + alarm_row list) \<times> list_state" where
  "fetch_alarms w ask num sz st =
     ((case aw_alarms w ask (ls_calls st) num sz of None \<Rightarrow> Inl OapFailed | Some rows \<Rightarrow> Inr rows),
      st\<lparr>ls_calls := Suc (ls_calls st)\<rparr>)"

text \<open>The first rows of a window, each marked whether it is kept; without a reader to decide for, by the list alone.\<close>

definition fetch_decided ::
  "alarm_world \<Rightarrow> nat \<Rightarrow> alarm_ask \<Rightarrow> session_access option \<Rightarrow> (alarm_row \<Rightarrow> bool) \<Rightarrow> nat \<Rightarrow> list_state \<Rightarrow>
   (read_error + (alarm_row \<times> bool) list) \<times> list_state" where
  "fetch_decided w now ask per_row on_list rows st =
     (case fetch_alarms w ask 1 rows st of
        (Inl e, st') \<Rightarrow> (Inl e, st')
      | (Inr msgs, st') \<Rightarrow>
          (case per_row of
             None \<Rightarrow> (Inr (map (\<lambda>row. (row, on_list row)) msgs), st')
           | Some sa \<Rightarrow>
               (case decide_rows (aw_oap w) now sa on_list msgs (ls_rows st') of
                  (Unavailable, rs) \<Rightarrow> (Inl LookupFailed, st'\<lparr>ls_rows := rs\<rparr>)
                | (Settled ds, rs) \<Rightarrow> (Inr ds, st'\<lparr>ls_rows := rs\<rparr>))))"

subsection \<open>The list\<close>

record alarms_response =
  rp_returned :: nat
  rp_num :: int
  rp_size :: int
  rp_truncated :: bool
  rp_msgs :: "alarm_message list"
  rp_pinned :: "string list option"

text \<open>The pins of the page a request names, where it names one.\<close>

definition page_pins_of :: "alarm_world \<Rightarrow> string option \<Rightarrow> session_access option \<Rightarrow> alarm_pin list option alarms_reply" where
  "page_pins_of w page_id access =
     (case page_id of
        None \<Rightarrow> Body None
      | Some p \<Rightarrow>
          if sg_unreachable (aw_pages w) then StoreUnreachable
          else (case named_page_pins (aw_pages w) p (pin_reach_of access) of
                  None \<Rightarrow> PageNotFound
                | Some pins \<Rightarrow> Body (Some pins)))"

text \<open>What the list is narrowed to, and whether its rows are decided one by one.\<close>

record list_plan =
  lp_layer :: "alarm_pin option"
  lp_pins :: "alarm_pin list option"
  lp_service :: "string option"
  lp_reader :: "session_access option"
  lp_ask :: alarm_ask

definition plan_of :: "alarm_world \<Rightarrow> alarms_query \<Rightarrow> session_access option \<Rightarrow> alarm_pin list option \<Rightarrow> list_plan" where
  "plan_of w q access pins =
     (let named = (if truthy (aq_service q) \<and> aq_normal q \<noteq> None then Some (the (aq_service q), the (aq_normal q)) else None);
          entity = (case named of Some n \<Rightarrow> build_entity q n | None \<Rightarrow> None);
          keyword = (if truthy (aq_keyword q) then aq_keyword q else None) in
      \<lparr>lp_layer = (if truthy (aq_layer q) \<and> named = None then layer_filter_pin (the (aq_layer q)) canonical_layer_key else None),
        lp_pins = pins,
        lp_service = (case named of
                        Some (name, normal) \<Rightarrow> if entity = None \<and> aw_query_alarms w then Some (service_id_of name normal) else None
                      | None \<Rightarrow> None),
        lp_reader = (case access of
                       Some sa \<Rightarrow> if \<not> reads_every_alarm sa \<and> \<not> (entity \<noteq> None \<and> aw_query_alarms w) then Some sa else None
                     | None \<Rightarrow> None),
        lp_ask = (if aw_query_alarms w then QueryAlarms keyword entity
                  else GetAlarm (if truthy (aq_scope q) then aq_scope q else None) keyword)\<rparr>)"

definition plan_filters :: "list_plan \<Rightarrow> bool" where
  "plan_filters p \<longleftrightarrow> lp_layer p \<noteq> None \<or> lp_reader p \<noteq> None \<or> lp_pins p \<noteq> None \<or> truthy (lp_service p)"

definition plan_lists :: "list_plan \<Rightarrow> service_index \<Rightarrow> alarm_row \<Rightarrow> bool" where
  "plan_lists p ix m \<longleftrightarrow>
     (case lp_layer p of None \<Rightarrow> True | Some pin \<Rightarrow> alarm_pin_matches pin (alarm_layers m ix) (alarm_owners m ix)) \<and>
     (case lp_pins p of None \<Rightarrow> True
      | Some pins \<Rightarrow> list_ex (\<lambda>pin. alarm_pin_matches pin (alarm_layers m ix) (alarm_owners m ix)) pins) \<and>
     (case lp_service p of None \<Rightarrow> True | Some sid \<Rightarrow> sid = [] \<or> alarm_concerns_service m sid ix)"

definition read_plan ::
  "alarm_world \<Rightarrow> nat \<Rightarrow> list_plan \<Rightarrow> service_index \<Rightarrow> oap_paging \<Rightarrow> list_state \<Rightarrow>
   (read_error + (alarm_row \<times> bool) page_result) \<times> list_state" where
  "read_plan w now p ix paging st =
     (let fetch_first = fetch_decided w now (lp_ask p) (lp_reader p) (plan_lists p ix) in
      if plan_filters p then read_filtered_page_io fetch_first snd paging alarm_read_first alarm_read_max_rows st
      else read_prefix_page_io fetch_first paging st)"

definition page_asked :: "alarms_query \<Rightarrow> string option" where
  "page_asked q = (if truthy (aq_page q) \<and> aq_page q \<noteq> Some alert_default_page_id then aq_page q else None)"

definition answer_list ::
  "alarm_world \<Rightarrow> nat \<Rightarrow> alarms_query \<Rightarrow> service_catalog \<Rightarrow> list_plan \<Rightarrow> list_state \<Rightarrow>
   alarms_response alarms_reply \<times> list_state" where
  "answer_list w now q catalog p st =
     (if plan_filters p \<and> catalog_missing catalog then (CatalogUnavailable, st)
      else
        (let ix = index_of_catalog catalog in
         case read_plan w now p ix \<lparr>pg_num = aq_num q, pg_size = aq_size q\<rparr> st of
           (Inl e, st') \<Rightarrow> (read_failed e, st')
         | (Inr page, st') \<Rightarrow>
             (let msgs = tag_with_owners (map fst (pr_rows page)) ix in
              (Body \<lparr>rp_returned = length msgs, rp_num = aq_num q, rp_size = aq_size q, rp_truncated = pr_has_next page,
                      rp_msgs = msgs, rp_pinned = map_option (map format_alarm_pin) (lp_pins p)\<rparr>, st'))))"

definition alarms_list ::
  "alarm_world \<Rightarrow> nat \<Rightarrow> session_access option \<Rightarrow> alarms_query \<Rightarrow> request_state \<Rightarrow> alarms_response alarms_reply \<times> list_state" where
  "alarms_list w now access q rq =
     (let st = \<lparr>ls_calls = 0, ls_rows = \<lparr>ra_decided = [], ra_request = rq\<rparr>\<rparr> in
      if \<not> alarms_query_valid q then (InvalidQuery, st)
      else if aq_end q \<le> aq_start q then (BadRequest, st)
      else if window_cap_ms < aq_end q - aq_start q then (BadRequest, st)
      else if int alarm_read_max_rows < int (page_offset (nat (aq_num q)) (nat (aq_size q))) + aq_size q then (BadRequest, st)
      else
        (case read_catalog (aw_oap w) now (rq_resolver rq) of
           (catalog, rv) \<Rightarrow>
             (let st1 = st\<lparr>ls_rows := \<lparr>ra_decided = [], ra_request = rq\<lparr>rq_resolver := rv\<rparr>\<rparr>\<rparr> in
              if \<not> aw_query_alarms w \<and> (case access of Some sa \<Rightarrow> all_layer_limited sa [''alarms:read''] | None \<Rightarrow> False)
              then (FilterUnsupported, st1)
              else
                (case page_pins_of w (page_asked q) access of
                   Body pins \<Rightarrow> answer_list w now q catalog (plan_of w q access pins) st1
                 | StoreUnreachable \<Rightarrow> (StoreUnreachable, st1)
                 | _ \<Rightarrow> (PageNotFound, st1)))))"

subsection \<open>The count\<close>

record alarm_count =
  ac_total :: nat
  ac_firing :: nat
  ac_incidents :: nat
  ac_active :: nat
  ac_truncated :: bool

type_synonym incident_map = "(string, int \<times> int option) jsmap"

definition note_event :: "alarm_row \<Rightarrow> incident_map \<Rightarrow> incident_map" where
  "note_event r m =
     (let key = alarm_incident_key r; put = map_put key (al_start r, al_recovery r) m in
      case map_of m key of
        None \<Rightarrow> put
      | Some (start, _) \<Rightarrow> if start < al_start r then put else m)"

definition count_rows :: "alarm_row list \<Rightarrow> bool \<Rightarrow> alarm_count" where
  "count_rows rows truncated =
     (let latest = fold note_event rows [] in
      \<lparr>ac_total = length rows, ac_firing = fold (\<lambda>r n. n + (if al_recovery r = None then 1 else 0)) rows 0,
        ac_incidents = length latest,
        ac_active = fold (\<lambda>(_, v) n. if snd v = None then n + 1 else n) latest 0,
        ac_truncated = truncated\<rparr>)"

definition read_count_page :: "alarm_world \<Rightarrow> alarm_ask \<Rightarrow> list_state \<Rightarrow> (read_error + alarm_row list \<times> bool) \<times> list_state" where
  "read_count_page w ask st =
     (case fetch_alarms w ask 1 (over_fetch_size count_fetch_cap) st of
        (Inl e, st') \<Rightarrow> (Inl e, st')
      | (Inr fetched, st') \<Rightarrow> (Inr (take_over_fetched fetched count_fetch_cap), st'))"

definition alarms_count ::
  "alarm_world \<Rightarrow> nat \<Rightarrow> session_access option \<Rightarrow> int \<Rightarrow> int \<Rightarrow> request_state \<Rightarrow> alarm_count alarms_reply \<times> list_state" where
  "alarms_count w now access start stop rq =
     (let st = \<lparr>ls_calls = 0, ls_rows = \<lparr>ra_decided = [], ra_request = rq\<rparr>\<rparr>;
          ask = (if aw_query_alarms w then QueryCounts else GetCounts) in
      if \<not> (0 < start \<and> 0 < stop) then (InvalidQuery, st)
      else if stop \<le> start then (BadRequest, st)
      else if window_cap_ms < stop - start then (BadRequest, st)
      else
        (case access of
           Some sa \<Rightarrow>
             if reads_every_alarm sa then
               (case read_count_page w ask st of
                  (Inl e, st') \<Rightarrow> (read_failed e, st')
                | (Inr (rows, truncated), st') \<Rightarrow> (Body (count_rows rows truncated), st'))
             else
               (case read_catalog (aw_oap w) now (rq_resolver rq) of
                  (catalog, rv) \<Rightarrow>
                    (let st1 = st\<lparr>ls_rows := \<lparr>ra_decided = [], ra_request = rq\<lparr>rq_resolver := rv\<rparr>\<rparr>\<rparr> in
                     if catalog_missing catalog then (CatalogUnavailable, st1)
                     else
                       (case read_filtered_page_io (fetch_decided w now ask (Some sa) (\<lambda>_. True)) snd
                               \<lparr>pg_num = 1, pg_size = int count_fetch_cap\<rparr> alarm_read_first alarm_read_max_rows st1 of
                          (Inl e, st') \<Rightarrow> (read_failed e, st')
                        | (Inr page, st') \<Rightarrow> (Body (count_rows (map fst (pr_rows page)) (pr_has_next page)), st'))))
         | None \<Rightarrow>
             (case read_count_page w ask st of
                (Inl e, st') \<Rightarrow> (read_failed e, st')
              | (Inr (rows, truncated), st') \<Rightarrow> (Body (count_rows rows truncated), st'))))"

subsection \<open>The services of a filter\<close>

definition alarm_services ::
  "alarm_world \<Rightarrow> (raw_row list \<Rightarrow> raw_row list) \<Rightarrow> session_access option \<Rightarrow> string option \<Rightarrow> string option \<Rightarrow>
   (string \<times> raw_row list) alarms_reply" where
  "alarm_services w by_locale access layer page =
     (if \<not> truthy layer then MissingLayer
      else
        (let page_id = (if truthy page \<and> page \<noteq> Some alert_default_page_id then page else None) in
         case page_pins_of w page_id access of
           Body pins \<Rightarrow>
             (case aw_roster w (the layer) of
                None \<Rightarrow> OapUnreachable
              | Some got \<Rightarrow>
                  (let rows = by_locale (filter (\<lambda>s. 0 < length (raw_name s)) got);
                       readable = (case access of
                                     Some sa \<Rightarrow> filter_roster sa [''alarms:read''] (the layer) (\<lambda>s. Some (raw_name s)) raw_group rows
                                   | None \<Rightarrow> rows);
                       on_layer = canonical_layer_key (the layer) in
                   Body (the layer,
                     case pins of
                       Some ps \<Rightarrow> filter (\<lambda>s. list_ex (\<lambda>p. pn_layer p = on_layer \<and>
                           (case pn_groups p of None \<Rightarrow> True | Some gs \<Rightarrow> or_empty (raw_group s) \<in> set gs)) ps) readable
                     | None \<Rightarrow> readable)))
         | StoreUnreachable \<Rightarrow> StoreUnreachable
         | _ \<Rightarrow> PageNotFound))"

subsection \<open>What the routes answer\<close>

lemma decide_rows_state:
  assumes "decide_rows oap now sa on_list rows st = (a, st')" "row_state_ok sa st"
  shows "row_state_ok sa st'"
proof (cases "reads_every_alarm sa")
  case True
  then show ?thesis using assms decide_each_visible [of oap now sa on_list rows st a st'] by (simp add: decide_rows_def)
next
  case False
  obtain u st1 where p: "prefetch_rows oap now sa (filter on_list rows) st = (u, st1)"
    by (cases "prefetch_rows oap now sa (filter on_list rows) st")
  note one = prefetch_rows_memo [OF p assms(2)]
  show ?thesis
  proof (cases u)
    case Unavailable
    then show ?thesis using False p assms(1) one by (simp add: decide_rows_def)
  next
    case (Settled x)
    then have "decide_each oap now sa on_list rows st1 = (a, st')" using False p assms(1) by (simp add: decide_rows_def)
    then show ?thesis using decide_each_visible one by blast
  qed
qed

text \<open>The state of a read is in order, and a row marked as kept may be shown.\<close>

definition list_state_ok :: "session_access option \<Rightarrow> list_state \<Rightarrow> bool" where
  "list_state_ok reader st \<longleftrightarrow> (case reader of None \<Rightarrow> True | Some sa \<Rightarrow> row_state_ok sa (ls_rows st))"

definition row_shown :: "session_access option \<Rightarrow> (alarm_row \<Rightarrow> bool) \<Rightarrow> list_state \<Rightarrow> alarm_row \<Rightarrow> bool" where
  "row_shown reader lst st m \<longleftrightarrow>
     lst m \<and> (case reader of None \<Rightarrow> True | Some sa \<Rightarrow> row_visible sa (rq_resolved (ra_request (ls_rows st))) m)"

lemma fetch_decided_rows:
  assumes "list_state_ok reader st" "fetch_decided w now ask reader lst n st = (r, st')"
  shows "list_state_ok reader st' \<and> (\<forall>rows. r = Inr rows \<longrightarrow> (\<forall>row \<in> set rows. snd row \<longrightarrow> row_shown reader lst st' (fst row)))"
proof (cases "aw_alarms w ask (ls_calls st) 1 n")
  case None
  then show ?thesis using assms by (cases reader) (auto simp: fetch_decided_def fetch_alarms_def list_state_ok_def)
next
  case (Some msgs)
  show ?thesis
  proof (cases reader)
    case None
    then show ?thesis using assms Some by (auto simp: fetch_decided_def fetch_alarms_def list_state_ok_def row_shown_def)
  next
    case (Some sa)
    note reader = this
    obtain a rs where a: "decide_rows (aw_oap w) now sa lst msgs (ls_rows st) = (a, rs)"
      by (cases "decide_rows (aw_oap w) now sa lst msgs (ls_rows st)")
    have ok: "row_state_ok sa (ls_rows st)" using assms(1) reader by (simp add: list_state_ok_def)
    have st': "st' = st\<lparr>ls_calls := Suc (ls_calls st), ls_rows := rs\<rparr>" "r = (case a of Unavailable \<Rightarrow> Inl LookupFailed | Settled ds \<Rightarrow> Inr ds)"
      using assms(2) reader \<open>aw_alarms w ask (ls_calls st) 1 n = Some msgs\<close> a
      by (auto simp: fetch_decided_def fetch_alarms_def split: lookup.splits)
    have "row_shown reader lst st' (fst row)" if "r = Inr rows" "row \<in> set rows" "snd row" for rows row
    proof -
      have "a = Settled rows" using st'(2) that(1) by (auto split: lookup.splits)
      from alarm_rows_kept [OF a [unfolded this] ok] show ?thesis using that(2,3) reader st'(1) by (auto simp: row_shown_def)
    qed
    then show ?thesis using decide_rows_state [OF a ok] reader st'(1) by (simp add: list_state_ok_def)
  qed
qed

lemma read_plan_rows:
  assumes "read_plan w now p ix paging st = (Inr page, st')" "list_state_ok (lp_reader p) st"
  shows "(\<forall>d \<in> set (pr_rows page). row_shown (lp_reader p) (plan_lists p ix) st' (fst d)) \<and>
    length (pr_rows page) \<le> snd (sane_page paging)"
proof (cases "plan_filters p")
  case True
  then have "read_filtered_page_io (fetch_decided w now (lp_ask p) (lp_reader p) (plan_lists p ix)) snd paging alarm_read_first
      alarm_read_max_rows st = (Inr page, st')"
    using assms(1) by (simp add: read_plan_def)
  note read = this
  have "list_state_ok (lp_reader p) st' \<and>
      (\<forall>d \<in> set (pr_rows page). snd d \<and> row_shown (lp_reader p) (plan_lists p ix) st' (fst d)) \<and>
      length (pr_rows page) \<le> snd (sane_page paging)"
  proof (rule page_io_rows [where I = "list_state_ok (lp_reader p)", OF read assms(2)])
    fix n st1 r st2
    assume "list_state_ok (lp_reader p) st1" "fetch_decided w now (lp_ask p) (lp_reader p) (plan_lists p ix) n st1 = (r, st2)"
    then show "list_state_ok (lp_reader p) st2 \<and>
        (\<forall>rows. r = Inr rows \<longrightarrow> (\<forall>row \<in> set rows. snd row \<longrightarrow> row_shown (lp_reader p) (plan_lists p ix) st2 (fst row)))"
      by (rule fetch_decided_rows)
  qed
  then show ?thesis by blast
next
  case False
  have "row_shown (lp_reader p) (plan_lists p ix) st m" for st m
    using False by (auto simp: plan_filters_def row_shown_def plan_lists_def split: option.split)
  moreover have "length (pr_rows page) \<le> snd (sane_page paging)"
    using assms(1) False by (auto simp: read_plan_def read_prefix_page_io_def Let_def split: prod.splits sum.splits)
  ultimately show ?thesis by blast
qed

text \<open>C11: The alarm list shows nobody another's alarms.  Whatever is asked, at most a page of rows comes back, and each is one the
  request's own settled answers show the reader, unless they read every alarm or the one instance or endpoint asked for was checked by
  the gate; a list asked for a named page has only rows that a pin served of the page covers, and says those pins.\<close>

theorem alarm_list_is_the_readers:
  assumes "alarms_list w now access q rq = (Body b, st')" "m \<in> set (rp_msgs b)"
  shows "(case access of None \<Rightarrow> True | Some sa \<Rightarrow> reads_every_alarm sa \<or>
      truthy (aq_service q) \<and> (truthy (aq_instance q) \<or> truthy (aq_endpoint q)) \<and> aw_query_alarms w \<or>
      row_visible sa (rq_resolved (ra_request (ls_rows st'))) (am_row m)) \<and>
    (case page_asked q of None \<Rightarrow> True | Some page_id \<Rightarrow>
      \<exists>pins. named_page_pins (aw_pages w) page_id (pin_reach_of access) = Some pins \<and> rp_pinned b = Some (map format_alarm_pin pins) \<and>
        (\<exists>pin \<in> set pins. alarm_pin_matches pin (am_layer_keys m) (am_owners m))) \<and>
    int (length (rp_msgs b)) \<le> aq_size q"
proof -
  obtain catalog rv where c: "read_catalog (aw_oap w) now (rq_resolver rq) = (catalog, rv)"
    by (cases "read_catalog (aw_oap w) now (rq_resolver rq)")
  let ?st = "\<lparr>ls_calls = 0, ls_rows = \<lparr>ra_decided = [], ra_request = rq\<lparr>rq_resolver := rv\<rparr>\<rparr>\<rparr>"
  obtain pins where pins: "page_pins_of w (page_asked q) access = Body pins"
    "answer_list w now q catalog (plan_of w q access pins) ?st = (Body b, st')"
    using assms(1) c by (auto simp: alarms_list_def Let_def split: if_splits alarms_reply.splits)
  have sz: "1 \<le> aq_size q" using assms(1) by (auto simp: alarms_list_def alarms_query_valid_def Let_def split: if_splits)
  let ?p = "plan_of w q access pins" and ?ix = "index_of_catalog catalog"
  obtain page where page: "read_plan w now ?p ?ix \<lparr>pg_num = aq_num q, pg_size = aq_size q\<rparr> ?st = (Inr page, st')"
    "rp_msgs b = tag_with_owners (map fst (pr_rows page)) ?ix" "rp_pinned b = map_option (map format_alarm_pin) pins"
    using pins(2) by (auto simp: answer_list_def Let_def read_failed_def plan_of_def split: if_splits sum.splits prod.splits read_error.splits)
  have "list_state_ok (lp_reader ?p) ?st" by (simp add: list_state_ok_def row_state_ok_def split: option.split)
  note rows = read_plan_rows [OF page(1) this]
  have m: "am_row m \<in> fst ` set (pr_rows page)" "am_layer_keys m = alarm_layers (am_row m) ?ix" "am_owners m = alarm_owners (am_row m) ?ix"
    using assms(2) by (force simp: page(2) tag_with_owners_def Let_def)+
  then have shown: "row_shown (lp_reader ?p) (plan_lists ?p ?ix) st' (am_row m)" using rows by auto
  have "case access of None \<Rightarrow> True | Some sa \<Rightarrow> reads_every_alarm sa \<or>
      truthy (aq_service q) \<and> (truthy (aq_instance q) \<or> truthy (aq_endpoint q)) \<and> aw_query_alarms w \<or>
      row_visible sa (rq_resolved (ra_request (ls_rows st'))) (am_row m)"
    using shown by (auto simp: row_shown_def plan_of_def build_entity_def Let_def split: option.splits if_splits)
  moreover have "case page_asked q of None \<Rightarrow> True | Some page_id \<Rightarrow>
      \<exists>pins. named_page_pins (aw_pages w) page_id (pin_reach_of access) = Some pins \<and> rp_pinned b = Some (map format_alarm_pin pins) \<and>
        (\<exists>pin \<in> set pins. alarm_pin_matches pin (am_layer_keys m) (am_owners m))"
  proof (cases "page_asked q")
    case (Some page_id)
    have named: "page_pins_of w (Some page_id) access = Body pins" using pins(1) Some by simp
    then obtain ps where ps: "named_page_pins (aw_pages w) page_id (pin_reach_of access) = Some ps"
      by (auto simp: page_pins_of_def split: if_splits option.splits)
    moreover have "pins = Some ps" using named ps by (simp add: page_pins_of_def split: if_splits)
    ultimately show ?thesis using Some shown page(3) m(2,3) by (auto simp: row_shown_def plan_lists_def plan_of_def Let_def list_ex_iff)
  qed simp
  moreover have "int (length (rp_msgs b)) \<le> aq_size q"
    using rows sz by (auto simp: page(2) tag_with_owners_def sane_page_def)
  ultimately show ?thesis by blast
qed

subsection \<open>What is counted\<close>

text \<open>The row at an index is the latest of its incident: no other of the incident starts later, nor as late and before it in the
  list.\<close>

definition is_latest :: "alarm_row list \<Rightarrow> nat \<Rightarrow> string \<Rightarrow> bool" where
  "is_latest rows i k \<longleftrightarrow> i < length rows \<and> alarm_incident_key (rows ! i) = k \<and>
     (\<forall>j < length rows. alarm_incident_key (rows ! j) = k \<longrightarrow>
        al_start (rows ! j) < al_start (rows ! i) \<or> al_start (rows ! j) = al_start (rows ! i) \<and> i \<le> j)"

lemma is_latest_unique:
  assumes "is_latest rows i k" "is_latest rows j k"
  shows "i = j"
proof -
  have "al_start (rows ! j) < al_start (rows ! i) \<or> al_start (rows ! j) = al_start (rows ! i) \<and> i \<le> j"
    "al_start (rows ! i) < al_start (rows ! j) \<or> al_start (rows ! i) = al_start (rows ! j) \<and> j \<le> i"
    using assms unfolding is_latest_def by blast+
  then show ?thesis by linarith
qed

lemma latest_other: "alarm_incident_key r \<noteq> k \<Longrightarrow> is_latest rows i k \<Longrightarrow> is_latest (rows @ [r]) i k"
  by (auto simp: is_latest_def nth_append less_Suc_eq)

lemma latest_kept:
  "is_latest rows i (alarm_incident_key r) \<Longrightarrow> al_start r \<le> al_start (rows ! i) \<Longrightarrow> is_latest (rows @ [r]) i (alarm_incident_key r)"
  by (auto simp: is_latest_def nth_append less_Suc_eq)

lemma latest_first:
  assumes "alarm_incident_key r \<notin> alarm_incident_key ` set rows"
  shows "is_latest (rows @ [r]) (length rows) (alarm_incident_key r)"
proof -
  have "alarm_incident_key (rows ! j) \<noteq> alarm_incident_key r" if "j < length rows" for j
    using assms nth_mem [OF that] by (metis image_eqI)
  then show ?thesis by (auto simp: is_latest_def nth_append less_Suc_eq)
qed

lemma latest_replaced:
  assumes "is_latest rows i (alarm_incident_key r)" "al_start (rows ! i) < al_start r"
  shows "is_latest (rows @ [r]) (length rows) (alarm_incident_key r)"
proof -
  have "al_start (rows ! j) < al_start r" if "j < length rows" "alarm_incident_key (rows ! j) = alarm_incident_key r" for j
    using assms that by (fastforce simp: is_latest_def)
  then show ?thesis by (auto simp: is_latest_def nth_append less_Suc_eq)
qed

lemma map_of_note:
  "map_of (note_event r m) k =
     (if k = alarm_incident_key r \<and> (case map_of m k of None \<Rightarrow> True | Some v \<Rightarrow> fst v < al_start r)
      then Some (al_start r, al_recovery r) else map_of m k)"
  by (auto simp: note_event_def Let_def split: option.split)

lemma noted_by:
  assumes "is_latest rs i k" "map_of m k = Some (al_start (rs ! i), al_recovery (rs ! i))"
  shows "(map_of m k = None \<longleftrightarrow> k \<notin> alarm_incident_key ` set rs) \<and>
    (\<forall>v. map_of m k = Some v \<longrightarrow> (\<exists>i. is_latest rs i k \<and> v = (al_start (rs ! i), al_recovery (rs ! i))))"
proof -
  have "rs ! i \<in> set rs" "alarm_incident_key (rs ! i) = k" using assms(1) by (simp_all add: is_latest_def)
  then have "k \<in> alarm_incident_key ` set rs" by blast
  then show ?thesis using assms by simp blast
qed

lemma noted_events:
  "(map_of (fold note_event rows []) k = None \<longleftrightarrow> k \<notin> alarm_incident_key ` set rows) \<and>
   (\<forall>v. map_of (fold note_event rows []) k = Some v \<longrightarrow>
      (\<exists>i. is_latest rows i k \<and> v = (al_start (rows ! i), al_recovery (rows ! i))))"
proof (induction rows arbitrary: k rule: rev_induct)
  case (snoc r rows)
  let ?m = "fold note_event rows []" and ?k = "alarm_incident_key r"
  have len: "i < length rows" if "is_latest rows i x" for i x using that by (simp add: is_latest_def)
  have m: "fold note_event (rows @ [r]) [] = note_event r ?m" by simp
  consider "k \<noteq> ?k" | "k = ?k" "map_of ?m k = None" | v where "k = ?k" "map_of ?m k = Some v" by fastforce
  then show ?case
  proof cases
    case 1
    have same: "map_of (note_event r ?m) k = map_of ?m k" using 1 by (simp add: map_of_note)
    have "\<exists>i. is_latest (rows @ [r]) i k \<and> v = (al_start ((rows @ [r]) ! i), al_recovery ((rows @ [r]) ! i))" if v: "map_of ?m k = Some v" for v
    proof -
      obtain i where "is_latest rows i k" "v = (al_start (rows ! i), al_recovery (rows ! i))" using snoc.IH [of k] v by blast
      then show ?thesis using latest_other [of r k rows i] 1 len [of i k] by (auto simp: nth_append)
    qed
    moreover have "map_of ?m k = None \<longleftrightarrow> k \<notin> alarm_incident_key ` set (rows @ [r])"
      using conjunct1 [OF snoc.IH [of k]] 1 by simp
    ultimately show ?thesis unfolding m same by blast
  next
    case 2
    have "is_latest (rows @ [r]) (length rows) k" using snoc.IH [of k] 2 latest_first by blast
    then show ?thesis unfolding m by (rule noted_by) (use 2 in \<open>simp add: map_of_note\<close>)
  next
    case (3 v)
    obtain i where i: "is_latest rows i k" "v = (al_start (rows ! i), al_recovery (rows ! i))" using snoc.IH [of k] 3(2) by blast
    show ?thesis
    proof (cases "al_start (rows ! i) < al_start r")
      case True
      have "is_latest (rows @ [r]) (length rows) k" using latest_replaced i(1) True 3(1) by blast
      then show ?thesis unfolding m by (rule noted_by) (use 3 True i(2) in \<open>simp add: map_of_note\<close>)
    next
      case False
      have "is_latest (rows @ [r]) i k" using latest_kept [of rows i r] i(1) False 3(1) by auto
      then show ?thesis unfolding m by (rule noted_by) (use 3 False i(2) len [OF i(1)] in \<open>simp add: map_of_note nth_append\<close>)
    qed
  qed
qed simp

lemma noted_distinct: "distinct (map fst (fold note_event rows m)) \<longleftrightarrow> distinct (map fst m)" if "distinct (map fst m)"
proof -
  have "distinct (map fst m) \<Longrightarrow> distinct (map fst (fold note_event rows m))" for m
    by (induction rows arbitrary: m) (auto simp: note_event_def Let_def distinct_map_put split: option.split)
  then show ?thesis using that by blast
qed

lemma fold_count: "fold (\<lambda>(k, v) n. if P v then n + 1 else n) xs n = n + length (filter (\<lambda>(k, v). P v) xs)" for n :: nat
  by (induction xs arbitrary: n) auto

lemma count_keys:
  assumes "distinct (map fst m)"
  shows "length (filter (\<lambda>(k, v). P v) m) = card {k. \<exists>v. map_of m k = Some v \<and> P v}"
proof -
  have "{k. \<exists>v. map_of m k = Some v \<and> P v} = fst ` set (filter (\<lambda>(k, v). P v) m)"
    using assms by force
  moreover have "distinct (map fst (filter (\<lambda>(k, v). P v) m))" using assms by (rule distinct_map_filter)
  ultimately show ?thesis by (metis distinct_card length_map set_map)
qed

text \<open>C24: What the badge counts.  Every event counts, an incident once however often it fires, and an incident is active exactly when
  the latest of its events still fires; so there are never more active incidents than incidents, nor than firing events, nor more
  incidents than events.\<close>

theorem incidents_counted:
  "ac_total (count_rows rows b) = length rows \<and>
   ac_firing (count_rows rows b) = length (filter (\<lambda>r. al_recovery r = None) rows) \<and>
   ac_incidents (count_rows rows b) = card (alarm_incident_key ` set rows) \<and>
   ac_active (count_rows rows b) = card {k. \<exists>i. is_latest rows i k \<and> al_recovery (rows ! i) = None} \<and>
   ac_active (count_rows rows b) \<le> ac_incidents (count_rows rows b) \<and>
   ac_active (count_rows rows b) \<le> ac_firing (count_rows rows b) \<and>
   ac_incidents (count_rows rows b) \<le> ac_total (count_rows rows b)"
proof -
  let ?m = "fold note_event rows []" and ?c = "count_rows rows b"
  have d: "distinct (map fst ?m)" using noted_distinct [of "[]" rows] by simp
  have firing: "ac_firing ?c = length (filter (\<lambda>r. al_recovery r = None) rows)"
  proof -
    have "fold (\<lambda>r n. n + (if al_recovery r = None then 1 else 0)) rows n = n + length (filter (\<lambda>r. al_recovery r = None) rows)" for n :: nat
      by (induction rows arbitrary: n) auto
    then show ?thesis by (simp add: count_rows_def Let_def)
  qed
  have keys: "fst ` set ?m = alarm_incident_key ` set rows"
  proof (rule set_eqI)
    fix k
    show "k \<in> fst ` set ?m \<longleftrightarrow> k \<in> alarm_incident_key ` set rows" using noted_events [of rows k] by (simp add: map_of_eq_None_iff)
  qed
  have inc: "ac_incidents ?c = card (alarm_incident_key ` set rows)"
    using distinct_card [OF d] keys by (simp add: count_rows_def Let_def)
  have act: "ac_active ?c = card {k. \<exists>i. is_latest rows i k \<and> al_recovery (rows ! i) = None}"
  proof -
    have "ac_active ?c = card {k. \<exists>v. map_of ?m k = Some v \<and> snd v = None}"
      using count_keys [OF d, of "\<lambda>v. snd v = None"] fold_count [of "\<lambda>v. snd v = None" ?m 0]
      by (simp add: count_rows_def Let_def)
    moreover have "(\<exists>v. map_of ?m k = Some v \<and> snd v = None) \<longleftrightarrow> (\<exists>i. is_latest rows i k \<and> al_recovery (rows ! i) = None)" for k
    proof (cases "map_of ?m k")
      case None
      then have "k \<notin> alarm_incident_key ` set rows" using noted_events by blast
      then show ?thesis using None by (auto simp: is_latest_def)
    next
      case (Some v)
      then obtain i where i: "is_latest rows i k" "v = (al_start (rows ! i), al_recovery (rows ! i))" using noted_events by blast
      have "(\<exists>j. is_latest rows j k \<and> al_recovery (rows ! j) = None) \<longleftrightarrow> al_recovery (rows ! i) = None"
        using i(1) is_latest_unique [OF i(1)] by blast
      then show ?thesis using Some i(2) by simp
    qed
    ultimately show ?thesis by simp
  qed
  have "{k. \<exists>i. is_latest rows i k \<and> al_recovery (rows ! i) = None} \<subseteq> alarm_incident_key ` set (filter (\<lambda>r. al_recovery r = None) rows)"
    by (auto simp: is_latest_def)
  then have le: "ac_active ?c \<le> card (alarm_incident_key ` set (filter (\<lambda>r. al_recovery r = None) rows))"
    unfolding act by (intro card_mono) auto
  also have "\<dots> \<le> length (filter (\<lambda>r. al_recovery r = None) rows)"
    using card_image_le [of "set (filter (\<lambda>r. al_recovery r = None) rows)"] card_length order_trans by blast
  finally have "ac_active ?c \<le> ac_firing ?c" unfolding firing .
  moreover have "ac_active ?c \<le> ac_incidents ?c"
    unfolding inc by (rule order_trans [OF le]) (auto intro!: card_mono)
  moreover have "ac_incidents ?c \<le> ac_total ?c"
    unfolding inc using card_image_le [of "set rows" alarm_incident_key] card_length [of rows] by (simp add: count_rows_def Let_def)
  ultimately show ?thesis using firing inc act by (simp add: count_rows_def Let_def)
qed

lemma count_truncated: "c = count_rows rows b \<Longrightarrow> c = count_rows rows (ac_truncated c)"
  by (simp add: count_rows_def Let_def)

text \<open>The count is of the reader's alarms.  What is counted is at most the cap of rows, and each is one the request's settled
  answers show the reader, unless they read every alarm.\<close>

theorem alarm_count_is_the_readers:
  assumes "alarms_count w now access start stop rq = (Body c, st')"
  shows "\<exists>rows. c = count_rows rows (ac_truncated c) \<and> length rows \<le> count_fetch_cap \<and>
    (case access of None \<Rightarrow> True | Some sa \<Rightarrow> reads_every_alarm sa \<or>
      (\<forall>row \<in> set rows. row_visible sa (rq_resolved (ra_request (ls_rows st'))) row))"
proof -
  let ?ask = "if aw_query_alarms w then QueryCounts else GetCounts"
  have direct: "\<exists>rows. c = count_rows rows (ac_truncated c) \<and> length rows \<le> count_fetch_cap"
    if read: "(case read_count_page w ?ask st of (Inl e, st') \<Rightarrow> (read_failed e, st') | (Inr (rows, b), st') \<Rightarrow> (Body (count_rows rows b), st')) = (Body c, st')"
    for st
  proof -
    obtain rows b where "c = count_rows rows b" "length rows \<le> count_fetch_cap"
      using read by (auto simp: read_count_page_def take_over_fetched_def read_failed_def split: prod.splits sum.splits read_error.splits)
    then show ?thesis using count_truncated by blast
  qed
  show ?thesis
  proof (cases "case access of None \<Rightarrow> True | Some sa \<Rightarrow> reads_every_alarm sa")
    case True
    then have "\<exists>rows. c = count_rows rows (ac_truncated c) \<and> length rows \<le> count_fetch_cap"
      using assms by (intro direct [of "\<lparr>ls_calls = 0, ls_rows = \<lparr>ra_decided = [], ra_request = rq\<rparr>\<rparr>"])
        (auto simp: alarms_count_def Let_def split: option.splits if_splits)
    then show ?thesis using True by (auto split: option.splits)
  next
    case False
    then obtain sa where sa: "access = Some sa" "\<not> reads_every_alarm sa" by (auto split: option.splits)
    obtain catalog rv where c: "read_catalog (aw_oap w) now (rq_resolver rq) = (catalog, rv)"
      by (cases "read_catalog (aw_oap w) now (rq_resolver rq)")
    let ?st = "\<lparr>ls_calls = 0, ls_rows = \<lparr>ra_decided = [], ra_request = rq\<lparr>rq_resolver := rv\<rparr>\<rparr>\<rparr>"
    obtain page where page: "read_filtered_page_io (fetch_decided w now ?ask (Some sa) (\<lambda>_. True)) snd
        \<lparr>pg_num = 1, pg_size = int count_fetch_cap\<rparr> alarm_read_first alarm_read_max_rows ?st = (Inr page, st')"
      "c = count_rows (map fst (pr_rows page)) (pr_has_next page)"
      using assms sa c by (auto simp: alarms_count_def Let_def read_failed_def split: if_splits prod.splits sum.splits read_error.splits)
    have "list_state_ok (Some sa) st' \<and>
        (\<forall>d \<in> set (pr_rows page). snd d \<and> row_shown (Some sa) (\<lambda>_. True) st' (fst d)) \<and>
        length (pr_rows page) \<le> snd (sane_page \<lparr>pg_num = 1, pg_size = int count_fetch_cap\<rparr>)"
    proof (rule page_io_rows [where I = "list_state_ok (Some sa)", OF page(1)])
      show "list_state_ok (Some sa) ?st" by (simp add: list_state_ok_def row_state_ok_def)
      fix n st1 r st2
      assume "list_state_ok (Some sa) st1" "fetch_decided w now ?ask (Some sa) (\<lambda>_. True) n st1 = (r, st2)"
      then show "list_state_ok (Some sa) st2 \<and>
          (\<forall>rows. r = Inr rows \<longrightarrow> (\<forall>row \<in> set rows. snd row \<longrightarrow> row_shown (Some sa) (\<lambda>_. True) st2 (fst row)))"
        by (rule fetch_decided_rows)
    qed
    note rows = this
    have "c = count_rows (map fst (pr_rows page)) (ac_truncated c)" unfolding page(2) by (simp add: count_rows_def Let_def)
    moreover have "length (map fst (pr_rows page)) \<le> count_fetch_cap"
      using rows by (simp add: sane_page_def count_fetch_cap_def)
    moreover have "\<forall>row \<in> set (map fst (pr_rows page)). row_visible sa (rq_resolved (ra_request (ls_rows st'))) row"
      using rows by (auto simp: row_shown_def)
    ultimately show ?thesis using sa(1) by (intro exI [of _ "map fst (pr_rows page)"]) simp
  qed
qed

text \<open>The filter of a page offers what its list holds.  A service offered is one of the layer with a name, in the reader's reach, and,
  for a named page, covered by a pin served of it; and every such service is offered.\<close>

theorem services_offered:
  assumes "alarm_services w by_locale (Some sa) (Some layer) page = Body (l, out)" "aw_roster w layer = Some got" "\<And>xs. set (by_locale xs) = set xs"
  shows "s \<in> set out \<longleftrightarrow> s \<in> set got \<and> raw_name s \<noteq> [] \<and> \<not> blank_is_out_of_reach sa [''alarms:read''] (Some (raw_name s)) \<and>
    takes_in (on_layer_any sa [''alarms:read''] layer) (or_empty (raw_group s)) \<and>
    (case page of None \<Rightarrow> True | Some p \<Rightarrow> p = [] \<or> p = alert_default_page_id \<or>
       (\<exists>pins. named_page_pins (aw_pages w) p (pin_reach_of (Some sa)) = Some pins \<and>
          (\<exists>pin \<in> set pins. covers pin (canonical_layer_key layer) (or_empty (raw_group s)))))"
proof -
  define pid where "pid = (if truthy page \<and> page \<noteq> Some alert_default_page_id then page else None)"
  define readable where "readable = filter_roster sa [''alarms:read''] layer (\<lambda>s. Some (raw_name s)) raw_group
    (by_locale (filter (\<lambda>s. 0 < length (raw_name s)) got))"
  let ?narrow = "\<lambda>ps. filter (\<lambda>s. list_ex (\<lambda>p. pn_layer p = canonical_layer_key layer \<and>
    (case pn_groups p of None \<Rightarrow> True | Some gs \<Rightarrow> or_empty (raw_group s) \<in> set gs)) ps) readable"
  have layer: "truthy (Some layer)" using assms(1) by (auto simp: alarm_services_def split: if_splits)
  have step: "alarm_services w by_locale (Some sa) (Some layer) page = (case page_pins_of w pid (Some sa) of
      Body pins \<Rightarrow> Body (layer, case pins of Some ps \<Rightarrow> ?narrow ps | None \<Rightarrow> readable)
    | StoreUnreachable \<Rightarrow> StoreUnreachable
    | _ \<Rightarrow> PageNotFound)"
    using layer assms(2) unfolding alarm_services_def Let_def pid_def [symmetric] readable_def
    by (simp split: alarms_reply.split option.split)
  obtain pins where pins: "page_pins_of w pid (Some sa) = Body pins" "out = (case pins of Some ps \<Rightarrow> ?narrow ps | None \<Rightarrow> readable)"
    using assms(1) unfolding step by (cases "page_pins_of w pid (Some sa)") auto
  have r: "s \<in> set readable \<longleftrightarrow> s \<in> set got \<and> raw_name s \<noteq> [] \<and> \<not> blank_is_out_of_reach sa [''alarms:read''] (Some (raw_name s)) \<and>
      takes_in (on_layer_any sa [''alarms:read''] layer) (or_empty (raw_group s))"
    by (auto simp: readable_def filter_roster_def takes_in_def assms(3) Let_def split: option.split)
  show ?thesis
  proof (cases pid)
    case None
    then show ?thesis using pins r by (cases page) (auto simp: page_pins_of_def pid_def split: if_splits)
  next
    case (Some p)
    then have p: "page = Some p" "p \<noteq> []" "p \<noteq> alert_default_page_id" by (auto simp: pid_def split: if_splits)
    have named: "page_pins_of w (Some p) (Some sa) = Body pins" using pins(1) Some by simp
    then obtain ps where ps: "named_page_pins (aw_pages w) p (pin_reach_of (Some sa)) = Some ps"
      by (auto simp: page_pins_of_def split: if_splits option.splits)
    then have "pins = Some ps" using named by (simp add: page_pins_of_def split: if_splits)
    then show ?thesis using pins(2) r p ps by (auto simp: list_ex_iff covers_def)
  qed
qed

subsection \<open>Samples\<close>

definition sample_world :: alarm_world where
  "sample_world =
     \<lparr>aw_oap = \<lparr>ow_catalog = \<lambda>n. \<lparr>ca_layers = Some [''MESH''], ca_rosters = \<lambda>l. Some (\<lambda>i. Some [])\<rparr>,
        ow_service = \<lambda>n i. None, ow_services = \<lambda>n i. None\<rparr>,
      aw_alarms = \<lambda>ask n num sz. Some [sample_relation], aw_query_alarms = True, aw_pages = empty_unreachable,
      aw_roster = \<lambda>l. Some [\<lparr>raw_id = ''x.1'', raw_name = ''cart'', raw_normal = Some True, raw_group = None\<rparr>]\<rparr>"

definition sample_query :: alarms_query where
  "sample_query = \<lparr>aq_start = 1, aq_end = 9, aq_scope = None, aq_keyword = None, aq_num = 1, aq_size = 500, aq_layer = None,
     aq_service = None, aq_normal = None, aq_instance = None, aq_endpoint = None, aq_page = None\<rparr>"

definition sample_rq :: request_state where
  "sample_rq = \<lparr>rq_resolved = [(ById (service_id_of ''cart'' True), ResUnknown)],
     rq_resolver = \<lparr>rv_catalog = new_catalog_state, rv_held = [], rv_calls = 0\<rparr>\<rparr>"

lemma sample_catalog: "\<not> catalog_missing (fst (read_catalog (aw_oap sample_world) 7 (rq_resolver sample_rq)))"
  by code_simp

lemma sample_fetch:
  assumes "lst sample_relation"
  shows "\<exists>st'. fetch_decided sample_world 7 ask (Some sample_reader) lst n
    \<lparr>ls_calls = 0, ls_rows = \<lparr>ra_decided = [], ra_request = sample_rq\<lparr>rq_resolver := rv\<rparr>\<rparr>\<rparr> = (Inr [(sample_relation, True)], st')"
proof -
  have st: "\<lparr>ra_decided = [], ra_request = sample_rq\<lparr>rq_resolver := rv\<rparr>\<rparr> = sample_row_state rv"
    by (simp add: sample_rq_def sample_row_state_def)
  obtain rs where "decide_rows (aw_oap sample_world) 7 sample_reader lst [sample_relation] (sample_row_state rv) = (Settled [(sample_relation, True)], rs)"
    using sample_decided [of lst] assms by blast
  then show ?thesis unfolding st by (simp add: fetch_decided_def fetch_alarms_def sample_world_def)
qed

lemma sample_page:
  assumes "lst sample_relation" "sz \<in> {200, 500}"
  shows "\<exists>st' b. read_filtered_page_io (fetch_decided sample_world 7 ask (Some sample_reader) lst) snd \<lparr>pg_num = 1, pg_size = sz\<rparr>
    alarm_read_first alarm_read_max_rows \<lparr>ls_calls = 0, ls_rows = \<lparr>ra_decided = [], ra_request = sample_rq\<lparr>rq_resolver := rv\<rparr>\<rparr>\<rparr> =
    (Inr \<lparr>pr_rows = [(sample_relation, True)], pr_num = 1, pr_size = nat sz, pr_has_next = b\<rparr>, st')"
proof -
  let ?st = "\<lparr>ls_calls = 0, ls_rows = \<lparr>ra_decided = [], ra_request = sample_rq\<lparr>rq_resolver := rv\<rparr>\<rparr>\<rparr>"
  let ?n = "min alarm_read_max_rows (max alarm_read_first (nat sz + 1))"
  obtain st' where f: "fetch_decided sample_world 7 ask (Some sample_reader) lst ?n ?st = (Inr [(sample_relation, True)], st')"
    using sample_fetch [of lst, OF assms(1)] by blast
  have n: "1 < ?n" using assms(2) by (auto simp: alarm_read_max_rows_def alarm_read_first_def)
  have reads: "filtered_reads_io (fetch_decided sample_world 7 ask (Some sample_reader) lst) snd (nat sz + 1) alarm_read_max_rows ?n ?st =
      (Inr ([(sample_relation, True)], True, ?n), st')"
    using f n by (subst filtered_reads_io.simps) (simp add: Let_def)
  have "sane_page \<lparr>pg_num = 1, pg_size = sz\<rparr> = (1, nat sz)" "page_offset 1 (nat sz) = 0" "1 \<le> nat sz"
    using assms(2) by (auto simp: sane_page_def page_offset_def max_def)
  then show ?thesis using reads by (simp add: read_filtered_page_io_def Let_def)
qed

lemma alarm_sample_asked: "alarms_query_valid sample_query" "page_asked sample_query = None"
  by (simp_all add: alarms_query_valid_def sample_query_def list_page_size_cap_def page_asked_def)

theorem alarm_count_is_the_readers_witness:
  "\<exists>c st'. alarms_count sample_world 7 (Some sample_reader) 1 9 sample_rq = (Body c, st') \<and>
     (\<exists>rows. c = count_rows rows (ac_truncated c) \<and> (\<forall>row \<in> set rows. row_visible sample_reader (rq_resolved (ra_request (ls_rows st'))) row))"
proof -
  obtain c rv where r: "read_catalog (aw_oap sample_world) 7 (rq_resolver sample_rq) = (c, rv)"
    by (cases "read_catalog (aw_oap sample_world) 7 (rq_resolver sample_rq)")
  obtain st' b where "read_filtered_page_io (fetch_decided sample_world 7 QueryCounts (Some sample_reader) (\<lambda>_. True)) snd
      \<lparr>pg_num = 1, pg_size = int count_fetch_cap\<rparr> alarm_read_first alarm_read_max_rows
      \<lparr>ls_calls = 0, ls_rows = \<lparr>ra_decided = [], ra_request = sample_rq\<lparr>rq_resolver := rv\<rparr>\<rparr>\<rparr> =
      (Inr \<lparr>pr_rows = [(sample_relation, True)], pr_num = 1, pr_size = 200, pr_has_next = b\<rparr>, st')"
    using sample_page [of "\<lambda>_. True" 200 QueryCounts rv] by (auto simp: count_fetch_cap_def)
  then have c: "alarms_count sample_world 7 (Some sample_reader) 1 9 sample_rq = (Body (count_rows [sample_relation] b), st')"
    using r sample_catalog sample_facts(1) by (simp add: alarms_count_def Let_def window_cap_ms_def) (simp add: sample_world_def)
  from alarm_count_is_the_readers [OF c] sample_facts(1) c show ?thesis by auto
qed

theorem alarm_list_is_the_readers_witness:
  "\<exists>b st'. alarms_list sample_world 7 (Some sample_reader) sample_query sample_rq = (Body b, st') \<and> rp_msgs b \<noteq> [] \<and>
     row_visible sample_reader (rq_resolved (ra_request (ls_rows st'))) (am_row (hd (rp_msgs b)))"
proof -
  obtain c rv where r: "read_catalog (aw_oap sample_world) 7 (rq_resolver sample_rq) = (c, rv)"
    by (cases "read_catalog (aw_oap sample_world) 7 (rq_resolver sample_rq)")
  let ?p = "plan_of sample_world sample_query (Some sample_reader) None"
  have p: "lp_reader ?p = Some sample_reader" "plan_filters ?p" "plan_lists ?p (index_of_catalog c) sample_relation"
    using sample_facts(1) by (simp_all add: plan_of_def sample_query_def plan_filters_def plan_lists_def Let_def)
  obtain st' b where "read_plan sample_world 7 ?p (index_of_catalog c) \<lparr>pg_num = 1, pg_size = 500\<rparr>
      \<lparr>ls_calls = 0, ls_rows = \<lparr>ra_decided = [], ra_request = sample_rq\<lparr>rq_resolver := rv\<rparr>\<rparr>\<rparr> =
      (Inr \<lparr>pr_rows = [(sample_relation, True)], pr_num = 1, pr_size = 500, pr_has_next = b\<rparr>, st')"
    using sample_page [of "plan_lists ?p (index_of_catalog c)" 500 "lp_ask ?p" rv] p by (auto simp: read_plan_def)
  moreover have "\<not> catalog_missing c" using sample_catalog r by simp
  ultimately obtain body where body: "answer_list sample_world 7 sample_query c ?p
      \<lparr>ls_calls = 0, ls_rows = \<lparr>ra_decided = [], ra_request = sample_rq\<lparr>rq_resolver := rv\<rparr>\<rparr>\<rparr> = (Body body, st')"
    "map am_row (rp_msgs body) = [sample_relation]"
    by (simp add: answer_list_def Let_def tag_with_owners_def sample_query_def)
  have "aw_query_alarms sample_world" by (simp add: sample_world_def)
  moreover have "aq_start sample_query = 1" "aq_end sample_query = 9" "aq_num sample_query = 1" "aq_size sample_query = 500"
    by (simp_all add: sample_query_def)
  ultimately have l: "alarms_list sample_world 7 (Some sample_reader) sample_query sample_rq = (Body body, st')"
    using r body(1) alarm_sample_asked
    by (simp add: alarms_list_def Let_def window_cap_ms_def page_offset_def alarm_read_max_rows_def page_pins_of_def)
  obtain m where m: "rp_msgs body = [m]" using body(2) by auto
  have "\<not> truthy (aq_service sample_query)" by (simp add: sample_query_def)
  with alarm_list_is_the_readers [OF l, of m] sample_facts(1) m l show ?thesis by auto
qed

theorem services_offered_witness:
  "\<exists>out. alarm_services sample_world id (Some sample_reader) (Some ''MESH'') None = Body (''MESH'', out) \<and>
     \<lparr>raw_id = ''x.1'', raw_name = ''cart'', raw_normal = Some True, raw_group = None\<rparr> \<in> set out"
proof -
  let ?s = "\<lparr>raw_id = ''x.1'', raw_name = ''cart'', raw_normal = Some True, raw_group = None\<rparr>"
  obtain out where out: "alarm_services sample_world id (Some sample_reader) (Some ''MESH'') None = Body (''MESH'', out)"
    by (simp add: alarm_services_def page_pins_of_def sample_world_def Let_def)
  have "aw_roster sample_world ''MESH'' = Some [?s]" by (simp add: sample_world_def)
  from services_offered [OF out this, of ?s] have "?s \<in> set out \<longleftrightarrow>
      \<not> blank_is_out_of_reach sample_reader [''alarms:read''] (Some ''cart'') \<and> takes_in (on_layer_any sample_reader [''alarms:read''] ''MESH'') []"
    by simp
  moreover have "\<not> blank_is_out_of_reach sample_reader [''alarms:read''] (Some ''cart'') \<and> takes_in (on_layer_any sample_reader [''alarms:read''] ''MESH'') []"
    by code_simp
  ultimately show ?thesis using out by blast
qed

end
