(* ===== verification/Spec2Isabelle.thy ===== *)
theory Spec2Isabelle
  imports RequestGate SsoSignIn AuditTrail AlarmList
begin

text \<open>Root theory.\<close>

end
